(* ===== verification/Prelude.thy ===== *)
theory Prelude
  imports Main "HOL-Library.Word"
begin

text \<open>
  Shared vocabulary of the development: the C++ integer types as words, the ways a call can
  end abnormally, sequencing of calls that can fail, the two library routines on
  \<^verbatim>\<open>std::vector\<close> and \<^verbatim>\<open>std::copy\<close> that the buffer uses, and the generic lemmas and named
  collections that carry the component proofs.
\<close>

section \<open>Types\<close>

text \<open>\<^verbatim>\<open>char\<close> is a byte, \<^verbatim>\<open>size_t\<close> is 64 bits wide and wraps around; a file descriptor, an
  \<^verbatim>\<open>errno\<close> value and a system call result are C \<^verbatim>\<open>int\<close>s that the program never does
  arithmetic on, so they are plain integers.\<close>

type_synonym byte = "8 word"
type_synonym size_t = "64 word"
type_synonym fd = int
type_synonym errno = int

text \<open>
  How a call can end other than by returning: an exception of the standard library that the
  program does not catch, an \<^verbatim>\<open>exit\<close> from \<^verbatim>\<open>LOG_FATAL\<close>, or undefined behaviour (an access
  outside an array, a null or dangling pointer, overflow of an \<^verbatim>\<open>int\<close>), which the theorems show cannot happen.
\<close>

datatype exc =
    LengthError
  | BadFunctionCall
  | BadWeakPtr
  | FatalExit string
  | OutOfBounds
  | NullPointer
  | SignedOverflow

type_synonym 'a result = "exc + 'a"

section \<open>Sequencing\<close>

definition and_then :: "'a result \<Rightarrow> ('a \<Rightarrow> 'b result) \<Rightarrow> 'b result" where
  "and_then m f = (case m of Inl e \<Rightarrow> Inl e | Inr x \<Rightarrow> f x)"

text \<open>The body of a range-based \<^verbatim>\<open>for\<close> loop, run on each element in order, stopping at the
  first exception.\<close>

primrec for_each :: "('x \<Rightarrow> 's \<Rightarrow> 's result) \<Rightarrow> 'x list \<Rightarrow> 's \<Rightarrow> 's result" where
  "for_each f [] s = Inr s"
| "for_each f (x # xs) s = and_then (f x s) (for_each f xs)"

lemma and_then_simps [simp]:
  "and_then (Inl e) f = Inl e"
  "and_then (Inr x) f = f x"
  by (simp_all add: and_then_def)

lemma and_then_eq_Inr:
  "and_then m f = Inr y \<longleftrightarrow> (\<exists>x. m = Inr x \<and> f x = Inr y)"
  by (cases m) auto

lemma and_then_eq_Inl:
  "and_then m f = Inl e \<longleftrightarrow> m = Inl e \<or> (\<exists>x. m = Inr x \<and> f x = Inl e)"
  by (cases m) auto

lemma and_then_assoc: "and_then (and_then m f) g = and_then m (\<lambda>x. and_then (f x) g)"
  by (cases m) auto

lemma for_each_append:
  "for_each f (xs @ ys) s = and_then (for_each f xs s) (for_each f ys)"
proof (induction xs arbitrary: s)
  case Nil
  then show ?case by simp
next
  case (Cons x xs)
  then show ?case by (cases "f x s") auto
qed

lemma for_each_invariant:
  assumes "for_each f xs s = Inr s'" and "P s"
    and "\<And>x s t. x \<in> set xs \<Longrightarrow> P s \<Longrightarrow> f x s = Inr t \<Longrightarrow> P t"
  shows "P s'"
  using assms
proof (induction xs arbitrary: s)
  case Nil
  then show ?case by simp
next
  case (Cons x xs)
  from Cons.prems(1) obtain t where t: "f x s = Inr t" and rest: "for_each f xs t = Inr s'"
    by (auto simp: and_then_eq_Inr)
  have "P t" using Cons.prems(2,3) t by (meson list.set_intros(1))
  with rest show ?case using Cons.IH Cons.prems(3) by (meson list.set_intros(2))
qed

lemma for_each_upto:
  assumes "for_each f [0..<n] s = Inr s'" and "P 0 s" and "\<And>i s t. i < n \<Longrightarrow> P i s \<Longrightarrow> f i s = Inr t \<Longrightarrow> P (Suc i) t"
  shows "P n s'"
  using assms
proof (induction n arbitrary: s')
  case (Suc n)
  then obtain t where t: "for_each f [0..<n] s = Inr t" "f n t = Inr s'" by (auto simp: for_each_append and_then_eq_Inr)
  have "P n t" using Suc.prems(2,3) by (intro Suc.IH [OF t(1)]) simp_all
  with Suc.prems(3) [of n t s'] t(2) show ?case by simp
qed simp

section \<open>Arrays\<close>

text \<open>\<^term>\<open>blit i d xs\<close> is the array \<^term>\<open>xs\<close> with the bytes \<^term>\<open>d\<close> stored from index
  \<^term>\<open>i\<close> on: the effect of \<^verbatim>\<open>std::copy(d, d + n, xs + i)\<close> from another array.\<close>

definition blit :: "nat \<Rightarrow> 'a list \<Rightarrow> 'a list \<Rightarrow> 'a list" where
  "blit i d xs = take i xs @ d @ drop (i + length d) xs"

text \<open>\<^verbatim>\<open>std::copy\<close> inside one array copies element by element from the front, reading what
  earlier iterations may have written.\<close>

primrec copy_fwd :: "nat \<Rightarrow> nat \<Rightarrow> nat \<Rightarrow> 'a list \<Rightarrow> 'a list" where
  "copy_fwd 0 src dst xs = xs"
| "copy_fwd (Suc n) src dst xs = copy_fwd n (Suc src) (Suc dst) (xs[dst := xs ! src])"

definition vector_resize :: "nat \<Rightarrow> 'a \<Rightarrow> 'a list \<Rightarrow> 'a list" where
  "vector_resize n x xs = take n xs @ replicate (n - length xs) x"

lemma length_blit [simp]: "i + length d \<le> length xs \<Longrightarrow> length (blit i d xs) = length xs"
  by (simp add: blit_def)

lemma take_blit [simp]: "i \<le> length xs \<Longrightarrow> take i (blit i d xs) = take i xs"
  by (simp add: blit_def)

lemma blit_window [simp]:
  "i \<le> length xs \<Longrightarrow> take (length d) (drop i (blit i d xs)) = d"
  by (simp add: blit_def)

lemma length_vector_resize [simp]: "length (vector_resize n x xs) = n"
  by (simp add: vector_resize_def)

lemma take_vector_resize [simp]:
  "i \<le> n \<Longrightarrow> i \<le> length xs \<Longrightarrow> take i (vector_resize n x xs) = take i xs"
  by (simp add: vector_resize_def min_def)

lemma length_copy_fwd [simp]: "length (copy_fwd n src dst xs) = length xs"
  by (induction n arbitrary: src dst xs) auto

text \<open>Copying towards the front is safe although source and target overlap: no element is
  overwritten before it is read.\<close>

lemma copy_fwd_nth:
  assumes "dst \<le> src" and "src + n \<le> length xs" and "i < length xs"
  shows "copy_fwd n src dst xs ! i =
    (if dst \<le> i \<and> i < dst + n then xs ! (src + (i - dst)) else xs ! i)"
  using assms
proof (induction n arbitrary: src dst xs)
  case 0
  then show ?case by auto
next
  case (Suc n)
  let ?ys = "xs[dst := xs ! src]"
  have IH: "copy_fwd n (Suc src) (Suc dst) ?ys ! i =
    (if Suc dst \<le> i \<and> i < Suc dst + n then ?ys ! (Suc src + (i - Suc dst)) else ?ys ! i)"
    using Suc.prems by (intro Suc.IH) auto
  show ?case
  proof (cases "Suc dst \<le> i \<and> i < Suc dst + n")
    case True
    then have "?ys ! (Suc src + (i - Suc dst)) = xs ! (src + (i - dst))"
      using Suc.prems by (auto simp: nth_list_update Suc_diff_Suc)
    with True IH show ?thesis by simp
  next
    case False
    then have "i = dst \<or> \<not> (dst \<le> i \<and> i < dst + Suc n)" by auto
    with False IH Suc.prems show ?thesis
      by (auto simp: nth_list_update)
  qed
qed

lemma copy_fwd_eq_blit:
  assumes "dst \<le> src" and "src + n \<le> length xs"
  shows "copy_fwd n src dst xs = blit dst (take n (drop src xs)) xs"
proof (rule nth_equalityI)
  have len: "length (take n (drop src xs)) = n" using assms by simp
  then show "length (copy_fwd n src dst xs) = length (blit dst (take n (drop src xs)) xs)"
    using assms by simp
  fix i assume "i < length (copy_fwd n src dst xs)"
  then have i: "i < length xs" by simp
  show "copy_fwd n src dst xs ! i = blit dst (take n (drop src xs)) xs ! i"
    using assms i len
    by (simp add: copy_fwd_nth blit_def nth_append min_def) (auto intro: arg_cong)
qed

lemma window_append:
  "a \<le> b \<Longrightarrow> b \<le> c \<Longrightarrow> take (c - a) (drop a xs) = take (b - a) (drop a xs) @ take (c - b) (drop b xs)"
  using take_add [of "b - a" "c - b" "drop a xs"] by simp

section \<open>Words\<close>

named_theorems word_nat \<open>reading word comparisons and arithmetic as natural numbers\<close>

lemmas [word_nat] = word_le_nat_alt word_less_nat_alt

lemma unat_diff_le [word_nat]: "unat b \<le> unat a \<Longrightarrow> unat (a - b) = unat a - unat (b :: 'a::len word)"
  by (simp add: unat_sub word_le_nat_alt)

lemma unat_add_small [word_nat]:
  "unat a + unat b < 2 ^ LENGTH('a) \<Longrightarrow> unat (a + b) = unat a + unat (b :: 'a::len word)"
  by (simp add: unat_word_ariths)

lemma unat_of_nat_small [word_nat]:
  "n < 2 ^ LENGTH('a) \<Longrightarrow> unat (of_nat n :: 'a::len word) = n"
  by (simp add: unat_of_nat)

lemma unat_lt64 [simp]: "unat (x :: size_t) < 18446744073709551616"
  using unsigned_less [of x] by simp

section \<open>Formatted output\<close>

text \<open>\<^verbatim>\<open>%u\<close> and \<^verbatim>\<open>%d\<close> of \<^verbatim>\<open>printf\<close>, and the truncation of \<^verbatim>\<open>snprintf\<close> to a buffer of
  \<^term>\<open>n\<close> bytes, of which the last is the terminator.\<close>

definition digit :: "nat \<Rightarrow> char" where
  "digit d = char_of (48 + d)"

fun show_nat :: "nat \<Rightarrow> string" where
  "show_nat n = (if n < 10 then [digit n] else show_nat (n div 10) @ [digit (n mod 10)])"

declare show_nat.simps [simp del]

definition show_int :: "int \<Rightarrow> string" where
  "show_int i = (if i < 0 then CHR ''-'' # show_nat (nat (- i)) else show_nat (nat i))"

definition snprintf_buf :: "nat \<Rightarrow> string \<Rightarrow> string" where
  "snprintf_buf n s = take (n - 1) s"

fun read_nat :: "nat \<Rightarrow> string \<Rightarrow> nat" where
  "read_nat acc [] = acc"
| "read_nat acc (c # cs) = read_nat (10 * acc + (of_char c - 48)) cs"

lemma of_char_digit [simp]: "d < 10 \<Longrightarrow> of_char (digit d) = 48 + d"
  by (simp add: digit_def)

lemma read_nat_append: "read_nat acc (xs @ [c]) = 10 * read_nat acc xs + (of_char c - 48)"
  by (induction xs arbitrary: acc) auto

lemma read_show_nat [simp]: "read_nat 0 (show_nat n) = n"
proof (induction n rule: show_nat.induct)
  case (1 n)
  then show ?case by (subst show_nat.simps) (simp add: read_nat_append)
qed

lemma show_nat_inject [simp]: "show_nat m = show_nat n \<longleftrightarrow> m = n"
  by (metis read_show_nat)

lemma show_nat_digits: "c \<in> set (show_nat n) \<Longrightarrow> 48 \<le> (of_char c :: nat) \<and> (of_char c :: nat) < 58"
proof (induction n rule: show_nat.induct)
  case (1 n)
  then show ?case by (subst (asm) (2) show_nat.simps) (auto split: if_splits)
qed

lemma show_nat_no: "of_char c < (48 :: nat) \<or> (58 :: nat) \<le> of_char c \<Longrightarrow> c \<notin> set (show_nat n)"
  using show_nat_digits by fastforce

lemma length_show_nat: "n < 10 ^ Suc k \<Longrightarrow> length (show_nat n) \<le> Suc k"
proof (induction k arbitrary: n)
  case 0
  then show ?case by (simp add: show_nat.simps)
next
  case (Suc k)
  then have "n div 10 < 10 ^ Suc k" by (simp add: less_mult_imp_div_less)
  from Suc.IH [OF this] show ?case by (subst show_nat.simps) auto
qed

lemma show_nat_not_Nil [simp]: "show_nat n \<noteq> []"
  by (subst show_nat.simps) simp

text \<open>A text up to the last separator is determined when what follows has no separator.\<close>

lemma split_at_char:
  assumes "c \<notin> set ys" and "c \<notin> set ys'"
  shows "xs @ c # ys = xs' @ c # ys' \<longleftrightarrow> xs = xs' \<and> ys = ys'"
  using assms by (auto simp: append_eq_append_conv2 append_eq_Cons_conv Cons_eq_append_conv)

end
