(* ===== verification/Callbacks.thy ===== *)
theory Callbacks
  imports Prelude
begin

text \<open>
  Object identities and callbacks (\<^verbatim>\<open>Callbacks.h\<close> and the \<^verbatim>\<open>std::bind\<close> expressions of the
  program). A pointer to a \<^verbatim>\<open>Channel\<close> is named by the object that owns the channel. A
  \<^verbatim>\<open>std::function\<close> stored in a channel or queued in a loop is one of finitely many
  \<^verbatim>\<open>std::bind\<close> expressions of the source, so it is a constructor that names the bound method
  and its bound arguments; calling it is an interpretation function that the server theory
  defines once every method is known.
\<close>

section \<open>Pointers\<close>

type_synonym loop_ptr = nat
type_synonym conn_ptr = nat

text \<open>\<^verbatim>\<open>EventLoop::wakeupChannel_\<close>, \<^verbatim>\<open>Acceptor::acceptChannel_\<close> and
  \<^verbatim>\<open>TcpConnection::channel_\<close> are the only channels of the program.\<close>

datatype chan_ptr =
    WakeupChannel loop_ptr
  | AcceptChannel
  | ConnChannel conn_ptr

section \<open>Bound callbacks\<close>

datatype event_callback =
    Bind_EventLoop_handleRead loop_ptr
  | Bind_Acceptor_handleRead
  | Bind_TcpConnection_handleRead conn_ptr
  | Bind_TcpConnection_handleWrite conn_ptr
  | Bind_TcpConnection_handleClose conn_ptr
  | Bind_TcpConnection_handleError conn_ptr

text \<open>A function the application registers (\<^verbatim>\<open>ConnectionCallback\<close>, \<^verbatim>\<open>MessageCallback\<close>,
  \<^verbatim>\<open>WriteCompleteCallback\<close>, \<^verbatim>\<open>HighWaterMarkCallback\<close> of \<^verbatim>\<open>Callbacks.h\<close>) is an opaque name;
  what it does is a parameter of the model. A \<^verbatim>\<open>CloseCallback\<close> is the server's
  \<^verbatim>\<open>removeConnection\<close> or a function of the application.\<close>

type_synonym user_fn = nat

datatype close_fn = Bind_TcpServer_removeConnection | User_close user_fn

text \<open>What \<^verbatim>\<open>runInLoop\<close> and \<^verbatim>\<open>queueInLoop\<close> are called with. The last constructor stands for
  a functor of the application, which may queue any callable of its own.\<close>

datatype task =
    Bind_connectEstablished conn_ptr
  | Bind_connectDestroyed conn_ptr
  | Bind_sendInLoop conn_ptr "byte list"
  | Bind_shutdownInLoop conn_ptr
  | Bind_writeComplete user_fn conn_ptr
  | Bind_highWaterMark user_fn conn_ptr size_t
  | Bind_listen
  | Bind_removeConnectionInLoop conn_ptr
  | Bind_user nat

text \<open>The \<^verbatim>\<open>TcpConnectionPtr\<close> a queued functor owns. \<^verbatim>\<open>sendInLoop\<close> and \<^verbatim>\<open>shutdownInLoop\<close> are
  bound to a raw \<^verbatim>\<open>this\<close> and own nothing.\<close>

fun task_owns :: "task \<Rightarrow> conn_ptr option" where
  "task_owns (Bind_connectEstablished c) = Some c"
| "task_owns (Bind_connectDestroyed c) = Some c"
| "task_owns (Bind_writeComplete u c) = Some c"
| "task_owns (Bind_highWaterMark u c n) = Some c"
| "task_owns (Bind_removeConnectionInLoop c) = Some c"
| "task_owns _ = None"

end
