(* ===== verification/Posix.thy ===== *)
theory Posix
  imports Callbacks
begin

text \<open>
  The operating system as the program sees it. The kernel is not part of the repository, so it
  is a parameter: a record of functions over an unspecified kernel state \<^typ>\<open>'k\<close>, one field
  per system call, returning the call's result, the \<^verbatim>\<open>errno\<close> left behind and the new kernel
  state. What the program relies on is stated as named predicates over that record, each one
  the documented contract of one call; theorems that need a contract name it as a hypothesis.
\<close>

section \<open>Constants of the system headers\<close>

abbreviation EPOLLIN :: "32 word" where "EPOLLIN \<equiv> 1"
abbreviation EPOLLPRI :: "32 word" where "EPOLLPRI \<equiv> 2"
abbreviation EPOLLOUT :: "32 word" where "EPOLLOUT \<equiv> 4"
abbreviation EPOLLERR :: "32 word" where "EPOLLERR \<equiv> 8"
abbreviation EPOLLHUP :: "32 word" where "EPOLLHUP \<equiv> 16"

abbreviation EINTR :: errno where "EINTR \<equiv> 4"
abbreviation EWOULDBLOCK :: errno where "EWOULDBLOCK \<equiv> 11"
abbreviation EMFILE :: errno where "EMFILE \<equiv> 24"
abbreviation EPIPE :: errno where "EPIPE \<equiv> 32"
abbreviation ECONNRESET :: errno where "ECONNRESET \<equiv> 104"

section \<open>Data exchanged with the kernel\<close>

datatype ctl_op = EPOLL_CTL_ADD | EPOLL_CTL_MOD | EPOLL_CTL_DEL

text \<open>\<^verbatim>\<open>struct epoll_event\<close>: the event mask and the user data, of which the program uses the
  pointer member; a zeroed entry holds the null pointer.\<close>

record epoll_event =
  ev_events :: "32 word"
  ev_ptr :: "chan_ptr option"

record sockaddr_in =
  sin_family :: "16 word"
  sin_port :: "16 word"
  sin_addr :: "32 word"

datatype sock_option = TCP_NODELAY | SO_REUSEADDR | SO_REUSEPORT | SO_KEEPALIVE

section \<open>System calls\<close>

record 'k os =
  sys_epoll_create1 :: "'k \<Rightarrow> (fd \<times> errno) \<times> 'k"
  sys_epoll_ctl :: "fd \<Rightarrow> ctl_op \<Rightarrow> fd \<Rightarrow> epoll_event \<Rightarrow> 'k \<Rightarrow> (int \<times> errno) \<times> 'k"
  sys_epoll_wait :: "fd \<Rightarrow> int \<Rightarrow> int \<Rightarrow> 'k \<Rightarrow> (int \<times> errno \<times> epoll_event list) \<times> 'k"
  sys_eventfd :: "'k \<Rightarrow> (fd \<times> errno) \<times> 'k"
  sys_read :: "fd \<Rightarrow> size_t \<Rightarrow> 'k \<Rightarrow> (int \<times> errno) \<times> 'k"
  sys_readv :: "fd \<Rightarrow> size_t list \<Rightarrow> 'k \<Rightarrow> (int \<times> errno \<times> byte list) \<times> 'k"
  sys_write :: "fd \<Rightarrow> byte list \<Rightarrow> 'k \<Rightarrow> (int \<times> errno) \<times> 'k"
  sys_close :: "fd \<Rightarrow> 'k \<Rightarrow> 'k"
  sys_shutdown_wr :: "fd \<Rightarrow> 'k \<Rightarrow> int \<times> 'k"
  sys_so_error :: "fd \<Rightarrow> 'k \<Rightarrow> (int \<times> errno \<times> int) \<times> 'k"
  sys_setsockopt :: "fd \<Rightarrow> sock_option \<Rightarrow> int \<Rightarrow> 'k \<Rightarrow> 'k"
  sys_socket :: "'k \<Rightarrow> (fd \<times> errno) \<times> 'k"
  sys_bind :: "fd \<Rightarrow> sockaddr_in \<Rightarrow> 'k \<Rightarrow> int \<times> 'k"
  sys_listen :: "fd \<Rightarrow> int \<Rightarrow> 'k \<Rightarrow> int \<times> 'k"
  sys_accept4 :: "fd \<Rightarrow> 'k \<Rightarrow> (fd \<times> errno \<times> sockaddr_in) \<times> 'k"
  sys_getsockname :: "fd \<Rightarrow> 'k \<Rightarrow> (int \<times> sockaddr_in) \<times> 'k"
  sys_time :: "'k \<Rightarrow> int \<times> 'k"

section \<open>Documented contracts\<close>

text \<open>\<^verbatim>\<open>readv(2)\<close>: a negative result or a count; a count is at most the total length of the
  buffers, and that many bytes have been stored, filling the buffers in order.\<close>

definition readv_contract :: "'k os \<Rightarrow> bool" where
  "readv_contract os \<longleftrightarrow> (\<forall>f lens k n e d k'. sys_readv os f lens k = ((n, e, d), k') \<longrightarrow>
     0 \<le> n \<longrightarrow> length d = nat n \<and> nat n \<le> sum_list (map unat lens))"

text \<open>\<^verbatim>\<open>write(2)\<close> on a stream socket: a count is at most the length asked for, and the bytes
  counted, no others, have been appended to the stream that the peer will read. The stream of
  each descriptor is an observation \<^term>\<open>wire\<close> of the kernel state.\<close>

definition write_contract :: "'k os \<Rightarrow> ('k \<Rightarrow> fd \<Rightarrow> byte list) \<Rightarrow> bool" where
  "write_contract os wire \<longleftrightarrow> (\<forall>f bs k n e k'. sys_write os f bs k = ((n, e), k') \<longrightarrow>
     n \<le> int (length bs) \<and>
     (if 0 \<le> n then wire k' = (wire k)(f := wire k f @ take (nat n) bs) else wire k' = wire k))"

text \<open>\<^verbatim>\<open>epoll_ctl(2)\<close>: the interest list of an epoll descriptor is an observation
  \<^term>\<open>interest\<close> of the kernel state. A descriptor is added if it is absent, modified or
  deleted if it is present; otherwise the call fails and changes nothing.\<close>

definition epoll_ctl_contract ::
  "'k os \<Rightarrow> ('k \<Rightarrow> fd \<Rightarrow> fd \<rightharpoonup> epoll_event) \<Rightarrow> bool" where
  "epoll_ctl_contract os interest \<longleftrightarrow> (\<forall>ep opn f ev k r e k'.
     sys_epoll_ctl os ep opn f ev k = ((r, e), k') \<longrightarrow>
     (let present = (interest k ep f \<noteq> None);
          ok = (case opn of EPOLL_CTL_ADD \<Rightarrow> \<not> present | _ \<Rightarrow> present)
      in if ok
         then r = 0 \<and> interest k' = (interest k)(ep := (interest k ep)
                (f := (if opn = EPOLL_CTL_DEL then None else Some ev)))
         else r < 0 \<and> interest k' = interest k))"

text \<open>\<^verbatim>\<open>epoll_wait(2)\<close>: at most \<^verbatim>\<open>maxevents\<close> entries, as many as the result says, each carrying
  the user data of a registered descriptor.\<close>

definition epoll_wait_contract ::
  "'k os \<Rightarrow> ('k \<Rightarrow> fd \<Rightarrow> fd \<rightharpoonup> epoll_event) \<Rightarrow> bool" where
  "epoll_wait_contract os interest \<longleftrightarrow> (\<forall>ep m t k n e evs k'.
     sys_epoll_wait os ep m t k = ((n, e, evs), k') \<longrightarrow>
     interest k' = interest k \<and>
     (0 \<le> n \<longrightarrow> n \<le> m \<and> length evs = nat n \<and>
        (\<forall>ev \<in> set evs. \<exists>f reg. interest k ep f = Some reg \<and> ev_ptr ev = ev_ptr reg)))"

text \<open>Only \<^verbatim>\<open>write\<close> adds to the streams.\<close>

definition wire_frame :: "'k os \<Rightarrow> ('k \<Rightarrow> fd \<Rightarrow> byte list) \<Rightarrow> bool" where
  "wire_frame os wire \<longleftrightarrow>
     (\<forall>ep opn f ev k. wire (snd (sys_epoll_ctl os ep opn f ev k)) = wire k) \<and>
     (\<forall>f lens k. wire (snd (sys_readv os f lens k)) = wire k) \<and>
     (\<forall>f k. wire (snd (sys_shutdown_wr os f k)) = wire k) \<and>
     (\<forall>f k. wire (snd (sys_so_error os f k)) = wire k)"

section \<open>Descriptors\<close>

text \<open>Calls that neither open nor close a descriptor nor touch an interest list, for an observation of
  the kernel state.\<close>

definition quiet_calls :: "'k os \<Rightarrow> ('k \<Rightarrow> 'o) \<Rightarrow> bool" where
  "quiet_calls os obs \<longleftrightarrow>
     (\<forall>k. obs (snd (sys_time os k)) = obs k) \<and>
     (\<forall>f n k. obs (snd (sys_read os f n k)) = obs k) \<and>
     (\<forall>f lens k. obs (snd (sys_readv os f lens k)) = obs k) \<and>
     (\<forall>f bs k. obs (snd (sys_write os f bs k)) = obs k) \<and>
     (\<forall>f k. obs (snd (sys_shutdown_wr os f k)) = obs k) \<and>
     (\<forall>f k. obs (snd (sys_so_error os f k)) = obs k) \<and>
     (\<forall>f opt v k. obs (sys_setsockopt os f opt v k) = obs k) \<and>
     (\<forall>f a k. obs (snd (sys_bind os f a k)) = obs k) \<and>
     (\<forall>f n k. obs (snd (sys_listen os f n k)) = obs k) \<and>
     (\<forall>f k. obs (snd (sys_getsockname os f k)) = obs k)"

text \<open>A call that may open a descriptor: a result that is not negative was not open before and is
  open now; no interest list changes.\<close>

definition opens :: "('k \<Rightarrow> fd \<Rightarrow> fd \<rightharpoonup> epoll_event) \<Rightarrow> ('k \<Rightarrow> fd set) \<Rightarrow> fd \<Rightarrow> 'k \<Rightarrow> 'k \<Rightarrow> bool" where
  "opens interest opened f k k' \<longleftrightarrow> interest k' = interest k \<and>
     (if 0 \<le> f then f \<notin> opened k \<and> opened k' = insert f (opened k) else opened k' = opened k)"

text \<open>The open descriptors are an observation \<^term>\<open>opened\<close> of the kernel state. Closing a descriptor takes
  it out of every interest list.\<close>

definition descriptor_contract ::
  "'k os \<Rightarrow> ('k \<Rightarrow> fd \<Rightarrow> fd \<rightharpoonup> epoll_event) \<Rightarrow> ('k \<Rightarrow> fd set) \<Rightarrow> bool" where
  "descriptor_contract os interest opened \<longleftrightarrow>
     quiet_calls os (\<lambda>k. (interest k, opened k)) \<and>
     (\<forall>ep opn f ev k. opened (snd (sys_epoll_ctl os ep opn f ev k)) = opened k) \<and>
     (\<forall>ep m t k. opened (snd (sys_epoll_wait os ep m t k)) = opened k) \<and>
     (\<forall>f k. opens interest opened (fst (fst (sys_accept4 os f k))) k (snd (sys_accept4 os f k))) \<and>
     (\<forall>k. opens interest opened (fst (fst (sys_socket os k))) k (snd (sys_socket os k))) \<and>
     (\<forall>k. opens interest opened (fst (fst (sys_eventfd os k))) k (snd (sys_eventfd os k))) \<and>
     (\<forall>f k. opened (sys_close os f k) = opened k - {f} \<and>
        (\<forall>ep. ep \<noteq> f \<longrightarrow> interest (sys_close os f k) ep = (interest k ep)(f := None)))"

section \<open>Streams\<close>

text \<open>The bytes that \<^verbatim>\<open>readv\<close> has taken from a descriptor and those that \<^verbatim>\<open>write\<close> has put on it are observations
  \<^term>\<open>recv\<close> and \<^term>\<open>wire\<close> of the kernel state. Both are empty for a descriptor that \<^verbatim>\<open>accept4\<close> returns; \<^verbatim>\<open>read\<close> and \<^verbatim>\<open>close\<close>
  concern the streams of their own descriptor only, and the other calls no stream.\<close>

definition stream_contract ::
  "'k os \<Rightarrow> ('k \<Rightarrow> fd \<Rightarrow> byte list) \<Rightarrow> ('k \<Rightarrow> fd \<Rightarrow> byte list) \<Rightarrow> bool" where
  "stream_contract os wire recv \<longleftrightarrow> write_contract os wire \<and> (\<forall>f bs k. recv (snd (sys_write os f bs k)) = recv k) \<and>
     (\<forall>f lens k n e d k'. sys_readv os f lens k = ((n, e, d), k') \<longrightarrow> wire k' = wire k \<and>
        recv k' = (if 0 \<le> n then (recv k)(f := recv k f @ d) else recv k)) \<and>
     (\<forall>f k n e a k'. sys_accept4 os f k = ((n, e, a), k') \<longrightarrow>
        wire k' = (if 0 \<le> n then (wire k)(n := []) else wire k) \<and> recv k' = (if 0 \<le> n then (recv k)(n := []) else recv k)) \<and>
     (let obs = (\<lambda>k. (wire k, recv k)); at = (\<lambda>k g. (wire k g, recv k g)) in
        (\<forall>k. obs (snd (sys_time os k)) = obs k) \<and>
        (\<forall>f k. obs (snd (sys_shutdown_wr os f k)) = obs k) \<and>
        (\<forall>f k. obs (snd (sys_so_error os f k)) = obs k) \<and>
        (\<forall>f opt v k. obs (sys_setsockopt os f opt v k) = obs k) \<and>
        (\<forall>f n k. obs (snd (sys_listen os f n k)) = obs k) \<and>
        (\<forall>f k. obs (snd (sys_getsockname os f k)) = obs k) \<and>
        (\<forall>ep opn f ev k. obs (snd (sys_epoll_ctl os ep opn f ev k)) = obs k) \<and>
        (\<forall>ep m t k. obs (snd (sys_epoll_wait os ep m t k)) = obs k) \<and>
        (\<forall>f n k g. g \<noteq> f \<longrightarrow> at (snd (sys_read os f n k)) g = at k g) \<and>
        (\<forall>f k g. g \<noteq> f \<longrightarrow> at (sys_close os f k) g = at k g))"

section \<open>Event counters\<close>

text \<open>\<^verbatim>\<open>eventfd(2)\<close>: \<^verbatim>\<open>write\<close> adds an 8-byte integer to the counter of its descriptor, or leaves it as it is when the counter
  is at its maximum, so after a \<^verbatim>\<open>write\<close> of a number other than 0 the counter is positive; \<^verbatim>\<open>read\<close> and \<^verbatim>\<open>close\<close> concern the counter of
  their own descriptor only, and the other calls no counter. The counters are an observation \<^term>\<open>counter\<close> of the kernel state;
  what it says of a descriptor that is not an \<^verbatim>\<open>eventfd\<close> does not matter.\<close>

definition eventfd_contract :: "'k os \<Rightarrow> ('k \<Rightarrow> fd \<Rightarrow> nat) \<Rightarrow> bool" where
  "eventfd_contract os counter \<longleftrightarrow>
     (\<forall>f bs k. length bs = 8 \<and> (\<exists>b \<in> set bs. b \<noteq> 0) \<longrightarrow> 0 < counter (snd (sys_write os f bs k)) f) \<and>
     (\<forall>f bs k g. g \<noteq> f \<longrightarrow> counter (snd (sys_write os f bs k)) g = counter k g) \<and>
     (\<forall>f n k g. g \<noteq> f \<longrightarrow> counter (snd (sys_read os f n k)) g = counter k g) \<and>
     (\<forall>f k g. g \<noteq> f \<longrightarrow> counter (sys_close os f k) g = counter k g) \<and>
     (\<forall>f lens k. counter (snd (sys_readv os f lens k)) = counter k) \<and>
     (\<forall>k. counter (snd (sys_time os k)) = counter k) \<and>
     (\<forall>f k. counter (snd (sys_shutdown_wr os f k)) = counter k) \<and>
     (\<forall>f k. counter (snd (sys_so_error os f k)) = counter k) \<and>
     (\<forall>f opt v k. counter (sys_setsockopt os f opt v k) = counter k) \<and>
     (\<forall>f n k. counter (snd (sys_listen os f n k)) = counter k) \<and>
     (\<forall>f k. counter (snd (sys_getsockname os f k)) = counter k) \<and>
     (\<forall>f k n e a k' g. sys_accept4 os f k = ((n, e, a), k') \<longrightarrow> n < 0 \<or> g \<noteq> n \<longrightarrow> counter k' g = counter k g) \<and>
     (\<forall>ep opn f ev k. counter (snd (sys_epoll_ctl os ep opn f ev k)) = counter k) \<and>
     (\<forall>ep m t k. counter (snd (sys_epoll_wait os ep m t k)) = counter k)"

section \<open>Writes\<close>

text \<open>A kernel whose writes always take all they are given.\<close>

definition full_writes :: "'k os \<Rightarrow> bool" where
  "full_writes os \<longleftrightarrow> (\<forall>f bs k. fst (fst (sys_write os f bs k)) = int (length bs))"

end
