(* ===== verification/Sim_Kernel.thy ===== *)
theory Sim_Kernel
  imports Posix
begin

text \<open>
  A small executable kernel that keeps the contracts of \<open>Posix\<close>. It shows that the contracts
  can hold together and lets theorems be run on concrete inputs; no theorem about the program
  rests on it.
\<close>

record sim =
  sim_inbox :: "fd \<Rightarrow> byte list"
  sim_eof :: "fd \<Rightarrow> bool"
  sim_wire :: "fd \<Rightarrow> byte list"
  sim_recv :: "fd \<Rightarrow> byte list"
  sim_sndbuf :: nat
  sim_interest :: "fd \<Rightarrow> fd \<rightharpoonup> epoll_event"
  sim_ready :: "epoll_event list"
  sim_eventfd :: "fd \<Rightarrow> nat"
  sim_shut :: "fd list"
  sim_closed :: "fd list"
  sim_next_fd :: fd
  sim_peers :: "sockaddr_in list"
  sim_clock :: int

definition sim_init :: sim where
  "sim_init = \<lparr>sim_inbox = (\<lambda>_. []), sim_eof = (\<lambda>_. False), sim_wire = (\<lambda>_. []), sim_recv = (\<lambda>_. []), sim_sndbuf = 4,
     sim_interest = (\<lambda>_. Map.empty), sim_ready = [], sim_eventfd = (\<lambda>_. 0), sim_shut = [],
     sim_closed = [], sim_next_fd = 3, sim_peers = [], sim_clock = 0\<rparr>"

definition sim_new_fd :: "sim \<Rightarrow> (fd \<times> errno) \<times> sim" where
  "sim_new_fd k = ((sim_next_fd k, 0),
     k\<lparr>sim_next_fd := sim_next_fd k + 1, sim_closed := removeAll (sim_next_fd k) (sim_closed k)\<rparr>)"

definition sim_new_ep :: "sim \<Rightarrow> (fd \<times> errno) \<times> sim" where
  "sim_new_ep k = (let (r, k') = sim_new_fd k in (r, k'\<lparr>sim_interest := (sim_interest k)(sim_next_fd k := Map.empty)\<rparr>))"

definition sim_opened :: "sim \<Rightarrow> fd set" where
  "sim_opened k = {f. 0 \<le> f \<and> f < sim_next_fd k \<and> f \<notin> set (sim_closed k)}"

definition sim_readv :: "fd \<Rightarrow> size_t list \<Rightarrow> sim \<Rightarrow> (int \<times> errno \<times> byte list) \<times> sim" where
  "sim_readv f lens k =
     (let d = take (sum_list (map unat lens)) (sim_inbox k f) in
      if d = [] \<and> \<not> sim_eof k f then ((- 1, EWOULDBLOCK, []), k)
      else ((int (length d), 0, d), k\<lparr>sim_inbox := (sim_inbox k)(f := drop (length d) (sim_inbox k f)), sim_recv := (sim_recv k)(f := sim_recv k f @ d)\<rparr>))"

definition sim_write :: "fd \<Rightarrow> byte list \<Rightarrow> sim \<Rightarrow> (int \<times> errno) \<times> sim" where
  "sim_write f bs k =
     (let n = min (sim_sndbuf k) (length bs) in
      if n = 0 \<and> bs \<noteq> [] then ((- 1, EWOULDBLOCK), k)
      else ((int n, 0), k\<lparr>sim_wire := (sim_wire k)(f := sim_wire k f @ take n bs)\<rparr>))"

definition sim_ctl :: "fd \<Rightarrow> ctl_op \<Rightarrow> fd \<Rightarrow> epoll_event \<Rightarrow> sim \<Rightarrow> (int \<times> errno) \<times> sim" where
  "sim_ctl ep opn f ev k =
     (let present = (sim_interest k ep f \<noteq> None);
          ok = (case opn of EPOLL_CTL_ADD \<Rightarrow> \<not> present | _ \<Rightarrow> present)
      in if ok then ((0, 0), k\<lparr>sim_interest := (sim_interest k)(ep := (sim_interest k ep)
                (f := (if opn = EPOLL_CTL_DEL then None else Some ev)))\<rparr>)
         else ((- 1, if present then 17 else 2), k))"

definition sim_wait :: "fd \<Rightarrow> int \<Rightarrow> int \<Rightarrow> sim \<Rightarrow> (int \<times> errno \<times> epoll_event list) \<times> sim" where
  "sim_wait ep m t k =
     (let watched = (\<lambda>ev. ev_ptr ev \<noteq> None \<and> (\<exists>f \<in> {0..<sim_next_fd k}. map_option ev_ptr (sim_interest k ep f) = Some (ev_ptr ev)));
          evs = take (nat m) (filter watched (sim_ready k)) in
      if 0 < m then ((int (length evs), 0, evs), k) else ((- 1, EINTR, []), k))"

definition sim_os :: "sim os" where
  "sim_os = \<lparr>sys_epoll_create1 = sim_new_ep, sys_epoll_ctl = sim_ctl, sys_epoll_wait = sim_wait,
     sys_eventfd = sim_new_fd,
     sys_read = (\<lambda>f n k. ((8, 0), k\<lparr>sim_eventfd := (sim_eventfd k)(f := 0)\<rparr>)),
     sys_readv = sim_readv, sys_write = sim_write,
     sys_close = (\<lambda>f k. k\<lparr>sim_closed := f # sim_closed k, sim_interest := (\<lambda>ep. (sim_interest k ep)(f := None))\<rparr>),
     sys_shutdown_wr = (\<lambda>f k. (0, k\<lparr>sim_shut := f # sim_shut k\<rparr>)),
     sys_so_error = (\<lambda>f k. ((0, 0, 0), k)),
     sys_setsockopt = (\<lambda>f opt v k. k),
     sys_socket = sim_new_fd,
     sys_bind = (\<lambda>f a k. (0, k)),
     sys_listen = (\<lambda>f n k. (0, k)),
     sys_accept4 = (\<lambda>f k. case sim_peers k of
         [] \<Rightarrow> ((- 1, EWOULDBLOCK, \<lparr>sin_family = 0, sin_port = 0, sin_addr = 0\<rparr>), k)
       | a # as \<Rightarrow> (let ((f, e), k') = sim_new_fd k in ((f, 0, a), k'\<lparr>sim_peers := as, sim_wire := (\<lambda>g. if g = f \<and> 0 \<le> g then [] else sim_wire k g),
           sim_recv := (\<lambda>g. if g = f \<and> 0 \<le> g then [] else sim_recv k g)\<rparr>))),
     sys_getsockname = (\<lambda>f k. ((0, \<lparr>sin_family = 2, sin_port = 0, sin_addr = 0\<rparr>), k)),
     sys_time = (\<lambda>k. (sim_clock k, k))\<rparr>"

lemma sim_sys [simp]:
  "sys_epoll_create1 sim_os = sim_new_ep" "sys_epoll_ctl sim_os = sim_ctl"
  "sys_epoll_wait sim_os = sim_wait" "sys_readv sim_os = sim_readv" "sys_write sim_os = sim_write"
  "sys_time sim_os k = (sim_clock k, k)" "sys_eventfd sim_os = sim_new_fd"
  by (simp_all add: sim_os_def)

lemma sim_readv_contract: "readv_contract sim_os"
  by (auto simp: readv_contract_def sim_readv_def Let_def split: if_splits)

lemma sim_write_contract: "write_contract sim_os sim_wire"
  by (auto simp: write_contract_def sim_write_def Let_def split: if_splits)

lemma sim_epoll_ctl_contract: "epoll_ctl_contract sim_os sim_interest"
  by (auto simp: epoll_ctl_contract_def sim_ctl_def Let_def split: if_splits ctl_op.splits)

lemma sim_epoll_wait_contract: "epoll_wait_contract sim_os sim_interest"
  by (auto simp: epoll_wait_contract_def sim_wait_def Let_def min_def split: if_splits dest!: in_set_takeD) fastforce+

lemma sim_wire_frame: "wire_frame sim_os sim_wire"
  by (auto simp: wire_frame_def sim_os_def sim_readv_def sim_ctl_def Let_def)

lemma sim_quiet_calls: "quiet_calls sim_os (\<lambda>k. (sim_interest k, sim_opened k))"
  by (auto simp: quiet_calls_def sim_os_def sim_readv_def sim_write_def sim_opened_def Let_def)

lemma sim_quiet_interest: "quiet_calls sim_os sim_interest"
  by (auto simp: quiet_calls_def sim_os_def sim_readv_def sim_write_def Let_def)

lemma sim_opens_new: "opens sim_interest sim_opened (sim_next_fd k) k (snd (sim_new_fd k))"
  by (auto simp: opens_def sim_new_fd_def sim_opened_def)

lemma sim_opens_accept:
  "opens sim_interest sim_opened (fst (fst (sys_accept4 sim_os f k))) k (snd (sys_accept4 sim_os f k))"
  using sim_opens_new [of k]
  by (auto simp: sim_os_def sim_new_fd_def opens_def sim_opened_def split: list.split)

lemma sim_descriptor_contract: "descriptor_contract sim_os sim_interest sim_opened"
  unfolding descriptor_contract_def
  by (intro conjI allI sim_quiet_calls sim_opens_accept)
    (auto simp: sim_ctl_def sim_wait_def sim_opened_def sim_os_def sim_new_fd_def opens_def Let_def)

lemma sim_stream_contract: "stream_contract sim_os sim_wire sim_recv"
  unfolding stream_contract_def Let_def
  by (intro conjI sim_write_contract)
    (auto simp: sim_os_def sim_write_def sim_readv_def sim_ctl_def sim_wait_def sim_new_fd_def Let_def split: if_splits list.splits)

end
