(* ===== verification/Reactor.thy ===== *)
theory Reactor
  imports Sim_Kernel
begin

unbundle bit_operations_syntax

text \<open>
  The state of the reactor: the data members of \<^verbatim>\<open>Channel\<close>, \<^verbatim>\<open>Poller\<close>/\<^verbatim>\<open>EpollPoller\<close> and
  \<^verbatim>\<open>EventLoop\<close> as records, and a store that maps pointers to objects, since channels, pollers
  and loops refer to each other by pointer and update each other through them. The store also
  holds the kernel state, the id of the thread that executes, the \<^verbatim>\<open>LOG_ERROR\<close> lines written
  so far, the reference counts of the connections, the loop of each thread and the number of
  \<^verbatim>\<open>Thread\<close> objects created (\<^verbatim>\<open>Thread::numCreated_\<close>, an atomic \<^verbatim>\<open>int\<close>, which wraps).
  Later layers extend the record.
\<close>

section \<open>Records\<close>

record channel =
  ch_loop :: loop_ptr
  ch_fd :: fd
  ch_events :: "32 word"
  ch_revents :: "32 word"
  ch_index :: int
  ch_tie :: "conn_ptr option"
  ch_tied :: bool
  ch_readCallback :: "event_callback option"
  ch_writeCallback :: "event_callback option"
  ch_closeCallback :: "event_callback option"
  ch_errorCallback :: "event_callback option"

record poller =
  pl_epollfd :: fd
  pl_channels :: "fd \<rightharpoonup> chan_ptr"
  pl_events :: "epoll_event list"

record eventloop =
  el_looping :: bool
  el_quit :: bool
  el_threadId :: int
  el_pollReturnTime :: int
  el_poller :: poller
  el_wakeupFd :: fd
  el_activeChannels :: "chan_ptr list"
  el_callingPendingFunctors :: bool
  el_pendingFunctors :: "task list"

record 'k reactor =
  kern :: 'k
  cur_tid :: int
  errs :: "(string \<times> int) list"
  chan :: "chan_ptr \<Rightarrow> channel"
  loops :: "loop_ptr \<Rightarrow> eventloop"
  refs :: "conn_ptr \<Rightarrow> nat"
  t_loopInThisThread :: "int \<rightharpoonup> loop_ptr"
  numCreated :: "32 word"

section \<open>Logging and field updates\<close>

text \<open>\<^verbatim>\<open>LOG_ERROR\<close> with the literal part of its format and its integer argument (0 if none).
  \<^verbatim>\<open>LOG_INFO\<close> and \<^verbatim>\<open>LOG_DEBUG\<close> lines have no effect on the state and are left out.\<close>

definition LOG_ERROR :: "string \<Rightarrow> int \<Rightarrow> ('k, 'z) reactor_scheme \<Rightarrow> ('k, 'z) reactor_scheme" where
  "LOG_ERROR m n s = s\<lparr>errs := errs s @ [(m, n)]\<rparr>"

definition upd_chan ::
  "chan_ptr \<Rightarrow> (channel \<Rightarrow> channel) \<Rightarrow> ('k, 'z) reactor_scheme \<Rightarrow> ('k, 'z) reactor_scheme" where
  "upd_chan p f s = s\<lparr>chan := (chan s)(p := f (chan s p))\<rparr>"

definition upd_loop ::
  "loop_ptr \<Rightarrow> (eventloop \<Rightarrow> eventloop) \<Rightarrow> ('k, 'z) reactor_scheme \<Rightarrow> ('k, 'z) reactor_scheme" where
  "upd_loop l f s = s\<lparr>loops := (loops s)(l := f (loops s l))\<rparr>"

definition upd_poller ::
  "loop_ptr \<Rightarrow> (poller \<Rightarrow> poller) \<Rightarrow> ('k, 'z) reactor_scheme \<Rightarrow> ('k, 'z) reactor_scheme" where
  "upd_poller l f = upd_loop l (\<lambda>e. e\<lparr>el_poller := f (el_poller e)\<rparr>)"

lemma LOG_ERROR_sel [simp]:
  "kern (LOG_ERROR m n s) = kern s" "cur_tid (LOG_ERROR m n s) = cur_tid s"
  "chan (LOG_ERROR m n s) = chan s" "loops (LOG_ERROR m n s) = loops s"
  "refs (LOG_ERROR m n s) = refs s" "errs (LOG_ERROR m n s) = errs s @ [(m, n)]"
  "t_loopInThisThread (LOG_ERROR m n s) = t_loopInThisThread s"
  "reactor.more (LOG_ERROR m n s) = reactor.more s"
  by (simp_all add: LOG_ERROR_def)

lemma upd_chan_sel [simp]:
  "kern (upd_chan p f s) = kern s" "cur_tid (upd_chan p f s) = cur_tid s"
  "errs (upd_chan p f s) = errs s" "loops (upd_chan p f s) = loops s"
  "refs (upd_chan p f s) = refs s" "chan (upd_chan p f s) = (chan s)(p := f (chan s p))"
  "t_loopInThisThread (upd_chan p f s) = t_loopInThisThread s"
  "reactor.more (upd_chan p f s) = reactor.more s"
  by (simp_all add: upd_chan_def)

lemma upd_loop_sel [simp]:
  "kern (upd_loop l f s) = kern s" "cur_tid (upd_loop l f s) = cur_tid s"
  "errs (upd_loop l f s) = errs s" "chan (upd_loop l f s) = chan s"
  "refs (upd_loop l f s) = refs s" "loops (upd_loop l f s) = (loops s)(l := f (loops s l))"
  "t_loopInThisThread (upd_loop l f s) = t_loopInThisThread s"
  "reactor.more (upd_loop l f s) = reactor.more s"
  by (simp_all add: upd_loop_def)

lemma upd_poller_sel [simp]:
  "kern (upd_poller l f s) = kern s" "cur_tid (upd_poller l f s) = cur_tid s"
  "errs (upd_poller l f s) = errs s" "chan (upd_poller l f s) = chan s"
  "refs (upd_poller l f s) = refs s"
  "loops (upd_poller l f s) = (loops s)(l := (loops s l)\<lparr>el_poller := f (el_poller (loops s l))\<rparr>)"
  "t_loopInThisThread (upd_poller l f s) = t_loopInThisThread s"
  "reactor.more (upd_poller l f s) = reactor.more s"
  by (simp_all add: upd_poller_def)

section \<open>Shared ownership of connections\<close>

text \<open>
  \<^verbatim>\<open>std::shared_ptr<TcpConnection>\<close>: copying a pointer increments the count, destroying one
  decrements it, and the last one runs \<^verbatim>\<open>~TcpConnection\<close>, whose only effect beyond a log line
  is that its \<^verbatim>\<open>Socket\<close> member closes the descriptor (\<^verbatim>\<open>~Channel\<close> is empty).
\<close>

definition Socket_dtor :: "'k os \<Rightarrow> fd \<Rightarrow> ('k, 'z) reactor_scheme \<Rightarrow> ('k, 'z) reactor_scheme" where
  "Socket_dtor os f s = s\<lparr>kern := sys_close os f (kern s)\<rparr>"

definition TcpConnection_dtor ::
  "'k os \<Rightarrow> conn_ptr \<Rightarrow> ('k, 'z) reactor_scheme \<Rightarrow> ('k, 'z) reactor_scheme" where
  "TcpConnection_dtor os c s = Socket_dtor os (ch_fd (chan s (ConnChannel c))) s"

definition retain :: "conn_ptr \<Rightarrow> ('k, 'z) reactor_scheme \<Rightarrow> ('k, 'z) reactor_scheme" where
  "retain c s = s\<lparr>refs := (refs s)(c := Suc (refs s c))\<rparr>"

definition release :: "'k os \<Rightarrow> conn_ptr \<Rightarrow> ('k, 'z) reactor_scheme \<Rightarrow> ('k, 'z) reactor_scheme" where
  "release os c s =
     (let s1 = s\<lparr>refs := (refs s)(c := refs s c - 1)\<rparr>
      in if refs s1 c = 0 then TcpConnection_dtor os c s1 else s1)"

definition retain_task :: "task \<Rightarrow> ('k, 'z) reactor_scheme \<Rightarrow> ('k, 'z) reactor_scheme" where
  "retain_task t s = (case task_owns t of None \<Rightarrow> s | Some c \<Rightarrow> retain c s)"

definition release_task :: "'k os \<Rightarrow> task \<Rightarrow> ('k, 'z) reactor_scheme \<Rightarrow> ('k, 'z) reactor_scheme" where
  "release_task os t s = (case task_owns t of None \<Rightarrow> s | Some c \<Rightarrow> release os c s)"

lemma retain_sel [simp]:
  "kern (retain c s) = kern s" "cur_tid (retain c s) = cur_tid s" "errs (retain c s) = errs s"
  "chan (retain c s) = chan s" "loops (retain c s) = loops s"
  "refs (retain c s) = (refs s)(c := Suc (refs s c))"
  "t_loopInThisThread (retain c s) = t_loopInThisThread s"
  "reactor.more (retain c s) = reactor.more s"
  by (simp_all add: retain_def)

lemma release_sel [simp]:
  "cur_tid (release os c s) = cur_tid s" "errs (release os c s) = errs s"
  "chan (release os c s) = chan s" "loops (release os c s) = loops s"
  "refs (release os c s) = (refs s)(c := refs s c - 1)"
  "t_loopInThisThread (release os c s) = t_loopInThisThread s"
  "reactor.more (release os c s) = reactor.more s"
  by (simp_all add: release_def Let_def TcpConnection_dtor_def Socket_dtor_def)

lemma retain_task_sel [simp]:
  "kern (retain_task t s) = kern s" "cur_tid (retain_task t s) = cur_tid s"
  "errs (retain_task t s) = errs s" "chan (retain_task t s) = chan s"
  "loops (retain_task t s) = loops s" "t_loopInThisThread (retain_task t s) = t_loopInThisThread s"
  "reactor.more (retain_task t s) = reactor.more s"
  by (simp_all add: retain_task_def split: option.splits)

lemma release_task_sel [simp]:
  "cur_tid (release_task os t s) = cur_tid s" "errs (release_task os t s) = errs s"
  "chan (release_task os t s) = chan s" "loops (release_task os t s) = loops s"
  "t_loopInThisThread (release_task os t s) = t_loopInThisThread s"
  "reactor.more (release_task os t s) = reactor.more s"
  by (simp_all add: release_task_def split: option.splits)

end
