(* ===== verification/EpollPoller.thy ===== *)
theory EpollPoller
  imports Reactor
begin

unbundle bit_operations_syntax

text \<open>
  \<^verbatim>\<open>Poller.h\<close>, \<^verbatim>\<open>Poller.cpp\<close>, \<^verbatim>\<open>EpollPoller.h\<close>, \<^verbatim>\<open>EpollPoller.cpp\<close>: the poller of a loop keeps the
  map from descriptors to channels, and the state machine \<^verbatim>\<open>kNew -> kAdded -> kDeleted\<close> of each
  channel's \<^verbatim>\<open>index_\<close>, in step with the kernel's interest list. A method of the poller that
  loop \<^term>\<open>l\<close> owns takes \<^term>\<open>l\<close> and the channel's pointer.
\<close>

section \<open>Operations\<close>

definition kNew :: int where "kNew = - 1"
definition kAdded :: int where "kAdded = 1"
definition kDeleted :: int where "kDeleted = 2"

definition kNoneEvent :: "32 word" where "kNoneEvent = 0"

definition Channel_isNoneEvent :: "channel \<Rightarrow> bool" where
  "Channel_isNoneEvent c \<longleftrightarrow> ch_events c = kNoneEvent"

definition Channel_set_index ::
  "chan_ptr \<Rightarrow> int \<Rightarrow> ('k, 'z) reactor_scheme \<Rightarrow> ('k, 'z) reactor_scheme" where
  "Channel_set_index p idx = upd_chan p (\<lambda>c. c\<lparr>ch_index := idx\<rparr>)"

definition Channel_set_revents ::
  "chan_ptr \<Rightarrow> 32 word \<Rightarrow> ('k, 'z) reactor_scheme \<Rightarrow> ('k, 'z) reactor_scheme" where
  "Channel_set_revents p revt = upd_chan p (\<lambda>c. c\<lparr>ch_revents := revt\<rparr>)"

definition KIntEventListSize :: nat where "KIntEventListSize = 16"

definition null_event :: epoll_event where
  "null_event = \<lparr>ev_events = 0, ev_ptr = None\<rparr>"

text \<open>The constructor, from the result of \<^verbatim>\<open>epoll_create1\<close>.\<close>

definition EpollPoller_ctor :: "'k os \<Rightarrow> 'k \<Rightarrow> (poller \<times> 'k) result" where
  "EpollPoller_ctor os k =
     (let ((epfd, e), k') = sys_epoll_create1 os k in
      if epfd < 0 then Inl (FatalExit ''epoll_create error'')
      else Inr (\<lparr>pl_epollfd = epfd, pl_channels = Map.empty,
                 pl_events = replicate KIntEventListSize null_event\<rparr>, k'))"

definition EpollPoller_dtor :: "'k os \<Rightarrow> loop_ptr \<Rightarrow> ('k, 'z) reactor_scheme \<Rightarrow> ('k, 'z) reactor_scheme" where
  "EpollPoller_dtor os l s = s\<lparr>kern := sys_close os (pl_epollfd (el_poller (loops s l))) (kern s)\<rparr>"

definition Poller_hasChannel :: "loop_ptr \<Rightarrow> chan_ptr \<Rightarrow> ('k, 'z) reactor_scheme \<Rightarrow> bool" where
  "Poller_hasChannel l p s =
     (case pl_channels (el_poller (loops s l)) (ch_fd (chan s p)) of
        None \<Rightarrow> False
      | Some q \<Rightarrow> q = p)"

definition EpollPoller_update ::
  "'k os \<Rightarrow> loop_ptr \<Rightarrow> ctl_op \<Rightarrow> chan_ptr \<Rightarrow> ('k, 'z) reactor_scheme \<Rightarrow> ('k, 'z) reactor_scheme" where
  "EpollPoller_update os l operation p s =
     (let ch = chan s p;
          event = \<lparr>ev_events = ch_events ch, ev_ptr = Some p\<rparr>;
          ((r, e), k') = sys_epoll_ctl os (pl_epollfd (el_poller (loops s l))) operation (ch_fd ch) event (kern s);
          s1 = s\<lparr>kern := k'\<rparr>
      in if r < 0 then
           (if operation = EPOLL_CTL_DEL then LOG_ERROR ''epoll_ctl del error'' e s1
            else LOG_ERROR ''epoll_ctl add/mod error'' e s1)
         else s1)"

definition EpollPoller_updateChannel ::
  "'k os \<Rightarrow> loop_ptr \<Rightarrow> chan_ptr \<Rightarrow> ('k, 'z) reactor_scheme \<Rightarrow> ('k, 'z) reactor_scheme" where
  "EpollPoller_updateChannel os l p s =
     (let index = ch_index (chan s p) in
      if index = kNew \<or> index = kDeleted then
        (let s1 = (if index = kNew
                   then upd_poller l (\<lambda>q. q\<lparr>pl_channels := (pl_channels q)(ch_fd (chan s p) \<mapsto> p)\<rparr>) s
                   else s)
         in EpollPoller_update os l EPOLL_CTL_ADD p (Channel_set_index p kAdded s1))
      else if Channel_isNoneEvent (chan s p) then
        Channel_set_index p kDeleted (EpollPoller_update os l EPOLL_CTL_DEL p s)
      else EpollPoller_update os l EPOLL_CTL_MOD p s)"

definition EpollPoller_removeChannel ::
  "'k os \<Rightarrow> loop_ptr \<Rightarrow> chan_ptr \<Rightarrow> ('k, 'z) reactor_scheme \<Rightarrow> ('k, 'z) reactor_scheme" where
  "EpollPoller_removeChannel os l p s =
     (let s1 = upd_poller l (\<lambda>q. q\<lparr>pl_channels := (pl_channels q)(ch_fd (chan s p) := None)\<rparr>) s;
          index = ch_index (chan s1 p);
          s2 = (if index = kAdded then EpollPoller_update os l EPOLL_CTL_DEL p s1 else s1)
      in Channel_set_index p kNew s2)"

text \<open>\<^verbatim>\<open>fillActiveChannels\<close>: the entries filled in by the kernel, in order; the channel pointer is
  dereferenced. The active list is an output parameter of \<^verbatim>\<open>poll\<close>.\<close>

fun fill_entries ::
  "epoll_event list \<Rightarrow> chan_ptr list \<Rightarrow> ('k, 'z) reactor_scheme \<Rightarrow> (chan_ptr list \<times> ('k, 'z) reactor_scheme) result" where
  "fill_entries [] active s = Inr (active, s)"
| "fill_entries (ev # evs) active s =
     (case ev_ptr ev of
        None \<Rightarrow> Inl NullPointer
      | Some p \<Rightarrow> fill_entries evs (active @ [p]) (Channel_set_revents p (ev_events ev) s))"

definition EpollPoller_fillActiveChannels ::
  "loop_ptr \<Rightarrow> int \<Rightarrow> chan_ptr list \<Rightarrow> ('k, 'z) reactor_scheme \<Rightarrow> (chan_ptr list \<times> ('k, 'z) reactor_scheme) result" where
  "EpollPoller_fillActiveChannels l numEvents active s =
     (let evs = pl_events (el_poller (loops s l)) in
      if nat numEvents \<le> length evs then fill_entries (take (nat numEvents) evs) active s
      else Inl OutOfBounds)"

text \<open>\<^verbatim>\<open>static_cast<int>\<close> of a vector's size.\<close>

definition size_as_int :: "nat \<Rightarrow> int" where
  "size_as_int n = sint (of_nat n :: 32 word)"

text \<open>\<^verbatim>\<open>poll\<close>: the time stamp, the active channels appended to \<^term>\<open>active\<close>, the new state. The
  kernel writes the entries it reports to the front of the event array.\<close>

definition EpollPoller_poll ::
  "'k os \<Rightarrow> loop_ptr \<Rightarrow> int \<Rightarrow> chan_ptr list \<Rightarrow> ('k, 'z) reactor_scheme \<Rightarrow>
     (int \<times> chan_ptr list \<times> ('k, 'z) reactor_scheme) result" where
  "EpollPoller_poll os l timeoutMs active s =
     (let pl = el_poller (loops s l);
          ((numEvents, saveErrno, evs), k1) =
             sys_epoll_wait os (pl_epollfd pl) (size_as_int (length (pl_events pl))) timeoutMs (kern s);
          (now, k2) = sys_time os k1;
          s1 = s\<lparr>kern := k2\<rparr>
      in if numEvents > 0 then
           (let s2 = upd_poller l (\<lambda>q. q\<lparr>pl_events := blit 0 evs (pl_events q)\<rparr>) s1 in
            and_then (EpollPoller_fillActiveChannels l numEvents active s2) (\<lambda>(active', s3).
              Inr (now, active',
                if nat numEvents = length (pl_events (el_poller (loops s3 l)))
                then upd_poller l (\<lambda>q. q\<lparr>pl_events := vector_resize (length (pl_events q) * 2) null_event (pl_events q)\<rparr>) s3
                else s3)))
         else if numEvents = 0 then Inr (now, active, s1)
         else if saveErrno \<noteq> EINTR then Inr (now, active, LOG_ERROR ''EPollPoller::poll() error!'' 0 s1)
         else Inr (now, active, s1))"

section \<open>The registry invariant\<close>

text \<open>
  For the poller of loop \<^term>\<open>l\<close>: the kernel watches a descriptor exactly when the map has a
  channel for it whose \<^verbatim>\<open>index_\<close> is \<^verbatim>\<open>kAdded\<close>, with that channel's current mask and pointer;
  the map holds a channel of this loop under its own descriptor; a channel that is not
  \<^verbatim>\<open>kNew\<close> is in the map.
\<close>

definition watched :: "poller \<Rightarrow> (chan_ptr \<Rightarrow> channel) \<Rightarrow> fd \<rightharpoonup> epoll_event" where
  "watched pl ch f = (case pl_channels pl f of
      None \<Rightarrow> None
    | Some p \<Rightarrow> if ch_index (ch p) = kAdded then Some \<lparr>ev_events = ch_events (ch p), ev_ptr = Some p\<rparr>
                else None)"

definition map_ok :: "loop_ptr \<Rightarrow> ('k, 'z) reactor_scheme \<Rightarrow> bool" where
  "map_ok l s \<longleftrightarrow>
     (\<forall>f p. pl_channels (el_poller (loops s l)) f = Some p \<longrightarrow>
        ch_fd (chan s p) = f \<and> ch_loop (chan s p) = l \<and> ch_index (chan s p) \<in> {kAdded, kDeleted}) \<and>
     (\<forall>p. ch_loop (chan s p) = l \<longrightarrow> ch_index (chan s p) \<noteq> kNew \<longrightarrow>
        pl_channels (el_poller (loops s l)) (ch_fd (chan s p)) = Some p)"

definition registry_ok ::
  "('k \<Rightarrow> fd \<Rightarrow> fd \<rightharpoonup> epoll_event) \<Rightarrow> loop_ptr \<Rightarrow> ('k, 'z) reactor_scheme \<Rightarrow> bool" where
  "registry_ok interest l s \<longleftrightarrow> map_ok l s \<and>
     interest (kern s) (pl_epollfd (el_poller (loops s l))) = watched (el_poller (loops s l)) (chan s)"

text \<open>A channel may be handed to the poller if it belongs to the loop and, when it is new, no
  other channel holds its descriptor.\<close>

definition registrable :: "loop_ptr \<Rightarrow> chan_ptr \<Rightarrow> ('k, 'z) reactor_scheme \<Rightarrow> bool" where
  "registrable l p s \<longleftrightarrow> ch_loop (chan s p) = l \<and>
     (ch_index (chan s p) = kNew \<longrightarrow> pl_channels (el_poller (loops s l)) (ch_fd (chan s p)) = None)"

lemmas index_consts = kNew_def kAdded_def kDeleted_def

text \<open>The invariant with the mask of channel \<^term>\<open>p\<close> not yet passed on: what holds between
  \<^verbatim>\<open>events_ |= ...\<close> and \<^verbatim>\<open>update()\<close>.\<close>

definition registry_upto ::
  "('k \<Rightarrow> fd \<Rightarrow> fd \<rightharpoonup> epoll_event) \<Rightarrow> loop_ptr \<Rightarrow> chan_ptr \<Rightarrow> ('k, 'z) reactor_scheme \<Rightarrow> bool" where
  "registry_upto interest l p s \<longleftrightarrow> map_ok l s \<and>
     (let i = interest (kern s) (pl_epollfd (el_poller (loops s l)));
          w = watched (el_poller (loops s l)) (chan s)
      in (\<forall>f. f \<noteq> ch_fd (chan s p) \<longrightarrow> i f = w f) \<and>
         (i (ch_fd (chan s p)) = None \<longleftrightarrow> w (ch_fd (chan s p)) = None))"

lemma map_okD:
  "map_ok l s \<Longrightarrow> pl_channels (el_poller (loops s l)) f = Some p \<Longrightarrow>
     ch_fd (chan s p) = f \<and> ch_loop (chan s p) = l \<and> ch_index (chan s p) \<in> {kAdded, kDeleted}"
  "map_ok l s \<Longrightarrow> ch_loop (chan s p) = l \<Longrightarrow> ch_index (chan s p) \<noteq> kNew \<Longrightarrow>
     pl_channels (el_poller (loops s l)) (ch_fd (chan s p)) = Some p"
  by (simp_all add: map_ok_def)

lemma index_cases:
  assumes "map_ok l s" and "ch_loop (chan s p) = l"
  obtains "ch_index (chan s p) = kNew" | "ch_index (chan s p) = kAdded" | "ch_index (chan s p) = kDeleted"
  using map_okD [OF assms(1)] assms(2) by blast

lemma index_distinct [simp]: "kNew \<noteq> kAdded" "kNew \<noteq> kDeleted" "kAdded \<noteq> kDeleted"
  "kAdded \<noteq> kNew" "kDeleted \<noteq> kNew" "kDeleted \<noteq> kAdded"
  by (simp_all add: index_consts)

lemma set_index_sel [simp]:
  "kern (Channel_set_index p i s) = kern s" "cur_tid (Channel_set_index p i s) = cur_tid s"
  "errs (Channel_set_index p i s) = errs s" "loops (Channel_set_index p i s) = loops s"
  "refs (Channel_set_index p i s) = refs s"
  "t_loopInThisThread (Channel_set_index p i s) = t_loopInThisThread s"
  "chan (Channel_set_index p i s) = (chan s)(p := (chan s p)\<lparr>ch_index := i\<rparr>)"
  "reactor.more (Channel_set_index p i s) = reactor.more s"
  by (simp_all add: Channel_set_index_def)

lemma watched_None_events:
  "watched pl (ch(p := (ch p)\<lparr>ch_events := e\<rparr>)) f = None \<longleftrightarrow> watched pl ch f = None"
  by (simp add: watched_def split: option.splits)

lemma registry_upto_events:
  assumes "registry_ok interest l s" and "registrable l p s"
  shows "registry_upto interest l p (upd_chan p (\<lambda>c. c\<lparr>ch_events := e\<rparr>) s)"
    and "registrable l p (upd_chan p (\<lambda>c. c\<lparr>ch_events := e\<rparr>) s)"
proof -
  have m: "map_ok l s" using assms by (simp add: registry_ok_def)
  then have "map_ok l (upd_chan p (\<lambda>c. c\<lparr>ch_events := e\<rparr>) s)" by (auto simp: map_ok_def)
  moreover have "f \<noteq> ch_fd (chan s p) \<Longrightarrow>
      watched (el_poller (loops s l)) ((chan s)(p := (chan s p)\<lparr>ch_events := e\<rparr>)) f =
      watched (el_poller (loops s l)) (chan s) f" for f
    using map_okD(1) [OF m, of f] by (auto simp: watched_def split: option.splits)
  ultimately show "registry_upto interest l p (upd_chan p (\<lambda>c. c\<lparr>ch_events := e\<rparr>) s)"
    using assms(1)
    by (simp add: registry_upto_def registry_ok_def Let_def watched_None_events)
  show "registrable l p (upd_chan p (\<lambda>c. c\<lparr>ch_events := e\<rparr>) s)"
    using assms(2) by (simp add: registrable_def)
qed

text \<open>One \<^verbatim>\<open>epoll_ctl\<close> changes the kernel and the log only; if its precondition holds it
  succeeds, logs nothing and changes the entry of the channel's descriptor only.\<close>

lemma EpollPoller_update_sel [simp]:
  "cur_tid (EpollPoller_update os l opn p s) = cur_tid s"
  "chan (EpollPoller_update os l opn p s) = chan s"
  "loops (EpollPoller_update os l opn p s) = loops s"
  "refs (EpollPoller_update os l opn p s) = refs s"
  "t_loopInThisThread (EpollPoller_update os l opn p s) = t_loopInThisThread s"
  "reactor.more (EpollPoller_update os l opn p s) = reactor.more s"
  by (simp_all add: EpollPoller_update_def Let_def split: prod.splits)

lemma EpollPoller_update_effect:
  assumes "epoll_ctl_contract os interest"
    and "pl_epollfd (el_poller (loops s l)) = ep" and "ch_fd (chan s p) = f"
    and "(interest (kern s) ep f = None) \<longleftrightarrow> opn = EPOLL_CTL_ADD"
  shows "interest (kern (EpollPoller_update os l opn p s)) = (interest (kern s))(ep :=
      (interest (kern s) ep)(f := (if opn = EPOLL_CTL_DEL then None
         else Some \<lparr>ev_events = ch_events (chan s p), ev_ptr = Some p\<rparr>)))"
    and "errs (EpollPoller_update os l opn p s) = errs s"
proof -
  obtain r e k' where c: "sys_epoll_ctl os ep opn f
      \<lparr>ev_events = ch_events (chan s p), ev_ptr = Some p\<rparr> (kern s) = ((r, e), k')"
    by (metis surj_pair)
  have ok: "case opn of EPOLL_CTL_ADD \<Rightarrow> interest (kern s) ep f = None
      | _ \<Rightarrow> interest (kern s) ep f \<noteq> None"
    using assms(4) by (cases opn) auto
  have "r = 0 \<and> interest k' = (interest (kern s))(ep :=
      (interest (kern s) ep)(f := (if opn = EPOLL_CTL_DEL then None
         else Some \<lparr>ev_events = ch_events (chan s p), ev_ptr = Some p\<rparr>)))"
    using assms(1) [unfolded epoll_ctl_contract_def Let_def, rule_format, OF c] ok
    by (cases opn) auto
  with c assms(2,3)
  show "interest (kern (EpollPoller_update os l opn p s)) = (interest (kern s))(ep :=
      (interest (kern s) ep)(f := (if opn = EPOLL_CTL_DEL then None
         else Some \<lparr>ev_events = ch_events (chan s p), ev_ptr = Some p\<rparr>)))"
    and "errs (EpollPoller_update os l opn p s) = errs s"
    by (simp_all add: EpollPoller_update_def)
qed

text \<open>Every branch of \<^verbatim>\<open>updateChannel\<close> and \<^verbatim>\<open>removeChannel\<close> moves one channel to a new index
  and brings its map entry and its kernel entry in line with that index.\<close>

lemma map_move:
  assumes m: "map_ok l s" and lp: "ch_loop (chan s p) = l"
    and free: "pl_channels (el_poller (loops s l)) (ch_fd (chan s p)) \<in> {None, Some p}"
    and i: "i \<in> {kNew, kAdded, kDeleted}"
    and chan': "chan s' = (chan s)(p := (chan s p)\<lparr>ch_index := i\<rparr>)"
    and map': "pl_channels (el_poller (loops s' l)) = (pl_channels (el_poller (loops s l)))
        (ch_fd (chan s p) := (if i = kNew then None else Some p))"
  shows "map_ok l s'"
proof -
  let ?pl = "el_poller (loops s l)" and ?f = "ch_fd (chan s p)"
  have q: "pl_channels ?pl f = Some q \<Longrightarrow> f \<noteq> ?f \<Longrightarrow> q \<noteq> p" for f q
    using map_okD(1) [OF m] by blast
  have A: "ch_fd (chan s' r) = f \<and> ch_loop (chan s' r) = l \<and> ch_index (chan s' r) \<in> {kAdded, kDeleted}"
    if "pl_channels (el_poller (loops s' l)) f = Some r" for f r
  proof (cases "f = ?f")
    case True
    with that i lp show ?thesis by (auto simp: map' chan' split: if_splits)
  next
    case False
    with that have "pl_channels ?pl f = Some r" by (simp add: map')
    with map_okD(1) [OF m this] q [OF this False] show ?thesis by (simp add: chan')
  qed
  have B: "pl_channels (el_poller (loops s' l)) (ch_fd (chan s' r)) = Some r"
    if "ch_loop (chan s' r) = l" "ch_index (chan s' r) \<noteq> kNew" for r
  proof (cases "r = p")
    case True
    with that show ?thesis by (simp add: map' chan')
  next
    case False
    with that map_okD(2) [OF m, of r] have "pl_channels ?pl (ch_fd (chan s r)) = Some r"
      by (simp add: chan')
    with False free show ?thesis by (auto simp: map' chan')
  qed
  show ?thesis unfolding map_ok_def using A B by blast
qed

lemma registry_move:
  assumes up: "registry_upto interest l p s" and lp: "ch_loop (chan s p) = l"
    and free: "pl_channels (el_poller (loops s l)) (ch_fd (chan s p)) \<in> {None, Some p}"
    and i: "i \<in> {kNew, kAdded, kDeleted}"
    and chan': "chan s' = (chan s)(p := (chan s p)\<lparr>ch_index := i\<rparr>)"
    and map': "pl_channels (el_poller (loops s' l)) = (pl_channels (el_poller (loops s l)))
        (ch_fd (chan s p) := (if i = kNew then None else Some p))"
    and ep': "pl_epollfd (el_poller (loops s' l)) = pl_epollfd (el_poller (loops s l))"
    and int': "interest (kern s') (pl_epollfd (el_poller (loops s l))) =
      (interest (kern s) (pl_epollfd (el_poller (loops s l))))(ch_fd (chan s p) :=
        (if i = kAdded then Some \<lparr>ev_events = ch_events (chan s p), ev_ptr = Some p\<rparr> else None))"
  shows "registry_ok interest l s'"
proof -
  let ?pl = "el_poller (loops s l)" and ?f = "ch_fd (chan s p)"
  have m: "map_ok l s" using up by (simp add: registry_upto_def)
  have q: "pl_channels ?pl f = Some q \<Longrightarrow> f \<noteq> ?f \<Longrightarrow> q \<noteq> p" for f q
    using map_okD(1) [OF m] by blast
  have "interest (kern s') (pl_epollfd ?pl) f = watched (el_poller (loops s' l)) (chan s') f" for f
  proof (cases "f = ?f")
    case True
    then show ?thesis by (simp add: int' watched_def map' chan')
  next
    case False
    then have "interest (kern s') (pl_epollfd ?pl) f = watched ?pl (chan s) f"
      using up by (simp add: registry_upto_def Let_def int')
    with False q show ?thesis by (auto simp: watched_def map' chan' split: option.splits)
  qed
  with map_move [OF m lp free i chan' map'] show ?thesis
    by (simp add: registry_ok_def ep' fun_eq_iff)
qed

lemma registry_ok_upto: "registry_ok interest l s \<Longrightarrow> registry_upto interest l p s"
  by (simp add: registry_ok_def registry_upto_def)

lemma updateChannel_registry:
  assumes ct: "epoll_ctl_contract os interest" and up: "registry_upto interest l p s"
    and reg: "registrable l p s"
  shows "registry_ok interest l (EpollPoller_updateChannel os l p s)"
    and "errs (EpollPoller_updateChannel os l p s) = errs s"
proof -
  let ?pl = "el_poller (loops s l)" and ?f = "ch_fd (chan s p)"
  let ?s' = "EpollPoller_updateChannel os l p s"
  have m: "map_ok l s" and lp: "ch_loop (chan s p) = l"
    using up reg by (simp_all add: registry_upto_def registrable_def)
  have here: "interest (kern s) (pl_epollfd ?pl) ?f = None \<longleftrightarrow> watched ?pl (chan s) ?f = None"
    using up by (simp add: registry_upto_def Let_def)
  have "registry_ok interest l ?s' \<and> errs ?s' = errs s"
  proof (rule index_cases [OF m lp])
    assume n: "ch_index (chan s p) = kNew"
    then have none: "pl_channels ?pl ?f = None" using reg by (simp add: registrable_def)
    then have "interest (kern s) (pl_epollfd ?pl) ?f = None" using here by (simp add: watched_def)
    with n none show ?thesis
      by (auto simp: EpollPoller_updateChannel_def EpollPoller_update_effect [OF ct]
          intro!: registry_move [OF up lp, of kAdded])
  next
    assume n: "ch_index (chan s p) = kDeleted"
    then have some: "pl_channels ?pl ?f = Some p" using map_okD(2) [OF m lp] by simp
    with here n have "interest (kern s) (pl_epollfd ?pl) ?f = None" by (simp add: watched_def)
    with n some show ?thesis
      by (auto simp: EpollPoller_updateChannel_def EpollPoller_update_effect [OF ct]
          intro!: registry_move [OF up lp, of kAdded])
  next
    assume n: "ch_index (chan s p) = kAdded"
    then have some: "pl_channels ?pl ?f = Some p" using map_okD(2) [OF m lp] by simp
    with here n have pres: "interest (kern s) (pl_epollfd ?pl) ?f \<noteq> None" by (simp add: watched_def)
    show ?thesis
    proof (cases "Channel_isNoneEvent (chan s p)")
      case True
      with n some pres show ?thesis
        by (auto simp: EpollPoller_updateChannel_def EpollPoller_update_effect [OF ct]
            intro!: registry_move [OF up lp, of kDeleted])
    next
      case False
      with n some pres show ?thesis
        by (auto simp: EpollPoller_updateChannel_def EpollPoller_update_effect [OF ct]
            intro!: registry_move [OF up lp, of kAdded])
    qed
  qed
  then show "registry_ok interest l ?s'" and "errs ?s' = errs s" by auto
qed

lemma removeChannel_registry:
  assumes ct: "epoll_ctl_contract os interest" and ok: "registry_ok interest l s"
    and reg: "registrable l p s"
  shows "registry_ok interest l (EpollPoller_removeChannel os l p s)"
    and "errs (EpollPoller_removeChannel os l p s) = errs s"
proof -
  let ?pl = "el_poller (loops s l)" and ?f = "ch_fd (chan s p)"
  let ?s' = "EpollPoller_removeChannel os l p s"
  have m: "map_ok l s" and lp: "ch_loop (chan s p) = l"
    using ok reg by (simp_all add: registry_ok_def registrable_def)
  have here: "interest (kern s) (pl_epollfd ?pl) ?f = watched ?pl (chan s) ?f"
    using ok by (simp add: registry_ok_def)
  have "registry_ok interest l ?s' \<and> errs ?s' = errs s"
  proof (rule index_cases [OF m lp])
    assume n: "ch_index (chan s p) = kAdded"
    then have some: "pl_channels ?pl ?f = Some p" using map_okD(2) [OF m lp] by simp
    with here n have "interest (kern s) (pl_epollfd ?pl) ?f \<noteq> None" by (simp add: watched_def)
    with n some show ?thesis
      by (auto simp: EpollPoller_removeChannel_def EpollPoller_update_effect [OF ct]
          intro!: registry_move [OF registry_ok_upto [OF ok] lp, of kNew])
  next
    assume n: "ch_index (chan s p) = kNew"
    then have none: "pl_channels ?pl ?f = None" using reg by (simp add: registrable_def)
    with here have "interest (kern s) (pl_epollfd ?pl) ?f = None" by (simp add: watched_def)
    with n none show ?thesis
      by (auto simp: EpollPoller_removeChannel_def fun_upd_idem
          intro!: registry_move [OF registry_ok_upto [OF ok] lp, of kNew])
  next
    assume n: "ch_index (chan s p) = kDeleted"
    then have some: "pl_channels ?pl ?f = Some p" using map_okD(2) [OF m lp] by simp
    with here n have "interest (kern s) (pl_epollfd ?pl) ?f = None" by (simp add: watched_def)
    with n some show ?thesis
      by (auto simp: EpollPoller_removeChannel_def fun_upd_idem
          intro!: registry_move [OF registry_ok_upto [OF ok] lp, of kNew])
  qed
  then show "registry_ok interest l ?s'" and "errs ?s' = errs s" by auto
qed

section \<open>The poller interface\<close>

text \<open>
  \<^verbatim>\<open>class Poller\<close> is an abstract base class; \<^verbatim>\<open>EventLoop\<close> and \<^verbatim>\<open>Channel\<close> use it through
  \<^verbatim>\<open>updateChannel\<close>, \<^verbatim>\<open>removeChannel\<close> and \<^verbatim>\<open>hasChannel\<close>. The locale states what they rely on,
  with the outcome of a history of calls for one channel as the client's lemma: the channel is
  present exactly when the last call was an update.
\<close>

locale event_poller =
  fixes ok :: "'s \<Rightarrow> bool"
    and may :: "'p \<Rightarrow> 's \<Rightarrow> bool"
    and has :: "'p \<Rightarrow> 's \<Rightarrow> bool"
    and update :: "'p \<Rightarrow> 's \<Rightarrow> 's"
    and remove :: "'p \<Rightarrow> 's \<Rightarrow> 's"
  assumes update: "ok s \<Longrightarrow> may p s \<Longrightarrow> ok (update p s) \<and> may p (update p s) \<and> has p (update p s)"
    and remove: "ok s \<Longrightarrow> may p s \<Longrightarrow> ok (remove p s) \<and> may p (remove p s) \<and> \<not> has p (remove p s)"
    and frame: "ok s \<Longrightarrow> may p s \<Longrightarrow> q \<noteq> p \<Longrightarrow> has q (update p s) = has q s \<and> has q (remove p s) = has q s"
begin

lemma history_ok:
  "ok s \<Longrightarrow> may p s \<Longrightarrow> ok (fold (\<lambda>u. if u then update p else remove p) us s) \<and>
     may p (fold (\<lambda>u. if u then update p else remove p) us s)"
  by (induction us arbitrary: s) (simp_all add: update remove)

lemma last_call_decides:
  assumes "ok s" and "may p s"
  shows "has p (fold (\<lambda>u. if u then update p else remove p) (us @ [u]) s) = u"
  using history_ok [OF assms, of us] by (simp add: update remove)

lemma history_frame:
  assumes "ok s" and "may p s" and "q \<noteq> p"
  shows "has q (fold (\<lambda>u. if u then update p else remove p) us s) = has q s"
  using assms by (induction us arbitrary: s) (simp_all add: update remove frame)

end

lemma updateChannel_chan:
  "chan (EpollPoller_updateChannel os l p s) = (chan s)(p := (chan s p)\<lparr>ch_index :=
     (if ch_index (chan s p) = kNew \<or> ch_index (chan s p) = kDeleted then kAdded
      else if Channel_isNoneEvent (chan s p) then kDeleted else ch_index (chan s p))\<rparr>)"
  by (simp add: EpollPoller_updateChannel_def Let_def)

lemma updateChannel_loops:
  "loops (EpollPoller_updateChannel os l p s) =
     (if ch_index (chan s p) = kNew
      then (loops s)(l := (loops s l)\<lparr>el_poller := (el_poller (loops s l))\<lparr>pl_channels :=
        (pl_channels (el_poller (loops s l)))(ch_fd (chan s p) \<mapsto> p)\<rparr>\<rparr>)
      else loops s)"
  by (simp add: EpollPoller_updateChannel_def Let_def)

lemma removeChannel_chan:
  "chan (EpollPoller_removeChannel os l p s) = (chan s)(p := (chan s p)\<lparr>ch_index := kNew\<rparr>)"
  by (simp add: EpollPoller_removeChannel_def Let_def)

lemma removeChannel_loops:
  "loops (EpollPoller_removeChannel os l p s) =
     (loops s)(l := (loops s l)\<lparr>el_poller := (el_poller (loops s l))\<lparr>pl_channels :=
        (pl_channels (el_poller (loops s l)))(ch_fd (chan s p) := None)\<rparr>\<rparr>)"
  by (simp add: EpollPoller_removeChannel_def Let_def)

lemmas poller_effects =
  updateChannel_chan updateChannel_loops removeChannel_chan removeChannel_loops

lemma registrable_slot:
  "map_ok l s \<Longrightarrow> registrable l p s \<Longrightarrow>
     pl_channels (el_poller (loops s l)) (ch_fd (chan s p)) \<in> {None, Some p}"
  using map_okD(2) by (fastforce simp: registrable_def)

lemma updateChannel_map:
  assumes m: "map_ok l s" and r: "registrable l p s"
  shows "map_ok l (EpollPoller_updateChannel os l p s)"
    and "pl_channels (el_poller (loops (EpollPoller_updateChannel os l p s) l)) =
      (pl_channels (el_poller (loops s l)))(ch_fd (chan s p) \<mapsto> p)"
proof -
  have lp: "ch_loop (chan s p) = l" using r by (simp add: registrable_def)
  show eq: "pl_channels (el_poller (loops (EpollPoller_updateChannel os l p s) l)) =
      (pl_channels (el_poller (loops s l)))(ch_fd (chan s p) \<mapsto> p)"
    using map_okD(2) [OF m lp] by (auto simp: updateChannel_loops fun_upd_idem)
  have "(if ch_index (chan s p) = kNew \<or> ch_index (chan s p) = kDeleted then kAdded
      else if Channel_isNoneEvent (chan s p) then kDeleted else ch_index (chan s p)) \<in> {kAdded, kDeleted}"
    by (rule index_cases [OF m lp]) simp_all
  then show "map_ok l (EpollPoller_updateChannel os l p s)"
    by (intro map_move [OF m lp registrable_slot [OF m r] _ updateChannel_chan]) (auto simp: eq)
qed

lemma removeChannel_map:
  assumes m: "map_ok l s" and r: "registrable l p s"
  shows "map_ok l (EpollPoller_removeChannel os l p s)"
  using r by (intro map_move [OF m _ registrable_slot [OF m r] _ removeChannel_chan])
    (simp_all add: registrable_def removeChannel_loops)

lemma hasChannel_other:
  assumes m: "map_ok l s" and r: "registrable l p s" and q: "q \<noteq> p"
  shows "Poller_hasChannel l q (EpollPoller_updateChannel os l p s) = Poller_hasChannel l q s"
    and "Poller_hasChannel l q (EpollPoller_removeChannel os l p s) = Poller_hasChannel l q s"
  using registrable_slot [OF m r] q
  by (auto simp: Poller_hasChannel_def updateChannel_map(2) [OF m r] updateChannel_chan
      removeChannel_chan removeChannel_loops)

interpretation epoll: event_poller
    "map_ok l :: ('k, 'z) reactor_scheme \<Rightarrow> bool" "registrable l" "Poller_hasChannel l"
    "EpollPoller_updateChannel os l" "EpollPoller_removeChannel os l" for os :: "'k os" and l
proof
  fix s :: "('k, 'z) reactor_scheme" and p
  assume m: "map_ok l s" and r: "registrable l p s"
  show "map_ok l (EpollPoller_updateChannel os l p s) \<and> registrable l p (EpollPoller_updateChannel os l p s) \<and>
      Poller_hasChannel l p (EpollPoller_updateChannel os l p s)"
    using updateChannel_map [OF m r] r
    by (auto simp: registrable_def Poller_hasChannel_def updateChannel_chan)
  show "map_ok l (EpollPoller_removeChannel os l p s) \<and> registrable l p (EpollPoller_removeChannel os l p s) \<and>
      \<not> Poller_hasChannel l p (EpollPoller_removeChannel os l p s)"
    using removeChannel_map [OF m r] r
    by (auto simp: registrable_def Poller_hasChannel_def poller_effects)
  fix q assume "q \<noteq> p"
  with hasChannel_other [OF m r] show "Poller_hasChannel l q (EpollPoller_updateChannel os l p s) = Poller_hasChannel l q s \<and>
      Poller_hasChannel l q (EpollPoller_removeChannel os l p s) = Poller_hasChannel l q s" by simp
qed

section \<open>Polling\<close>

text \<open>The invariant reads only descriptor, loop, index and mask of the channels.\<close>

lemma registry_ok_cong:
  assumes "\<And>p. ch_fd (chan s' p) = ch_fd (chan s p)" "\<And>p. ch_loop (chan s' p) = ch_loop (chan s p)"
    "\<And>p. ch_index (chan s' p) = ch_index (chan s p)" "\<And>p. ch_events (chan s' p) = ch_events (chan s p)"
    "pl_channels (el_poller (loops s' l)) = pl_channels (el_poller (loops s l))"
    "pl_epollfd (el_poller (loops s' l)) = pl_epollfd (el_poller (loops s l))"
    "interest (kern s') = interest (kern s)"
  shows "registry_ok interest l s' = registry_ok interest l s"
proof -
  have "watched (el_poller (loops s' l)) (chan s') = watched (el_poller (loops s l)) (chan s)"
    by (intro ext) (simp add: watched_def assms split: option.splits)
  then show ?thesis by (simp add: registry_ok_def map_ok_def assms)
qed

lemma set_revents_sel [simp]:
  "kern (Channel_set_revents p v s) = kern s" "loops (Channel_set_revents p v s) = loops s"
  "errs (Channel_set_revents p v s) = errs s" "refs (Channel_set_revents p v s) = refs s"
  "cur_tid (Channel_set_revents p v s) = cur_tid s"
  "chan (Channel_set_revents p v s) = (chan s)(p := (chan s p)\<lparr>ch_revents := v\<rparr>)"
  by (simp_all add: Channel_set_revents_def)

lemma same_revents [simp]: "\<exists>v. c = c\<lparr>ch_revents := v\<rparr>"
  by (rule exI [of _ "ch_revents c"]) simp

lemma fill_entries_spec:
  assumes "\<forall>ev \<in> set evs. ev_ptr ev \<noteq> None"
  shows "\<exists>s'. fill_entries evs active s = Inr (active @ map (the \<circ> ev_ptr) evs, s') \<and>
    kern s' = kern s \<and> loops s' = loops s \<and> errs s' = errs s \<and>
    (\<forall>p. \<exists>v. chan s' p = (chan s p)\<lparr>ch_revents := v\<rparr>)"
  using assms
proof (induction evs arbitrary: active s)
  case Nil
  then show ?case by simp
next
  case (Cons ev evs)
  then obtain p where p: "ev_ptr ev = Some p" by auto
  let ?s = "Channel_set_revents p (ev_events ev) s"
  obtain s' where s': "fill_entries evs (active @ [p]) ?s = Inr ((active @ [p]) @ map (the \<circ> ev_ptr) evs, s')"
      "kern s' = kern ?s" "loops s' = loops ?s" "errs s' = errs ?s"
      "\<forall>q. \<exists>v. chan s' q = (chan ?s q)\<lparr>ch_revents := v\<rparr>"
    using Cons.IH [of "active @ [p]" ?s] Cons.prems by auto
  have "\<exists>v. chan s' q = (chan s q)\<lparr>ch_revents := v\<rparr>" for q
    using s'(5) [rule_format, of q] by (cases "q = p") auto
  with s' p show ?case by auto
qed

text \<open>\<^verbatim>\<open>fillActiveChannels\<close> stays inside the event array and never meets a null pointer when the
  array starts with the entries of the kernel.\<close>

lemma fillActiveChannels_spec:
  assumes "pl_events (el_poller (loops s l)) = blit 0 evs old" and "length evs = nat n"
    and "nat n \<le> length old" and "\<forall>ev \<in> set evs. ev_ptr ev \<noteq> None"
  shows "EpollPoller_fillActiveChannels l n active s = fill_entries evs active s"
  using assms by (simp add: EpollPoller_fillActiveChannels_def blit_def)

lemma size_as_int_small: "n < 2 ^ 31 \<Longrightarrow> size_as_int n = int n"
  by (simp add: size_as_int_def signed_of_nat signed_take_bit_eq_if_positive
      bit_iff_odd take_bit_int_eq_self)

text \<open>Where the cast wraps around, the kernel is offered less than the array has room for.\<close>

lemma size_as_int_le: "size_as_int n \<le> int n"
proof -
  have "take_bit 32 (uint w) = uint w" for w :: "32 word"
    using uint_bounded [of w] by (simp add: take_bit_int_eq_self)
  then have "sint w \<le> uint w" for w :: "32 word"
    by (auto simp: sint_uint signed_take_bit_eq_take_bit_minus)
  then have "size_as_int n \<le> uint (of_nat n :: 32 word)" unfolding size_as_int_def by blast
  also have "\<dots> \<le> int n" by (simp add: unsigned_of_nat take_bit_int_def of_nat_mod zmod_le_nonneg_dividend)
  finally show ?thesis .
qed

text \<open>A descriptor the kernel reports belongs to a channel that the poller has.\<close>

lemma reported_registered:
  assumes "registry_ok interest l s"
    and "interest (kern s) (pl_epollfd (el_poller (loops s l))) f = Some reg"
  shows "\<exists>p. ev_ptr reg = Some p \<and> Poller_hasChannel l p s \<and> ch_loop (chan s p) = l \<and>
    ch_index (chan s p) = kAdded"
  using assms by (fastforce simp: registry_ok_def watched_def Poller_hasChannel_def map_ok_def
      split: option.splits if_splits)

text \<open>What one poll keeps: the result of \<^verbatim>\<open>epoll_wait\<close> and \<^verbatim>\<open>Timestamp::now\<close> leave the registry
  alone, and of the channels only \<^verbatim>\<open>revents_\<close> changes.\<close>

definition poll_keeps ::
  "('k \<Rightarrow> fd \<Rightarrow> fd \<rightharpoonup> epoll_event) \<Rightarrow> loop_ptr \<Rightarrow> ('k, 'z) reactor_scheme \<Rightarrow> ('k, 'z) reactor_scheme \<Rightarrow> bool" where
  "poll_keeps interest l s s' \<longleftrightarrow> registry_ok interest l s' \<and>
     (\<forall>p. \<exists>v. chan s' p = (chan s p)\<lparr>ch_revents := v\<rparr>)"

lemma poll_keepsI:
  assumes "registry_ok interest l s" and "\<forall>p. \<exists>v. chan s' p = (chan s p)\<lparr>ch_revents := v\<rparr>"
    and "pl_channels (el_poller (loops s' l)) = pl_channels (el_poller (loops s l))"
    and "pl_epollfd (el_poller (loops s' l)) = pl_epollfd (el_poller (loops s l))"
    and "interest (kern s') = interest (kern s)"
  shows "poll_keeps interest l s s'"
proof -
  have "ch_fd (chan s' p) = ch_fd (chan s p)" "ch_loop (chan s' p) = ch_loop (chan s p)"
    "ch_index (chan s' p) = ch_index (chan s p)" "ch_events (chan s' p) = ch_events (chan s p)" for p
    using assms(2) [rule_format, of p] by auto
  then have "registry_ok interest l s' = registry_ok interest l s"
    using assms(3-5) by (rule registry_ok_cong)
  with assms(1,2) show ?thesis by (simp add: poll_keeps_def)
qed

lemma poll_idle:
  assumes ok: "registry_ok interest l s" and n: "n \<le> 0" and k2: "interest k2 = interest (kern s)"
    and w: "sys_epoll_wait os (pl_epollfd (el_poller (loops s l)))
      (size_as_int (length (pl_events (el_poller (loops s l))))) t (kern s) = ((n, e, evs), k1)"
    and tm: "sys_time os k1 = (now, k2)"
  shows "\<exists>s'. EpollPoller_poll os l t active s = Inr (now, active, s') \<and> poll_keeps interest l s s' \<and>
    loops s' = loops s"
  using assms by (auto simp: EpollPoller_poll_def Let_def intro!: poll_keepsI)

lemma poll_ready:
  assumes ok: "registry_ok interest l s" and n: "0 < n" and k2: "interest k2 = interest (kern s)"
    and w: "sys_epoll_wait os (pl_epollfd (el_poller (loops s l)))
      (size_as_int (length (pl_events (el_poller (loops s l))))) t (kern s) = ((n, e, evs), k1)"
    and tm: "sys_time os k1 = (now, k2)"
    and len: "length evs = nat n" "nat n \<le> length (pl_events (el_poller (loops s l)))"
    and ptr: "\<forall>ev \<in> set evs. ev_ptr ev \<noteq> None"
  shows "\<exists>s'. EpollPoller_poll os l t active s = Inr (now, active @ map (the \<circ> ev_ptr) evs, s') \<and>
    poll_keeps interest l s s' \<and>
    length (pl_events (el_poller (loops s' l))) =
      (if nat n = length (pl_events (el_poller (loops s l))) then 2 * nat n
       else length (pl_events (el_poller (loops s l))))"
proof -
  let ?pl = "el_poller (loops s l)"
  let ?s2 = "upd_poller l (\<lambda>q. q\<lparr>pl_events := blit 0 evs (pl_events q)\<rparr>) (s\<lparr>kern := k2\<rparr>)"
  obtain s3 where s3: "fill_entries evs active ?s2 = Inr (active @ map (the \<circ> ev_ptr) evs, s3)"
      "kern s3 = k2" "loops s3 = loops ?s2" "\<forall>p. \<exists>v. chan s3 p = (chan s p)\<lparr>ch_revents := v\<rparr>"
    using fill_entries_spec [OF ptr, of active ?s2] by auto
  let ?s' = "if nat n = length (pl_events ?pl)
    then upd_poller l (\<lambda>q. q\<lparr>pl_events := vector_resize (length (pl_events q) * 2) null_event (pl_events q)\<rparr>) s3
    else s3"
  have "EpollPoller_fillActiveChannels l n active ?s2 = fill_entries evs active ?s2"
    using len ptr by (intro fillActiveChannels_spec) auto
  then have "EpollPoller_poll os l t active s = Inr (now, active @ map (the \<circ> ev_ptr) evs, ?s')"
    using n w tm s3 len by (simp add: EpollPoller_poll_def Let_def)
  moreover have "poll_keeps interest l s ?s'"
    using ok s3 k2 by (intro poll_keepsI) auto
  ultimately show ?thesis using s3 len by auto
qed

lemma EpollPoller_poll_spec:
  assumes ok: "registry_ok interest l s" and ct: "epoll_wait_contract os interest"
    and fr: "\<forall>k. interest (snd (sys_time os k)) = interest k"
  shows "\<exists>now ps s'. EpollPoller_poll os l t active s = Inr (now, active @ ps, s') \<and>
    poll_keeps interest l s s' \<and>
    (\<forall>p \<in> set ps. Poller_hasChannel l p s \<and> ch_loop (chan s p) = l \<and> ch_index (chan s p) = kAdded) \<and>
    length ps \<le> length (pl_events (el_poller (loops s l))) \<and>
    length (pl_events (el_poller (loops s' l))) =
      (if ps \<noteq> [] \<and> length ps = length (pl_events (el_poller (loops s l)))
       then 2 * length ps else length (pl_events (el_poller (loops s l))))"
proof -
  let ?pl = "el_poller (loops s l)"
  obtain n e evs k1 where w: "sys_epoll_wait os (pl_epollfd ?pl)
      (size_as_int (length (pl_events ?pl))) t (kern s) = ((n, e, evs), k1)"
    by (metis prod_cases3 surj_pair)
  obtain now k2 where tm: "sys_time os k1 = (now, k2)" by fastforce
  have k1: "interest k1 = interest (kern s)"
    and evs: "0 \<le> n \<Longrightarrow> nat n \<le> length (pl_events ?pl) \<and> length evs = nat n \<and>
      (\<forall>ev \<in> set evs. \<exists>f reg. interest (kern s) (pl_epollfd ?pl) f = Some reg \<and> ev_ptr ev = ev_ptr reg)"
    using ct [unfolded epoll_wait_contract_def, rule_format, OF w] size_as_int_le [of "length (pl_events ?pl)"] by auto
  have k2: "interest k2 = interest (kern s)"
    using fr tm k1 by (metis snd_conv)
  show ?thesis
  proof (cases "n > 0")
    case False
    with poll_idle [OF ok _ k2 w tm] show ?thesis by force
  next
    case True
    have reg: "\<exists>p. ev_ptr ev = Some p \<and> Poller_hasChannel l p s \<and> ch_loop (chan s p) = l \<and>
        ch_index (chan s p) = kAdded" if "ev \<in> set evs" for ev
      using that evs True reported_registered [OF ok] by fastforce
    then have ptr: "\<forall>ev \<in> set evs. ev_ptr ev \<noteq> None" by fastforce
    have "\<forall>p \<in> set (map (the \<circ> ev_ptr) evs).
        Poller_hasChannel l p s \<and> ch_loop (chan s p) = l \<and> ch_index (chan s p) = kAdded"
      using reg by fastforce
    moreover have "evs \<noteq> []" using evs True by auto
    ultimately show ?thesis
      using poll_ready [OF ok True k2 w tm _ _ ptr, of active] evs True by fastforce
  qed
qed

end
