(* ===== verification/Channel.thy ===== *)
theory Channel
  imports EpollPoller
begin

unbundle bit_operations_syntax

text \<open>
  \<^verbatim>\<open>Channel.h\<close>, \<^verbatim>\<open>Channel.cpp\<close> and the three forwarding methods of \<^verbatim>\<open>EventLoop\<close> through which a
  channel reaches the poller of its loop. A channel keeps the mask of events of interest and
  passes every change on; when the loop reports events it calls the registered callbacks,
  holding the owner alive for the duration if it is tied to one.
\<close>

section \<open>Forwarding\<close>

definition EventLoop_updateChannel ::
  "'k os \<Rightarrow> loop_ptr \<Rightarrow> chan_ptr \<Rightarrow> ('k, 'z) reactor_scheme \<Rightarrow> ('k, 'z) reactor_scheme" where
  "EventLoop_updateChannel os l p s = EpollPoller_updateChannel os l p s"

definition EventLoop_removeChannel ::
  "'k os \<Rightarrow> loop_ptr \<Rightarrow> chan_ptr \<Rightarrow> ('k, 'z) reactor_scheme \<Rightarrow> ('k, 'z) reactor_scheme" where
  "EventLoop_removeChannel os l p s = EpollPoller_removeChannel os l p s"

definition EventLoop_hasChannel :: "loop_ptr \<Rightarrow> chan_ptr \<Rightarrow> ('k, 'z) reactor_scheme \<Rightarrow> bool" where
  "EventLoop_hasChannel l p s = Poller_hasChannel l p s"

section \<open>Operations\<close>

definition kReadEvent :: "32 word" where "kReadEvent = EPOLLIN OR EPOLLPRI"
definition kWriteEvent :: "32 word" where "kWriteEvent = EPOLLOUT"

definition Channel_ctor :: "loop_ptr \<Rightarrow> fd \<Rightarrow> channel" where
  "Channel_ctor l f = \<lparr>ch_loop = l, ch_fd = f, ch_events = 0, ch_revents = 0, ch_index = - 1,
     ch_tie = None, ch_tied = False, ch_readCallback = None, ch_writeCallback = None,
     ch_closeCallback = None, ch_errorCallback = None\<rparr>"

definition Channel_setReadCallback ::
  "chan_ptr \<Rightarrow> event_callback \<Rightarrow> ('k, 'z) reactor_scheme \<Rightarrow> ('k, 'z) reactor_scheme" where
  "Channel_setReadCallback p cb = upd_chan p (\<lambda>c. c\<lparr>ch_readCallback := Some cb\<rparr>)"

definition Channel_setWriteCallback ::
  "chan_ptr \<Rightarrow> event_callback \<Rightarrow> ('k, 'z) reactor_scheme \<Rightarrow> ('k, 'z) reactor_scheme" where
  "Channel_setWriteCallback p cb = upd_chan p (\<lambda>c. c\<lparr>ch_writeCallback := Some cb\<rparr>)"

definition Channel_setCloseCallback ::
  "chan_ptr \<Rightarrow> event_callback \<Rightarrow> ('k, 'z) reactor_scheme \<Rightarrow> ('k, 'z) reactor_scheme" where
  "Channel_setCloseCallback p cb = upd_chan p (\<lambda>c. c\<lparr>ch_closeCallback := Some cb\<rparr>)"

definition Channel_setErrorCallback ::
  "chan_ptr \<Rightarrow> event_callback \<Rightarrow> ('k, 'z) reactor_scheme \<Rightarrow> ('k, 'z) reactor_scheme" where
  "Channel_setErrorCallback p cb = upd_chan p (\<lambda>c. c\<lparr>ch_errorCallback := Some cb\<rparr>)"

definition Channel_tie ::
  "chan_ptr \<Rightarrow> conn_ptr \<Rightarrow> ('k, 'z) reactor_scheme \<Rightarrow> ('k, 'z) reactor_scheme" where
  "Channel_tie p c = upd_chan p (\<lambda>ch. ch\<lparr>ch_tie := Some c, ch_tied := True\<rparr>)"

definition Channel_update ::
  "'k os \<Rightarrow> chan_ptr \<Rightarrow> ('k, 'z) reactor_scheme \<Rightarrow> ('k, 'z) reactor_scheme" where
  "Channel_update os p s = EventLoop_updateChannel os (ch_loop (chan s p)) p s"

definition Channel_remove ::
  "'k os \<Rightarrow> chan_ptr \<Rightarrow> ('k, 'z) reactor_scheme \<Rightarrow> ('k, 'z) reactor_scheme" where
  "Channel_remove os p s = EventLoop_removeChannel os (ch_loop (chan s p)) p s"

definition Channel_set_events ::
  "(32 word \<Rightarrow> 32 word) \<Rightarrow> chan_ptr \<Rightarrow> ('k, 'z) reactor_scheme \<Rightarrow> ('k, 'z) reactor_scheme" where
  "Channel_set_events g p s = upd_chan p (\<lambda>c. c\<lparr>ch_events := g (ch_events (chan s p))\<rparr>) s"

definition Channel_enableReading ::
  "'k os \<Rightarrow> chan_ptr \<Rightarrow> ('k, 'z) reactor_scheme \<Rightarrow> ('k, 'z) reactor_scheme" where
  "Channel_enableReading os p s = Channel_update os p (Channel_set_events (\<lambda>e. e OR kReadEvent) p s)"

definition Channel_disableReading ::
  "'k os \<Rightarrow> chan_ptr \<Rightarrow> ('k, 'z) reactor_scheme \<Rightarrow> ('k, 'z) reactor_scheme" where
  "Channel_disableReading os p s = Channel_update os p (Channel_set_events (\<lambda>e. e AND NOT kReadEvent) p s)"

definition Channel_enableWriting ::
  "'k os \<Rightarrow> chan_ptr \<Rightarrow> ('k, 'z) reactor_scheme \<Rightarrow> ('k, 'z) reactor_scheme" where
  "Channel_enableWriting os p s = Channel_update os p (Channel_set_events (\<lambda>e. e OR kWriteEvent) p s)"

definition Channel_disableWriting ::
  "'k os \<Rightarrow> chan_ptr \<Rightarrow> ('k, 'z) reactor_scheme \<Rightarrow> ('k, 'z) reactor_scheme" where
  "Channel_disableWriting os p s = Channel_update os p (Channel_set_events (\<lambda>e. e AND NOT kWriteEvent) p s)"

definition Channel_disbaleAll ::
  "'k os \<Rightarrow> chan_ptr \<Rightarrow> ('k, 'z) reactor_scheme \<Rightarrow> ('k, 'z) reactor_scheme" where
  "Channel_disbaleAll os p s = Channel_update os p (Channel_set_events (\<lambda>e. e AND NOT kNoneEvent) p s)"

definition Channel_isWriting :: "channel \<Rightarrow> bool" where
  "Channel_isWriting c \<longleftrightarrow> ch_events c AND kWriteEvent \<noteq> 0"

definition Channel_isReading :: "channel \<Rightarrow> bool" where
  "Channel_isReading c \<longleftrightarrow> ch_events c AND kReadEvent \<noteq> 0"

text \<open>Calling a stored \<^verbatim>\<open>std::function\<close> is the parameter \<^term>\<open>run\<close>; only the read callback uses
  the time stamp. Each test reads \<^verbatim>\<open>revents_\<close> and the callback from the state as the earlier
  callbacks left it.\<close>

definition call_if_set ::
  "(event_callback \<Rightarrow> int \<Rightarrow> 's \<Rightarrow> 's result) \<Rightarrow> event_callback option \<Rightarrow> int \<Rightarrow> 's \<Rightarrow> 's result" where
  "call_if_set run cb t s = (case cb of None \<Rightarrow> Inr s | Some f \<Rightarrow> run f t s)"

definition Channel_handleEventWithGuard ::
  "(event_callback \<Rightarrow> int \<Rightarrow> ('k, 'z) reactor_scheme \<Rightarrow> ('k, 'z) reactor_scheme result) \<Rightarrow> int \<Rightarrow>
     chan_ptr \<Rightarrow> ('k, 'z) reactor_scheme \<Rightarrow> ('k, 'z) reactor_scheme result" where
  "Channel_handleEventWithGuard run t p s =
     and_then (if ch_revents (chan s p) AND EPOLLHUP \<noteq> 0 \<and> ch_revents (chan s p) AND EPOLLIN = 0
               then call_if_set run (ch_closeCallback (chan s p)) t s else Inr s) (\<lambda>s.
     and_then (if ch_revents (chan s p) AND EPOLLERR \<noteq> 0
               then call_if_set run (ch_errorCallback (chan s p)) t s else Inr s) (\<lambda>s.
     and_then (if ch_revents (chan s p) AND (EPOLLIN OR EPOLLPRI) \<noteq> 0
               then call_if_set run (ch_readCallback (chan s p)) t s else Inr s) (\<lambda>s.
     if ch_revents (chan s p) AND EPOLLOUT \<noteq> 0
     then call_if_set run (ch_writeCallback (chan s p)) t s else Inr s)))"

definition Channel_handleEvent ::
  "'k os \<Rightarrow> (event_callback \<Rightarrow> int \<Rightarrow> ('k, 'z) reactor_scheme \<Rightarrow> ('k, 'z) reactor_scheme result) \<Rightarrow> int \<Rightarrow>
     chan_ptr \<Rightarrow> ('k, 'z) reactor_scheme \<Rightarrow> ('k, 'z) reactor_scheme result" where
  "Channel_handleEvent os run t p s =
     (if ch_tied (chan s p) then
        (case ch_tie (chan s p) of
           None \<Rightarrow> Inr s
         | Some c \<Rightarrow>
             if refs s c = 0 then Inr s
             else and_then (Channel_handleEventWithGuard run t p (retain c s)) (\<lambda>s. Inr (release os c s)))
      else Channel_handleEventWithGuard run t p s)"

section \<open>Interest changes keep the registry\<close>

lemma Channel_set_events_sel [simp]:
  "kern (Channel_set_events g p s) = kern s" "loops (Channel_set_events g p s) = loops s"
  "errs (Channel_set_events g p s) = errs s" "refs (Channel_set_events g p s) = refs s"
  "cur_tid (Channel_set_events g p s) = cur_tid s"
  "chan (Channel_set_events g p s) = (chan s)(p := (chan s p)\<lparr>ch_events := g (ch_events (chan s p))\<rparr>)"
  by (simp_all add: Channel_set_events_def)

lemma Channel_set_events_more [simp]: "reactor.more (Channel_set_events g p s) = reactor.more s"
  "t_loopInThisThread (Channel_set_events g p s) = t_loopInThisThread s"
  by (simp_all add: Channel_set_events_def)

text \<open>\<^verbatim>\<open>update\<close> and \<^verbatim>\<open>remove\<close> touch the \<^verbatim>\<open>index_\<close> of the channel, the map of its poller, the kernel
  and the log, and nothing else.\<close>

lemma Channel_update_sel [simp]:
  "cur_tid (Channel_update os p s) = cur_tid s" "refs (Channel_update os p s) = refs s"
  "t_loopInThisThread (Channel_update os p s) = t_loopInThisThread s"
  "reactor.more (Channel_update os p s) = reactor.more s"
  by (simp_all add: Channel_update_def EventLoop_updateChannel_def EpollPoller_updateChannel_def Let_def)

lemma Channel_remove_sel [simp]:
  "cur_tid (Channel_remove os p s) = cur_tid s" "refs (Channel_remove os p s) = refs s"
  "t_loopInThisThread (Channel_remove os p s) = t_loopInThisThread s"
  "reactor.more (Channel_remove os p s) = reactor.more s"
  by (simp_all add: Channel_remove_def EventLoop_removeChannel_def EpollPoller_removeChannel_def Let_def)

lemma Channel_update_chan [simp]:
  "ch_fd (chan (Channel_update os p s) q) = ch_fd (chan s q)"
  "ch_loop (chan (Channel_update os p s) q) = ch_loop (chan s q)"
  "ch_events (chan (Channel_update os p s) q) = ch_events (chan s q)"
  "ch_revents (chan (Channel_update os p s) q) = ch_revents (chan s q)"
  "ch_tie (chan (Channel_update os p s) q) = ch_tie (chan s q)"
  "ch_tied (chan (Channel_update os p s) q) = ch_tied (chan s q)"
  "ch_readCallback (chan (Channel_update os p s) q) = ch_readCallback (chan s q)"
  "ch_writeCallback (chan (Channel_update os p s) q) = ch_writeCallback (chan s q)"
  "ch_closeCallback (chan (Channel_update os p s) q) = ch_closeCallback (chan s q)"
  "ch_errorCallback (chan (Channel_update os p s) q) = ch_errorCallback (chan s q)"
  by (simp_all add: Channel_update_def EventLoop_updateChannel_def updateChannel_chan)

lemma Channel_remove_chan [simp]:
  "ch_fd (chan (Channel_remove os p s) q) = ch_fd (chan s q)"
  "ch_loop (chan (Channel_remove os p s) q) = ch_loop (chan s q)"
  "ch_events (chan (Channel_remove os p s) q) = ch_events (chan s q)"
  "ch_revents (chan (Channel_remove os p s) q) = ch_revents (chan s q)"
  "ch_tie (chan (Channel_remove os p s) q) = ch_tie (chan s q)"
  "ch_tied (chan (Channel_remove os p s) q) = ch_tied (chan s q)"
  "ch_readCallback (chan (Channel_remove os p s) q) = ch_readCallback (chan s q)"
  "ch_writeCallback (chan (Channel_remove os p s) q) = ch_writeCallback (chan s q)"
  "ch_closeCallback (chan (Channel_remove os p s) q) = ch_closeCallback (chan s q)"
  "ch_errorCallback (chan (Channel_remove os p s) q) = ch_errorCallback (chan s q)"
  by (simp_all add: Channel_remove_def EventLoop_removeChannel_def removeChannel_chan)

lemma Channel_update_loops [simp]:
  "el_threadId (loops (Channel_update os p s) l) = el_threadId (loops s l)"
  "el_wakeupFd (loops (Channel_update os p s) l) = el_wakeupFd (loops s l)"
  "el_quit (loops (Channel_update os p s) l) = el_quit (loops s l)"
  "el_pendingFunctors (loops (Channel_update os p s) l) = el_pendingFunctors (loops s l)"
  "el_callingPendingFunctors (loops (Channel_update os p s) l) = el_callingPendingFunctors (loops s l)"
  by (simp_all add: Channel_update_def EventLoop_updateChannel_def updateChannel_loops)

lemma Channel_remove_loops [simp]:
  "el_threadId (loops (Channel_remove os p s) l) = el_threadId (loops s l)"
  "el_wakeupFd (loops (Channel_remove os p s) l) = el_wakeupFd (loops s l)"
  "el_quit (loops (Channel_remove os p s) l) = el_quit (loops s l)"
  "el_pendingFunctors (loops (Channel_remove os p s) l) = el_pendingFunctors (loops s l)"
  "el_callingPendingFunctors (loops (Channel_remove os p s) l) = el_callingPendingFunctors (loops s l)"
  by (simp_all add: Channel_remove_def EventLoop_removeChannel_def removeChannel_loops)

text \<open>Neither adds to the streams.\<close>

lemma EpollPoller_update_wire:
  "wire_frame os wire \<Longrightarrow> wire (kern (EpollPoller_update os l opn p s)) = wire (kern s)"
  by (simp add: wire_frame_def EpollPoller_update_def Let_def split: prod.split) (metis snd_conv)

lemma Channel_update_wire:
  "wire_frame os wire \<Longrightarrow> wire (kern (Channel_update os p s)) = wire (kern s)"
  by (simp add: Channel_update_def EventLoop_updateChannel_def EpollPoller_updateChannel_def Let_def
      EpollPoller_update_wire)

lemma Channel_remove_wire:
  "wire_frame os wire \<Longrightarrow> wire (kern (Channel_remove os p s)) = wire (kern s)"
  by (simp add: Channel_remove_def EventLoop_removeChannel_def EpollPoller_removeChannel_def Let_def
      EpollPoller_update_wire)

text \<open>Setting the mask and updating, as every \<^verbatim>\<open>enable\<close>/\<^verbatim>\<open>disable\<close> method does.\<close>

lemma change_interest_registry:
  fixes g :: "32 word \<Rightarrow> 32 word"
  assumes "epoll_ctl_contract os interest" and "registry_ok interest l s" and "registrable l p s"
  defines "s' \<equiv> Channel_update os p (Channel_set_events g p s)"
  shows "registry_ok interest l s'" and "errs s' = errs s"
    and "ch_events (chan s' p) = g (ch_events (chan s p))"
    and "Poller_hasChannel l p s'" and "registrable l p s'"
proof -
  let ?t = "Channel_set_events g p s"
  note up = registry_upto_events [OF assms(2,3), of "g (ch_events (chan s p))", folded Channel_set_events_def]
  have lp: "ch_loop (chan ?t p) = l" using assms(3) by (simp add: registrable_def)
  have s': "s' = EpollPoller_updateChannel os l p ?t"
    using lp by (simp add: s'_def Channel_update_def EventLoop_updateChannel_def)
  show "registry_ok interest l s'" "errs s' = errs s"
    using updateChannel_registry [OF assms(1) up] by (simp_all add: s')
  show "ch_events (chan s' p) = g (ch_events (chan s p))"
    by (simp add: s' updateChannel_chan)
  have "map_ok l ?t" using up(1) by (simp add: registry_upto_def)
  with up(2) epoll.update show "Poller_hasChannel l p s'" "registrable l p s'"
    unfolding s' by blast+
qed

lemma remove_registry:
  assumes "epoll_ctl_contract os interest" and "registry_ok interest l s" and "registrable l p s"
  shows "registry_ok interest l (Channel_remove os p s)" and "errs (Channel_remove os p s) = errs s"
    and "ch_events (chan (Channel_remove os p s) p) = ch_events (chan s p)"
    and "\<not> Poller_hasChannel l p (Channel_remove os p s)" and "registrable l p (Channel_remove os p s)"
proof -
  have r: "Channel_remove os p s = EpollPoller_removeChannel os l p s"
    using assms(3) by (simp add: Channel_remove_def EventLoop_removeChannel_def registrable_def)
  show "registry_ok interest l (Channel_remove os p s)" "errs (Channel_remove os p s) = errs s"
    using removeChannel_registry [OF assms] by (simp_all add: r)
  show "ch_events (chan (Channel_remove os p s) p) = ch_events (chan s p)"
    by (simp add: r removeChannel_chan)
  have "map_ok l s" using assms(2) by (simp add: registry_ok_def)
  with assms(3) epoll.remove
  show "\<not> Poller_hasChannel l p (Channel_remove os p s)" "registrable l p (Channel_remove os p s)"
    unfolding r by blast+
qed

text \<open>The calls a client can make to change a channel's registration, and their effect on the mask.\<close>

datatype chan_op = EnableReading | DisableReading | EnableWriting | DisableWriting | DisableAll | Remove

fun chan_step :: "'k os \<Rightarrow> chan_ptr \<Rightarrow> chan_op \<Rightarrow> ('k, 'z) reactor_scheme \<Rightarrow> ('k, 'z) reactor_scheme" where
  "chan_step os p EnableReading = Channel_enableReading os p"
| "chan_step os p DisableReading = Channel_disableReading os p"
| "chan_step os p EnableWriting = Channel_enableWriting os p"
| "chan_step os p DisableWriting = Channel_disableWriting os p"
| "chan_step os p DisableAll = Channel_disbaleAll os p"
| "chan_step os p Remove = Channel_remove os p"

fun mask_step :: "chan_op \<Rightarrow> 32 word \<Rightarrow> 32 word" where
  "mask_step EnableReading e = e OR 3"
| "mask_step DisableReading e = e AND NOT 3"
| "mask_step EnableWriting e = e OR 4"
| "mask_step DisableWriting e = e AND NOT 4"
| "mask_step DisableAll e = e"
| "mask_step Remove e = e"

lemma kReadEvent_eq: "kReadEvent = 3"
  by (simp add: kReadEvent_def)

lemma chan_step_registry:
  assumes "epoll_ctl_contract os interest" and "registry_ok interest l s" and "registrable l p s"
  shows "registry_ok interest l (chan_step os p x s)" and "errs (chan_step os p x s) = errs s"
    and "ch_events (chan (chan_step os p x s) p) = mask_step x (ch_events (chan s p))"
    and "Poller_hasChannel l p (chan_step os p x s) \<longleftrightarrow> x \<noteq> Remove"
    and "registrable l p (chan_step os p x s)"
  by (cases x; simp add: change_interest_registry [OF assms] remove_registry [OF assms]
      Channel_enableReading_def Channel_disableReading_def Channel_enableWriting_def
      Channel_disableWriting_def Channel_disbaleAll_def kReadEvent_eq kWriteEvent_def kNoneEvent_def)+

section \<open>Properties\<close>

text \<open>
  C10: Whatever sequence of \<^verbatim>\<open>enableReading\<close>, \<^verbatim>\<open>disableReading\<close>, \<^verbatim>\<open>enableWriting\<close>, \<^verbatim>\<open>disableWriting\<close>,
  \<^verbatim>\<open>disbaleAll\<close> and \<^verbatim>\<open>remove\<close> calls a channel goes through, the poller's map, the channels' index
  states and the kernel's interest list stay consistent, no \<^verbatim>\<open>epoll_ctl\<close> fails, the mask is the
  one the calls describe, and the poller has the channel exactly when the last call was not
  \<^verbatim>\<open>remove\<close>.
\<close>

theorem channel_calls_keep_registry:
  assumes "epoll_ctl_contract os interest" and "registry_ok interest l s" and "registrable l p s"
  shows "let s' = fold (chan_step os p) ops s in
    registry_ok interest l s' \<and> errs s' = errs s \<and> registrable l p s' \<and>
    ch_events (chan s' p) = fold mask_step ops (ch_events (chan s p)) \<and>
    (ops = [] \<or> Poller_hasChannel l p s' = (last ops \<noteq> Remove))"
proof (induction ops rule: rev_induct)
  case Nil
  with assms show ?case by simp
next
  case (snoc x ops)
  then have ok: "registry_ok interest l (fold (chan_step os p) ops s)"
      "registrable l p (fold (chan_step os p) ops s)" by (simp_all add: Let_def)
  from snoc show ?case by (simp add: Let_def chan_step_registry [OF assms(1) ok])
qed

definition sim_reactor :: "sim reactor" where
  "sim_reactor = \<lparr>kern = sim_init, cur_tid = 100, errs = [], chan = (\<lambda>_. Channel_ctor 0 5),
     loops = (\<lambda>_. \<lparr>el_looping = False, el_quit = False, el_threadId = 100, el_pollReturnTime = 0,
       el_poller = \<lparr>pl_epollfd = 3, pl_channels = Map.empty, pl_events = replicate 16 null_event\<rparr>,
       el_wakeupFd = 4, el_activeChannels = [], el_callingPendingFunctors = False,
       el_pendingFunctors = []\<rparr>),
     refs = (\<lambda>_. 0), t_loopInThisThread = Map.empty, numCreated = 0\<rparr>"

lemma sim_reactor_ok: "registry_ok sim_interest l sim_reactor" "registrable 0 p sim_reactor"
  by (auto simp: registry_ok_def map_ok_def watched_def [abs_def] registrable_def sim_reactor_def
      sim_init_def Channel_ctor_def kNew_def)

theorem channel_calls_keep_registry_witness:
  "let s' = fold (chan_step sim_os AcceptChannel) [EnableReading, EnableWriting, DisableReading] sim_reactor
   in registry_ok sim_interest 0 s' \<and> errs s' = [] \<and> ch_events (chan s' AcceptChannel) = 4 \<and>
      Poller_hasChannel 0 AcceptChannel s'"
proof -
  have "errs sim_reactor = []" and "ch_events (chan sim_reactor AcceptChannel) = 0"
    by (simp_all add: sim_reactor_def Channel_ctor_def)
  moreover have "fold mask_step [EnableReading, EnableWriting, DisableReading] 0 = 4" by simp
  ultimately show ?thesis
    using channel_calls_keep_registry [OF sim_epoll_ctl_contract sim_reactor_ok,
        of AcceptChannel "[EnableReading, EnableWriting, DisableReading]"]
    by (simp only: Let_def) simp
qed

text \<open>\<^verbatim>\<open>disbaleAll\<close> disables nothing. It clears the bits of \<^verbatim>\<open>kNoneEvent\<close>, which is 0, so the mask
  is unchanged, and a channel that is registered with a non-empty mask is still watched by the
  kernel with that same mask afterwards.\<close>

lemma disbaleAll_disables_nothing:
  assumes "epoll_ctl_contract os interest" and "registry_ok interest l s" and "registrable l p s"
    and "ch_index (chan s p) = kAdded" and "ch_events (chan s p) \<noteq> 0"
  shows "ch_events (chan (Channel_disbaleAll os p s) p) = ch_events (chan s p) \<and>
    interest (kern (Channel_disbaleAll os p s)) (pl_epollfd (el_poller (loops s l))) (ch_fd (chan s p)) =
      Some \<lparr>ev_events = ch_events (chan s p), ev_ptr = Some p\<rparr>"
proof -
  let ?s = "Channel_disbaleAll os p s"
  have e: "ch_events (chan ?s p) = ch_events (chan s p)" and ok: "registry_ok interest l ?s"
    using chan_step_registry [OF assms(1-3), of DisableAll] by simp_all
  have lp: "ch_loop (chan s p) = l" using assms(3) by (simp add: registrable_def)
  have "loops ?s = loops s" and "ch_index (chan ?s p) = kAdded" and "ch_fd (chan ?s p) = ch_fd (chan s p)"
    using assms(4,5) lp
    by (simp_all add: Channel_disbaleAll_def Channel_update_def EventLoop_updateChannel_def
        updateChannel_chan updateChannel_loops Channel_isNoneEvent_def kNoneEvent_def)
  moreover have "pl_channels (el_poller (loops s l)) (ch_fd (chan s p)) = Some p"
    using map_okD(2) [of l s p] assms(2,4) lp by (simp add: registry_ok_def)
  ultimately show ?thesis using ok e by (simp add: registry_ok_def watched_def)
qed

text \<open>
  C23: \<^verbatim>\<open>EpollPoller::poll\<close> reports live registrations only. With a kernel that keeps the contract
  of \<^verbatim>\<open>epoll_wait\<close>, a poll never dereferences a null pointer or leaves the event array; every
  channel it reports is one that the poller has and that is in state \<^verbatim>\<open>kAdded\<close>; the registry is
  kept; and the event array doubles exactly when it came back full.
\<close>

theorem poll_reports_registered_channels:
  assumes "registry_ok interest l s" and "epoll_wait_contract os interest"
    and "\<forall>k. interest (snd (sys_time os k)) = interest k"
  shows "\<exists>now ps s'. EpollPoller_poll os l t [] s = Inr (now, ps, s') \<and> registry_ok interest l s' \<and>
    (\<forall>p \<in> set ps. Poller_hasChannel l p s \<and> ch_index (chan s p) = kAdded) \<and>
    length ps \<le> length (pl_events (el_poller (loops s l))) \<and>
    length (pl_events (el_poller (loops s' l))) =
      (if ps \<noteq> [] \<and> length ps = length (pl_events (el_poller (loops s l)))
       then 2 * length ps else length (pl_events (el_poller (loops s l))))"
proof -
  obtain now ps s' where "EpollPoller_poll os l t [] s = Inr (now, [] @ ps, s')"
      "poll_keeps interest l s s'"
      "\<forall>p \<in> set ps. Poller_hasChannel l p s \<and> ch_loop (chan s p) = l \<and> ch_index (chan s p) = kAdded"
      "length ps \<le> length (pl_events (el_poller (loops s l)))"
      "length (pl_events (el_poller (loops s' l))) =
        (if ps \<noteq> [] \<and> length ps = length (pl_events (el_poller (loops s l)))
         then 2 * length ps else length (pl_events (el_poller (loops s l))))"
    using EpollPoller_poll_spec [OF assms, of t "[]"] by blast
  then show ?thesis unfolding poll_keeps_def by (intro exI [of _ now] exI [of _ ps] exI [of _ s']) simp
qed

theorem poll_reports_registered_channels_witness:
  "\<exists>now ps s'. EpollPoller_poll sim_os 0 10000 [] (Channel_enableReading sim_os AcceptChannel sim_reactor) = Inr (now, ps, s') \<and>
    registry_ok sim_interest 0 s' \<and> length ps \<le> 16"
proof -
  let ?s = "Channel_enableReading sim_os AcceptChannel sim_reactor"
  have "registry_ok sim_interest 0 ?s"
    using chan_step_registry [OF sim_epoll_ctl_contract sim_reactor_ok, of AcceptChannel EnableReading] by simp
  moreover have "length (pl_events (el_poller (loops ?s 0))) = 16"
    by (simp add: Channel_enableReading_def Channel_update_def EventLoop_updateChannel_def
        updateChannel_loops sim_reactor_def Channel_ctor_def)
  ultimately show ?thesis
    using poll_reports_registered_channels [of sim_interest 0 ?s sim_os 10000, OF _ sim_epoll_wait_contract] by fastforce
qed

text \<open>The callbacks a set of returned events asks for, in the order of \<^verbatim>\<open>handleEventWithGuard\<close>.\<close>

definition dispatch_plan :: "channel \<Rightarrow> event_callback list" where
  "dispatch_plan c =
     (if ch_revents c AND EPOLLHUP \<noteq> 0 \<and> ch_revents c AND EPOLLIN = 0
        then (case ch_closeCallback c of None \<Rightarrow> [] | Some f \<Rightarrow> [f]) else []) @
     (if ch_revents c AND EPOLLERR \<noteq> 0
        then (case ch_errorCallback c of None \<Rightarrow> [] | Some f \<Rightarrow> [f]) else []) @
     (if ch_revents c AND 3 \<noteq> 0
        then (case ch_readCallback c of None \<Rightarrow> [] | Some f \<Rightarrow> [f]) else []) @
     (if ch_revents c AND EPOLLOUT \<noteq> 0
        then (case ch_writeCallback c of None \<Rightarrow> [] | Some f \<Rightarrow> [f]) else [])"

text \<open>A callback keeps the dispatch data of channel \<^term>\<open>p\<close>: it may change the mask and the
  registration, not the returned events or the callbacks themselves.\<close>

definition keeps_dispatch ::
  "(event_callback \<Rightarrow> int \<Rightarrow> ('k, 'z) reactor_scheme \<Rightarrow> ('k, 'z) reactor_scheme result) \<Rightarrow> chan_ptr \<Rightarrow> bool" where
  "keeps_dispatch run p \<longleftrightarrow> (\<forall>cb t s s'. run cb t s = Inr s' \<longrightarrow>
     ch_revents (chan s' p) = ch_revents (chan s p) \<and>
     ch_closeCallback (chan s' p) = ch_closeCallback (chan s p) \<and>
     ch_errorCallback (chan s' p) = ch_errorCallback (chan s p) \<and>
     ch_readCallback (chan s' p) = ch_readCallback (chan s p) \<and>
     ch_writeCallback (chan s' p) = ch_writeCallback (chan s p))"

lemma call_if_set_for_each:
  "call_if_set run cb t s = for_each (\<lambda>f. run f t) (case cb of None \<Rightarrow> [] | Some f \<Rightarrow> [f]) s"
  by (cases cb; cases "run (the cb) t s") (simp_all add: call_if_set_def)

lemma for_each_keeps_dispatch:
  assumes "keeps_dispatch run p" and "for_each (\<lambda>f. run f t) fs s = Inr s'"
  shows "ch_revents (chan s' p) = ch_revents (chan s p) \<and>
     ch_closeCallback (chan s' p) = ch_closeCallback (chan s p) \<and>
     ch_errorCallback (chan s' p) = ch_errorCallback (chan s p) \<and>
     ch_readCallback (chan s' p) = ch_readCallback (chan s p) \<and>
     ch_writeCallback (chan s' p) = ch_writeCallback (chan s p)"
  by (rule for_each_invariant [OF assms(2)]) (use assms(1) in \<open>auto simp: keeps_dispatch_def\<close>)

lemma and_then_cong_Inr: "(\<And>x. m = Inr x \<Longrightarrow> f x = g x) \<Longrightarrow> and_then m f = and_then m g"
  by (cases m) auto

lemma guarded_stage:
  "(if b then call_if_set run cb t s else Inr s) =
   for_each (\<lambda>f. run f t) (if b then case cb of None \<Rightarrow> [] | Some f \<Rightarrow> [f] else []) s"
  by (simp add: call_if_set_for_each)

lemma handleEventWithGuard_plan:
  assumes "keeps_dispatch run p"
  shows "Channel_handleEventWithGuard run t p s = for_each (\<lambda>f. run f t) (dispatch_plan (chan s p)) s"
  unfolding Channel_handleEventWithGuard_def guarded_stage dispatch_plan_def for_each_append
    and_then_assoc
  by (simp only: kReadEvent_def [symmetric] kReadEvent_eq)
    (rule and_then_cong_Inr, drule for_each_keeps_dispatch [OF assms], simp only:)+



end
