(* ===== verification/EventLoop.thy ===== *)
theory EventLoop
  imports Channel
begin

text \<open>
  \<^verbatim>\<open>EventLoop.h\<close>, \<^verbatim>\<open>EventLoop.cpp\<close>: one loop per thread. An iteration polls, lets the reported
  channels handle their events and then runs the functors queued so far. Functors queued from
  another thread, or while functors run, wake the loop through an \<^verbatim>\<open>eventfd\<close>. The theory has
  the methods as functions on the reactor state, executed by the thread \<^const>\<open>cur_tid\<close>; the
  interleaving of several threads on the queue is the subject of the theory \<open>Wakeup\<close>.
\<close>

section \<open>Operations\<close>

definition kPollTimeMs :: int where "kPollTimeMs = 10000"

definition creatEventfd :: "'k os \<Rightarrow> 'k \<Rightarrow> (fd \<times> 'k) result" where
  "creatEventfd os k =
     (let ((evtfd, e), k') = sys_eventfd os k in
      if evtfd < 0 then Inl (FatalExit ''eventfd error'') else Inr (evtfd, k'))"

definition EventLoop_isInLoopThread :: "loop_ptr \<Rightarrow> ('k, 'z) reactor_scheme \<Rightarrow> bool" where
  "EventLoop_isInLoopThread l s \<longleftrightarrow> el_threadId (loops s l) = cur_tid s"

text \<open>The constructor for a loop at address \<^term>\<open>l\<close>. \<^verbatim>\<open>Poller::newDefaultPoller\<close> is declared but
  not defined in the repository, so it is the parameter \<^term>\<open>newDefaultPoller\<close>.\<close>

definition EventLoop_ctor ::
  "'k os \<Rightarrow> ('k \<Rightarrow> (poller \<times> 'k) result) \<Rightarrow> loop_ptr \<Rightarrow> ('k, 'z) reactor_scheme \<Rightarrow> ('k, 'z) reactor_scheme result" where
  "EventLoop_ctor os newDefaultPoller l s =
     and_then (newDefaultPoller (kern s)) (\<lambda>(pl, k1).
     and_then (creatEventfd os k1) (\<lambda>(evtfd, k2).
       let s1 = s\<lparr>kern := k2,
              loops := (loops s)(l := \<lparr>el_looping = False, el_quit = False, el_threadId = cur_tid s,
                 el_pollReturnTime = 0, el_poller = pl, el_wakeupFd = evtfd, el_activeChannels = [],
                 el_callingPendingFunctors = False, el_pendingFunctors = []\<rparr>),
              chan := (chan s)(WakeupChannel l := Channel_ctor l evtfd)\<rparr>
       in case t_loopInThisThread s1 (cur_tid s1) of
            Some _ \<Rightarrow> Inl (FatalExit ''Another EventLoop exists in this thread'')
          | None \<Rightarrow>
              Inr (Channel_enableReading os (WakeupChannel l)
                (Channel_setReadCallback (WakeupChannel l) (Bind_EventLoop_handleRead l)
                  (s1\<lparr>t_loopInThisThread := (t_loopInThisThread s1)(cur_tid s1 \<mapsto> l)\<rparr>)))))"

text \<open>The destructor: its body, then the members that own something (the queued functors, the
  poller).\<close>

definition EventLoop_dtor :: "'k os \<Rightarrow> loop_ptr \<Rightarrow> ('k, 'z) reactor_scheme \<Rightarrow> ('k, 'z) reactor_scheme" where
  "EventLoop_dtor os l s =
     (let s1 = Channel_remove os (WakeupChannel l) (Channel_disbaleAll os (WakeupChannel l) s);
          s2 = s1\<lparr>kern := sys_close os (el_wakeupFd (loops s1 l)) (kern s1),
                  t_loopInThisThread := (t_loopInThisThread s1)(cur_tid s1 := None)\<rparr>;
          s3 = fold (release_task os) (el_pendingFunctors (loops s2 l)) s2
      in EpollPoller_dtor os l s3)"

definition one_bytes :: "byte list" where
  "one_bytes = [1, 0, 0, 0, 0, 0, 0, 0]"

definition EventLoop_wakeup :: "'k os \<Rightarrow> loop_ptr \<Rightarrow> ('k, 'z) reactor_scheme \<Rightarrow> ('k, 'z) reactor_scheme" where
  "EventLoop_wakeup os l s =
     (let ((n, e), k') = sys_write os (el_wakeupFd (loops s l)) one_bytes (kern s);
          s1 = s\<lparr>kern := k'\<rparr>
      in if n \<noteq> 8 then LOG_ERROR ''EventLoop::wakeup() writes bytes instead of 8'' n s1 else s1)"

definition EventLoop_handleRead :: "'k os \<Rightarrow> loop_ptr \<Rightarrow> ('k, 'z) reactor_scheme \<Rightarrow> ('k, 'z) reactor_scheme" where
  "EventLoop_handleRead os l s =
     (let ((n, e), k') = sys_read os (el_wakeupFd (loops s l)) 8 (kern s);
          s1 = s\<lparr>kern := k'\<rparr>
      in if n \<noteq> 8 then LOG_ERROR ''EventLoop::handleRead() reads bytes instead of 8'' n s1 else s1)"

definition EventLoop_queueInLoop ::
  "'k os \<Rightarrow> loop_ptr \<Rightarrow> task \<Rightarrow> ('k, 'z) reactor_scheme \<Rightarrow> ('k, 'z) reactor_scheme" where
  "EventLoop_queueInLoop os l cb s =
     (let s1 = retain_task cb (upd_loop l (\<lambda>e. e\<lparr>el_pendingFunctors := el_pendingFunctors e @ [cb]\<rparr>) s)
      in if \<not> EventLoop_isInLoopThread l s1 \<or> el_callingPendingFunctors (loops s1 l)
         then EventLoop_wakeup os l s1 else s1)"

text \<open>\<^verbatim>\<open>runInLoop(cb)\<close>: the callable is given both as the value that would be queued and as the
  code that runs when it is called here.\<close>

definition EventLoop_runInLoop ::
  "'k os \<Rightarrow> loop_ptr \<Rightarrow> task \<Rightarrow> (('k, 'z) reactor_scheme \<Rightarrow> ('k, 'z) reactor_scheme result) \<Rightarrow>
     ('k, 'z) reactor_scheme \<Rightarrow> ('k, 'z) reactor_scheme result" where
  "EventLoop_runInLoop os l cb call s =
     (if EventLoop_isInLoopThread l s then call s else Inr (EventLoop_queueInLoop os l cb s))"

definition EventLoop_quit :: "'k os \<Rightarrow> loop_ptr \<Rightarrow> ('k, 'z) reactor_scheme \<Rightarrow> ('k, 'z) reactor_scheme" where
  "EventLoop_quit os l s =
     (let s1 = upd_loop l (\<lambda>e. e\<lparr>el_quit := True\<rparr>) s
      in if \<not> EventLoop_isInLoopThread l s1 then EventLoop_wakeup os l s1 else s1)"

text \<open>The local vector takes over the queued functors and, at the end of the scope, drops the
  connection pointers they hold.\<close>

definition EventLoop_doPendingFunctors ::
  "'k os \<Rightarrow> (task \<Rightarrow> ('k, 'z) reactor_scheme \<Rightarrow> ('k, 'z) reactor_scheme result) \<Rightarrow> loop_ptr \<Rightarrow>
     ('k, 'z) reactor_scheme \<Rightarrow> ('k, 'z) reactor_scheme result" where
  "EventLoop_doPendingFunctors os call l s =
     (let functors = el_pendingFunctors (loops s l);
          s1 = upd_loop l (\<lambda>e. e\<lparr>el_callingPendingFunctors := True, el_pendingFunctors := []\<rparr>) s
      in and_then (for_each call functors s1) (\<lambda>s2.
           Inr (fold (release_task os) functors
             (upd_loop l (\<lambda>e. e\<lparr>el_callingPendingFunctors := False\<rparr>) s2))))"

definition EventLoop_loop_body ::
  "'k os \<Rightarrow> (event_callback \<Rightarrow> int \<Rightarrow> ('k, 'z) reactor_scheme \<Rightarrow> ('k, 'z) reactor_scheme result) \<Rightarrow>
     (task \<Rightarrow> ('k, 'z) reactor_scheme \<Rightarrow> ('k, 'z) reactor_scheme result) \<Rightarrow> loop_ptr \<Rightarrow>
     ('k, 'z) reactor_scheme \<Rightarrow> ('k, 'z) reactor_scheme result" where
  "EventLoop_loop_body os run call l s =
     and_then (EpollPoller_poll os l kPollTimeMs [] s) (\<lambda>(now, active, s1).
       let s2 = upd_loop l (\<lambda>e. e\<lparr>el_pollReturnTime := now, el_activeChannels := active\<rparr>) s1
       in and_then (for_each (Channel_handleEvent os run now) active s2)
            (EventLoop_doPendingFunctors os call l))"

text \<open>\<^verbatim>\<open>while (!quit_) body\<close>, which need not end: \<^const>\<open>None\<close> is a loop that runs forever.\<close>

partial_function (option) loop_while ::
  "('s \<Rightarrow> bool) \<Rightarrow> ('s \<Rightarrow> 's result) \<Rightarrow> 's \<Rightarrow> 's result option" where
  "loop_while stop body s =
     (if stop s then Some (Inr s)
      else case body s of Inl e \<Rightarrow> Some (Inl e) | Inr s' \<Rightarrow> loop_while stop body s')"

definition EventLoop_loop ::
  "'k os \<Rightarrow> (event_callback \<Rightarrow> int \<Rightarrow> ('k, 'z) reactor_scheme \<Rightarrow> ('k, 'z) reactor_scheme result) \<Rightarrow>
     (task \<Rightarrow> ('k, 'z) reactor_scheme \<Rightarrow> ('k, 'z) reactor_scheme result) \<Rightarrow> loop_ptr \<Rightarrow>
     ('k, 'z) reactor_scheme \<Rightarrow> ('k, 'z) reactor_scheme result option" where
  "EventLoop_loop os run call l s =
     map_option (map_sum id (upd_loop l (\<lambda>e. e\<lparr>el_looping := False\<rparr>)))
       (loop_while (\<lambda>s. el_quit (loops s l)) (EventLoop_loop_body os run call l)
         (upd_loop l (\<lambda>e. e\<lparr>el_looping := True, el_quit := False\<rparr>) s))"

section \<open>Frame facts\<close>

lemma wakeup_sel [simp]:
  "cur_tid (EventLoop_wakeup os l s) = cur_tid s" "chan (EventLoop_wakeup os l s) = chan s"
  "loops (EventLoop_wakeup os l s) = loops s" "refs (EventLoop_wakeup os l s) = refs s"
  "t_loopInThisThread (EventLoop_wakeup os l s) = t_loopInThisThread s"
  "reactor.more (EventLoop_wakeup os l s) = reactor.more s"
  by (simp_all add: EventLoop_wakeup_def Let_def split: prod.splits)

lemma handleRead_sel [simp]:
  "cur_tid (EventLoop_handleRead os l s) = cur_tid s" "chan (EventLoop_handleRead os l s) = chan s"
  "loops (EventLoop_handleRead os l s) = loops s" "refs (EventLoop_handleRead os l s) = refs s"
  "t_loopInThisThread (EventLoop_handleRead os l s) = t_loopInThisThread s"
  "reactor.more (EventLoop_handleRead os l s) = reactor.more s"
  by (simp_all add: EventLoop_handleRead_def Let_def split: prod.splits)

lemma queueInLoop_sel [simp]:
  "cur_tid (EventLoop_queueInLoop os l cb s) = cur_tid s"
  "chan (EventLoop_queueInLoop os l cb s) = chan s"
  "t_loopInThisThread (EventLoop_queueInLoop os l cb s) = t_loopInThisThread s"
  "reactor.more (EventLoop_queueInLoop os l cb s) = reactor.more s"
  "loops (EventLoop_queueInLoop os l cb s) =
     (loops s)(l := (loops s l)\<lparr>el_pendingFunctors := el_pendingFunctors (loops s l) @ [cb]\<rparr>)"
  "refs (EventLoop_queueInLoop os l cb s) = refs (retain_task cb s)"
  by (simp_all add: EventLoop_queueInLoop_def Let_def retain_task_def split: option.splits)

lemma quit_sel [simp]:
  "cur_tid (EventLoop_quit os l s) = cur_tid s" "chan (EventLoop_quit os l s) = chan s"
  "refs (EventLoop_quit os l s) = refs s" "t_loopInThisThread (EventLoop_quit os l s) = t_loopInThisThread s"
  "reactor.more (EventLoop_quit os l s) = reactor.more s"
  "loops (EventLoop_quit os l s) = (loops s)(l := (loops s l)\<lparr>el_quit := True\<rparr>)"
  by (simp_all add: EventLoop_quit_def Let_def)

lemma fold_release_sel [simp]:
  "chan (fold (release_task os) ts s) = chan s" "loops (fold (release_task os) ts s) = loops s"
  "errs (fold (release_task os) ts s) = errs s" "cur_tid (fold (release_task os) ts s) = cur_tid s"
  by (induction ts arbitrary: s) simp_all

section \<open>Properties\<close>

text \<open>Runs of a range-based for loop, state by state.\<close>

lemma for_each_states:
  "for_each f xs s = Inr s' \<Longrightarrow> \<exists>ss. length ss = Suc (length xs) \<and> hd ss = s \<and> last ss = s' \<and>
     (\<forall>i < length xs. f (xs ! i) (ss ! i) = Inr (ss ! Suc i))"
proof (induction xs arbitrary: s)
  case Nil
  then show ?case by (intro exI [of _ "[s]"]) simp
next
  case (Cons x xs)
  then obtain t where t: "f x s = Inr t" "for_each f xs t = Inr s'" by (auto simp: and_then_eq_Inr)
  with Cons.IH obtain ss where ss: "length ss = Suc (length xs)" "hd ss = t" "last ss = s'"
    "\<forall>i < length xs. f (xs ! i) (ss ! i) = Inr (ss ! Suc i)" by blast
  have "f ((x # xs) ! i) ((s # ss) ! i) = Inr ((s # ss) ! Suc i)" if "i < length (x # xs)" for i
    using that ss t by (cases i; cases ss) auto
  with ss show ?case by (intro exI [of _ "s # ss"]) auto
qed

text \<open>
  \<^verbatim>\<open>doPendingFunctors\<close> runs exactly the functors that were queued when it started, each once,
  in the order they were queued, starting from an empty queue and with
  \<^verbatim>\<open>callingPendingFunctors_\<close> set; what the functors queue meanwhile is still queued when it
  returns, with the flag cleared, and is left to the next iteration.
\<close>

lemma doPendingFunctors_runs_queue_once:
  assumes "EventLoop_doPendingFunctors os call l s = Inr s'"
  shows "\<exists>ss. length ss = Suc (length (el_pendingFunctors (loops s l))) \<and>
    el_pendingFunctors (loops (hd ss) l) = [] \<and> el_callingPendingFunctors (loops (hd ss) l) \<and>
    (\<forall>i < length (el_pendingFunctors (loops s l)).
       call (el_pendingFunctors (loops s l) ! i) (ss ! i) = Inr (ss ! Suc i)) \<and>
    el_pendingFunctors (loops s' l) = el_pendingFunctors (loops (last ss) l) \<and>
    \<not> el_callingPendingFunctors (loops s' l)"
proof -
  let ?s1 = "upd_loop l (\<lambda>e. e\<lparr>el_callingPendingFunctors := True, el_pendingFunctors := []\<rparr>) s"
  obtain s2 where s2: "for_each call (el_pendingFunctors (loops s l)) ?s1 = Inr s2"
    and s': "s' = fold (release_task os) (el_pendingFunctors (loops s l))
      (upd_loop l (\<lambda>e. e\<lparr>el_callingPendingFunctors := False\<rparr>) s2)"
    using assms by (auto simp: EventLoop_doPendingFunctors_def Let_def and_then_eq_Inr)
  obtain ss where "length ss = Suc (length (el_pendingFunctors (loops s l)))" "hd ss = ?s1" "last ss = s2"
    "\<forall>i < length (el_pendingFunctors (loops s l)).
       call (el_pendingFunctors (loops s l) ! i) (ss ! i) = Inr (ss ! Suc i)"
    using for_each_states [OF s2] by blast
  then show ?thesis by (intro exI [of _ ss]) (simp add: s')
qed

text \<open>Iterations of the loop body, to say when the loop returns.\<close>

primrec iterate :: "nat \<Rightarrow> ('s \<Rightarrow> 's result) \<Rightarrow> 's \<Rightarrow> 's result" where
  "iterate 0 body s = Inr s"
| "iterate (Suc n) body s = and_then (body s) (iterate n body)"

lemma loop_while_enough:
  assumes "iterate n body s = Inr t" and "stop t"
    and "\<And>i u. i < n \<Longrightarrow> iterate i body s = Inr u \<Longrightarrow> \<not> stop u"
  shows "loop_while stop body s = Some (Inr t)"
  using assms
proof (induction n arbitrary: s)
  case 0
  then show ?case by (simp add: loop_while.simps)
next
  case (Suc n)
  from Suc.prems(1) obtain s1 where s1: "body s = Inr s1" "iterate n body s1 = Inr t"
    by (auto simp: and_then_eq_Inr)
  have "\<not> stop s" using Suc.prems(3) [of 0 s] by simp
  moreover have "loop_while stop body s1 = Some (Inr t)"
  proof (rule Suc.IH [OF s1(2) Suc.prems(2)])
    fix i u assume "i < n" "iterate i body s1 = Inr u"
    then show "\<not> stop u" using Suc.prems(3) [of "Suc i" u] s1 by simp
  qed
  ultimately show ?case using s1 by (simp add: loop_while.simps [of stop body s])
qed

lemma loop_while_only:
  assumes ret: "loop_while stop body s = Some r"
  shows "\<exists>n. (\<forall>i < n. \<forall>u. iterate i body s = Inr u \<longrightarrow> \<not> stop u) \<and> iterate n body s = r \<and>
    (\<forall>t. r = Inr t \<longrightarrow> stop t)"
proof (rule loop_while.raw_induct [where P = "\<lambda>stop body s r.
    \<exists>n. (\<forall>i < n. \<forall>u. iterate i body s = Inr u \<longrightarrow> \<not> stop u) \<and> iterate n body s = r \<and>
      (\<forall>t. r = Inr t \<longrightarrow> stop t)", OF _ ret])
  fix f :: "('s \<Rightarrow> bool) \<Rightarrow> ('s \<Rightarrow> 's result) \<Rightarrow> 's \<Rightarrow> 's result option" and stop body s r
  assume IH: "\<And>stop body s r. f stop body s = Some r \<Longrightarrow>
      \<exists>n. (\<forall>i < n. \<forall>u. iterate i body s = Inr u \<longrightarrow> \<not> stop u) \<and> iterate n body s = r \<and>
        (\<forall>t. r = Inr t \<longrightarrow> stop t)"
    and eq: "(if stop s then Some (Inr s)
      else case body s of Inl e \<Rightarrow> Some (Inl e) | Inr s' \<Rightarrow> f stop body s') = Some r"
  show "\<exists>n. (\<forall>i < n. \<forall>u. iterate i body s = Inr u \<longrightarrow> \<not> stop u) \<and> iterate n body s = r \<and>
      (\<forall>t. r = Inr t \<longrightarrow> stop t)"
  proof (cases "stop s")
    case True
    with eq show ?thesis by (intro exI [of _ 0]) auto
  next
    case False
    show ?thesis
    proof (cases "body s")
      case (Inl e)
      with False eq show ?thesis by (intro exI [of _ 1]) auto
    next
      case (Inr s1)
      with False eq IH [of stop body s1 r] obtain n where
        "\<forall>i < n. \<forall>u. iterate i body s1 = Inr u \<longrightarrow> \<not> stop u" "iterate n body s1 = r" "\<forall>t. r = Inr t \<longrightarrow> stop t"
        by auto
      with False Inr show ?thesis by (intro exI [of _ "Suc n"]) (auto simp: less_Suc_eq_0_disj)
    qed
  qed
qed

text \<open>
  C25: \<^verbatim>\<open>EventLoop::loop\<close> returns exactly when an iteration leaves \<^verbatim>\<open>quit_\<close> set. The flag is
  cleared on entry, so a \<^verbatim>\<open>quit\<close> issued before the call has no effect; the loop stops after the
  first iteration whose end sees the flag, with \<^verbatim>\<open>looping_\<close> cleared, and does not return
  otherwise.
\<close>

theorem loop_returns_iff_quit:
  "EventLoop_loop os run call l s = Some (Inr s') \<longleftrightarrow>
   (let body = EventLoop_loop_body os run call l;
        s0 = upd_loop l (\<lambda>e. e\<lparr>el_looping := True, el_quit := False\<rparr>) s
    in \<exists>n t. 0 < n \<and> iterate n body s0 = Inr t \<and> el_quit (loops t l) \<and>
         (\<forall>i < n. \<forall>u. iterate i body s0 = Inr u \<longrightarrow> \<not> el_quit (loops u l)) \<and>
         s' = upd_loop l (\<lambda>e. e\<lparr>el_looping := False\<rparr>) t)"
proof -
  let ?body = "EventLoop_loop_body os run call l"
  let ?s0 = "upd_loop l (\<lambda>e. e\<lparr>el_looping := True, el_quit := False\<rparr>) s"
  let ?stop = "\<lambda>s. el_quit (loops s l)"
  have "EventLoop_loop os run call l s = Some (Inr s') \<longleftrightarrow>
      (\<exists>t. loop_while ?stop ?body ?s0 = Some (Inr t) \<and> s' = upd_loop l (\<lambda>e. e\<lparr>el_looping := False\<rparr>) t)"
  proof (cases "loop_while ?stop ?body ?s0")
    case None
    then show ?thesis by (simp add: EventLoop_loop_def)
  next
    case (Some r)
    then show ?thesis by (cases r) (auto simp: EventLoop_loop_def)
  qed
  moreover have "loop_while ?stop ?body ?s0 = Some (Inr t) \<longleftrightarrow> (\<exists>n. iterate n ?body ?s0 = Inr t \<and> ?stop t \<and>
      (\<forall>i < n. \<forall>u. iterate i ?body ?s0 = Inr u \<longrightarrow> \<not> ?stop u))" for t
    using loop_while_enough [of _ ?body ?s0 t ?stop] loop_while_only [of ?stop ?body ?s0 "Inr t"] by blast
  moreover have "iterate n ?body ?s0 = Inr t \<Longrightarrow> ?stop t \<Longrightarrow> 0 < n" for n t
    by (cases n) auto
  ultimately show ?thesis unfolding Let_def by blast
qed

theorem loop_returns_iff_quit_witness:
  "\<exists>s' :: sim reactor. EventLoop_loop sim_os (\<lambda>_ _. Inr) (\<lambda>_ s. Inr (EventLoop_quit sim_os 0 s)) 0
       (upd_loop 0 (\<lambda>e. e\<lparr>el_pendingFunctors := [Bind_user 2], el_quit := True\<rparr>) sim_reactor) = Some (Inr s') \<and>
     \<not> el_looping (loops s' 0)"
proof -
  let ?call = "\<lambda>_ s. Inr (EventLoop_quit sim_os 0 s)"
  let ?s = "upd_loop 0 (\<lambda>e. e\<lparr>el_pendingFunctors := [Bind_user 2], el_quit := True\<rparr>) sim_reactor"
  let ?start = "upd_loop 0 (\<lambda>e. e\<lparr>el_looping := True, el_quit := False\<rparr>) ?s"
  let ?body = "EventLoop_loop_body sim_os (\<lambda>_ _. Inr) ?call 0"
  have poll: "EpollPoller_poll sim_os 0 kPollTimeMs [] ?start = Inr (0, [], ?start\<lparr>kern := sim_init\<rparr>)"
    by (simp add: EpollPoller_poll_def Let_def sim_wait_def sim_reactor_def sim_init_def size_as_int_small)
  obtain t :: "sim reactor" where t: "?body ?start = Inr t" "el_quit (loops t 0)"
    using poll by (simp add: EventLoop_loop_body_def EventLoop_doPendingFunctors_def EventLoop_quit_def Let_def)
  have "\<not> el_quit (loops ?start 0)" by simp
  with t have "\<exists>n t'. 0 < n \<and> iterate n ?body ?start = Inr t' \<and> el_quit (loops t' 0) \<and>
      (\<forall>i < n. \<forall>u. iterate i ?body ?start = Inr u \<longrightarrow> \<not> el_quit (loops u 0)) \<and>
      upd_loop 0 (\<lambda>e. e\<lparr>el_looping := False\<rparr>) t = upd_loop 0 (\<lambda>e. e\<lparr>el_looping := False\<rparr>) t'"
    by (intro exI [of _ "Suc 0"] exI [of _ t]) auto
  then have "EventLoop_loop sim_os (\<lambda>_ _. Inr) ?call 0 ?s = Some (Inr (upd_loop 0 (\<lambda>e. e\<lparr>el_looping := False\<rparr>) t))"
    unfolding loop_returns_iff_quit [of sim_os "\<lambda>_ _. Inr" ?call 0 ?s "upd_loop 0 (\<lambda>e. e\<lparr>el_looping := False\<rparr>) t"] Let_def .
  then show ?thesis by (intro exI conjI) auto
qed

end
