(* ===== verification/Wakeup.thy ===== *)
theory Wakeup
  imports EventLoop "HOL-Library.Sublist"
begin

text \<open>
  The wake-up protocol of \<^verbatim>\<open>EventLoop.cpp\<close> under interleaving. One thread runs \<^verbatim>\<open>loop()\<close>; any
  number of other threads call \<^verbatim>\<open>queueInLoop\<close> and \<^verbatim>\<open>quit\<close>. A step is one action on shared data:
  a push or the swap under \<^verbatim>\<open>mutex_\<close>, a read or write of an atomic flag, a read or write of
  the \<^verbatim>\<open>eventfd\<close> counter, the return of \<^verbatim>\<open>epoll_wait\<close>, the start of a queued functor. The program
  counters say where between these actions a thread is. \<^verbatim>\<open>epoll_wait\<close> is level-triggered: it
  can report the wake-up descriptor whenever the counter is positive, and it may return
  without it (other descriptors, the time-out). Two history variables record what was queued
  and what was run.
\<close>

section \<open>States\<close>

datatype loop_pc =
    Entry
  | AtTest
  | Polling
  | Handling bool
  | HandlingPushed bool
  | SetCalling
  | Swap
  | Running
  | RunningPushed
  | ClearCalling
  | Returned

text \<open>\<^term>\<open>Handling w\<close>: \<^verbatim>\<open>handleEvent\<close> of the active channels, where \<^term>\<open>w\<close> says that the wake-up
  channel is among those still to be handled. \<^const>\<open>HandlingPushed\<close>, \<^const>\<open>RunningPushed\<close>: the
  loop's own thread is inside \<^verbatim>\<open>queueInLoop\<close>, after the push.\<close>

datatype caller_pc = Idle | Pushed | QuitSet

record wstate =
  w_pc :: loop_pc
  w_pending :: "task list"
  w_local :: "task list"
  w_calling :: bool
  w_quit :: bool
  w_counter :: nat
  w_callers :: "nat \<Rightarrow> caller_pc"
  w_queued :: "task list"
  w_ran :: "task list"

definition w_init :: wstate where
  "w_init = \<lparr>w_pc = Entry, w_pending = [], w_local = [], w_calling = False, w_quit = False,
     w_counter = 0, w_callers = (\<lambda>_. Idle), w_queued = [], w_ran = []\<rparr>"

text \<open>\<^verbatim>\<open>write\<close> of 1 to a non-blocking \<^verbatim>\<open>eventfd\<close>: it fails, leaving the counter, when the sum would
  reach the largest 64-bit value.\<close>

definition bump :: "nat \<Rightarrow> nat" where
  "bump n = (if n + 1 < 2 ^ 64 - 1 then n + 1 else n)"

definition push :: "task \<Rightarrow> wstate \<Rightarrow> wstate" where
  "push f s = s\<lparr>w_pending := w_pending s @ [f], w_queued := w_queued s @ [f]\<rparr>"

section \<open>Steps\<close>

text \<open>The loop thread: \<^verbatim>\<open>loop\<close>, \<^verbatim>\<open>handleRead\<close>, \<^verbatim>\<open>doPendingFunctors\<close>, and \<^verbatim>\<open>queueInLoop\<close> and
  \<^verbatim>\<open>quit\<close> called from a callback or a functor.\<close>

inductive loop_step :: "wstate \<Rightarrow> wstate \<Rightarrow> bool" where
  enter: "w_pc s = Entry \<Longrightarrow> loop_step s (s\<lparr>w_quit := False, w_pc := AtTest\<rparr>)"
| test_quit: "w_pc s = AtTest \<Longrightarrow> loop_step s (s\<lparr>w_pc := (if w_quit s then Returned else Polling)\<rparr>)"
| poll_returns: "w_pc s = Polling \<Longrightarrow> (w \<longrightarrow> 0 < w_counter s) \<Longrightarrow> loop_step s (s\<lparr>w_pc := Handling w\<rparr>)"
| handle_wakeup: "w_pc s = Handling True \<Longrightarrow> loop_step s (s\<lparr>w_counter := 0, w_pc := Handling False\<rparr>)"
| event_queues: "w_pc s = Handling w \<Longrightarrow> loop_step s (push f s\<lparr>w_pc := HandlingPushed w\<rparr>)"
| event_queued: "w_pc s = HandlingPushed w \<Longrightarrow>
    loop_step s (s\<lparr>w_counter := (if w_calling s then bump (w_counter s) else w_counter s), w_pc := Handling w\<rparr>)"
| event_quits: "w_pc s = Handling w \<Longrightarrow> loop_step s (s\<lparr>w_quit := True\<rparr>)"
| events_done: "w_pc s = Handling False \<Longrightarrow> loop_step s (s\<lparr>w_pc := SetCalling\<rparr>)"
| set_calling: "w_pc s = SetCalling \<Longrightarrow> loop_step s (s\<lparr>w_calling := True, w_pc := Swap\<rparr>)"
| swap: "w_pc s = Swap \<Longrightarrow> loop_step s (s\<lparr>w_local := w_pending s, w_pending := [], w_pc := Running\<rparr>)"
| run_functor: "w_pc s = Running \<Longrightarrow> w_local s = f # fs \<Longrightarrow>
    loop_step s (s\<lparr>w_local := fs, w_ran := w_ran s @ [f]\<rparr>)"
| functor_queues: "w_pc s = Running \<Longrightarrow> loop_step s (push f s\<lparr>w_pc := RunningPushed\<rparr>)"
| functor_queued: "w_pc s = RunningPushed \<Longrightarrow>
    loop_step s (s\<lparr>w_counter := (if w_calling s then bump (w_counter s) else w_counter s), w_pc := Running\<rparr>)"
| functor_quits: "w_pc s = Running \<Longrightarrow> loop_step s (s\<lparr>w_quit := True\<rparr>)"
| functors_done: "w_pc s = Running \<Longrightarrow> w_local s = [] \<Longrightarrow> loop_step s (s\<lparr>w_pc := ClearCalling\<rparr>)"
| clear_calling: "w_pc s = ClearCalling \<Longrightarrow> loop_step s (s\<lparr>w_calling := False, w_pc := AtTest\<rparr>)"

text \<open>Another thread \<^term>\<open>i\<close>: \<^verbatim>\<open>queueInLoop\<close> and \<^verbatim>\<open>quit\<close>, which both end in \<^verbatim>\<open>wakeup\<close> because the
  caller is not the loop's thread.\<close>

inductive caller_step :: "nat \<Rightarrow> wstate \<Rightarrow> wstate \<Rightarrow> bool" where
  caller_push: "w_callers s i = Idle \<Longrightarrow>
    caller_step i s (push f s\<lparr>w_callers := (w_callers s)(i := Pushed)\<rparr>)"
| caller_quit: "w_callers s i = Idle \<Longrightarrow>
    caller_step i s (s\<lparr>w_quit := True, w_callers := (w_callers s)(i := QuitSet)\<rparr>)"
| caller_wakeup: "w_callers s i \<noteq> Idle \<Longrightarrow>
    caller_step i s (s\<lparr>w_counter := bump (w_counter s), w_callers := (w_callers s)(i := Idle)\<rparr>)"

definition wakeup_step :: "wstate \<Rightarrow> wstate \<Rightarrow> bool" where
  "wakeup_step s t \<longleftrightarrow> loop_step s t \<or> (\<exists>i. caller_step i s t)"

inductive w_reachable :: "wstate \<Rightarrow> bool" where
  start: "w_reachable w_init"
| step: "w_reachable s \<Longrightarrow> wakeup_step s t \<Longrightarrow> w_reachable t"

section \<open>Invariants\<close>

lemma push_sel [simp]:
  "w_pc (push f s) = w_pc s" "w_local (push f s) = w_local s" "w_calling (push f s) = w_calling s"
  "w_quit (push f s) = w_quit s" "w_counter (push f s) = w_counter s"
  "w_callers (push f s) = w_callers s" "w_ran (push f s) = w_ran s"
  "w_pending (push f s) = w_pending s @ [f]" "w_queued (push f s) = w_queued s @ [f]"
  by (simp_all add: push_def)

lemma bump_pos [simp]: "0 < bump n"
  by (simp add: bump_def)

text \<open>The loop will still take the queue before it can sleep.\<close>

definition will_swap :: "loop_pc \<Rightarrow> bool" where
  "will_swap pc \<longleftrightarrow> (case pc of Handling _ \<Rightarrow> True | HandlingPushed _ \<Rightarrow> True | SetCalling \<Rightarrow> True
     | Swap \<Rightarrow> True | _ \<Rightarrow> False)"

definition some_caller :: "(nat \<Rightarrow> caller_pc) \<Rightarrow> caller_pc \<Rightarrow> bool" where
  "some_caller c p \<longleftrightarrow> (\<exists>i. c i = p)"

definition wakeup_inv :: "wstate \<Rightarrow> bool" where
  "wakeup_inv s \<longleftrightarrow>
     (w_calling s \<longleftrightarrow> w_pc s \<in> {Swap, Running, RunningPushed, ClearCalling}) \<and>
     (w_local s \<noteq> [] \<longrightarrow> w_pc s \<in> {Running, RunningPushed}) \<and>
     w_queued s = w_ran s @ w_local s @ w_pending s \<and>
     (w_pending s \<noteq> [] \<longrightarrow> will_swap (w_pc s) \<or> w_pc s = RunningPushed \<or> 0 < w_counter s \<or>
        some_caller (w_callers s) Pushed) \<and>
     (w_quit s \<longrightarrow> w_pc s = Polling \<longrightarrow> 0 < w_counter s \<or> some_caller (w_callers s) QuitSet)"

lemma loop_step_inv: "loop_step s t \<Longrightarrow> wakeup_inv s \<Longrightarrow> wakeup_inv t"
  by (induction rule: loop_step.induct) (auto simp: wakeup_inv_def will_swap_def)

text \<open>A caller that leaves \<^const>\<open>Idle\<close> does not disturb the others.\<close>

lemma some_caller_upd [simp]: "some_caller (c(i := p)) p"
  by (auto simp: some_caller_def)

lemma some_caller_stays:
  "c i = Idle \<Longrightarrow> p \<noteq> Idle \<Longrightarrow> some_caller c p \<Longrightarrow> some_caller (c(i := q)) p"
  unfolding some_caller_def by (metis fun_upd_other)

lemma caller_step_inv: "caller_step i s t \<Longrightarrow> wakeup_inv s \<Longrightarrow> wakeup_inv t"
  by (induction rule: caller_step.induct) (auto simp: wakeup_inv_def some_caller_stays)

lemma wakeup_step_inv: "wakeup_step s t \<Longrightarrow> wakeup_inv s \<Longrightarrow> wakeup_inv t"
  by (auto simp: wakeup_step_def intro: loop_step_inv caller_step_inv)

lemma reachable_wakeup_inv: "w_reachable s \<Longrightarrow> wakeup_inv s"
  by (induction rule: w_reachable.induct)
    (simp add: wakeup_inv_def w_init_def, blast intro: wakeup_step_inv)

section \<open>No lost wake-up\<close>

text \<open>A run that the witnesses use: the loop enters and polls, then thread 5 queues a functor.\<close>

lemma reach_loop: "w_reachable s \<Longrightarrow> loop_step s t \<Longrightarrow> w_reachable t"
  by (blast intro: w_reachable.step wakeup_step_def [THEN iffD2])

lemma reach_caller: "w_reachable s \<Longrightarrow> caller_step i s t \<Longrightarrow> w_reachable t"
  by (blast intro: w_reachable.step wakeup_step_def [THEN iffD2])

definition w_polling :: wstate where
  "w_polling = w_init\<lparr>w_pc := Polling\<rparr>"

lemma w_polling_reachable: "w_reachable w_polling"
proof -
  have "w_reachable (w_init\<lparr>w_pc := AtTest\<rparr>)"
    using reach_loop [OF w_reachable.start loop_step.enter] by (simp add: w_init_def)
  from reach_loop [OF this loop_step.test_quit] show ?thesis by (simp add: w_polling_def w_init_def)
qed

definition w_woken :: wstate where
  "w_woken = w_polling\<lparr>w_pending := [Bind_user 7], w_queued := [Bind_user 7], w_counter := 1\<rparr>"

lemma w_woken_reachable: "w_reachable w_woken"
proof -
  let ?p = "push (Bind_user 7) w_polling\<lparr>w_callers := (w_callers w_polling)(5 := Pushed)\<rparr>"
  have p: "w_reachable ?p"
    by (rule reach_caller [OF w_polling_reachable caller_step.caller_push])
      (simp add: w_polling_def w_init_def)
  have "w_woken = ?p\<lparr>w_counter := bump (w_counter ?p), w_callers := (w_callers ?p)(5 := Idle)\<rparr>"
    by (simp add: w_woken_def w_polling_def w_init_def push_def bump_def fun_eq_iff)
  moreover have "w_reachable (?p\<lparr>w_counter := bump (w_counter ?p), w_callers := (w_callers ?p)(5 := Idle)\<rparr>)"
    by (rule reach_caller [OF p caller_step.caller_wakeup]) simp
  ultimately show ?thesis by simp
qed

text \<open>
  C6: no lost wake-up. Whenever the loop waits in \<^verbatim>\<open>epoll_wait\<close>, the \<^verbatim>\<open>eventfd\<close> has nothing to
  report and no other thread is between its push (or its \<^verbatim>\<open>quit_ = true\<close>) and its \<^verbatim>\<open>wakeup()\<close>,
  the functor queue is empty, every functor ever queued has been run, in order, and no \<^verbatim>\<open>quit\<close>
  is outstanding. This holds for every interleaving of the loop with any number of callers.
\<close>

theorem sleeping_loop_missed_nothing:
  assumes "w_reachable s" and "w_pc s = Polling" and "w_counter s = 0" and "\<forall>i. w_callers s i = Idle"
  shows "w_pending s = [] \<and> w_ran s = w_queued s \<and> \<not> w_quit s"
  using reachable_wakeup_inv [OF assms(1)] assms(2-)
  by (auto simp: wakeup_inv_def will_swap_def some_caller_def)

theorem sleeping_loop_missed_nothing_witness:
  "\<exists>s. w_reachable s \<and> w_pc s = Polling \<and> w_counter s = 0 \<and> w_pending s = [] \<and> \<not> w_quit s"
  using sleeping_loop_missed_nothing [OF w_polling_reachable] w_polling_reachable
  by (auto simp: w_polling_def w_init_def)

text \<open>
  C12: at every point of every interleaving the functors queued so far are those run, followed
  by those of the vector \<^verbatim>\<open>doPendingFunctors\<close> is going through, followed by those still in
  \<^verbatim>\<open>pendingFunctors_\<close>: none is lost, none runs twice, and they run in the order of the pushes.
\<close>

theorem functors_run_in_queue_order:
  assumes "w_reachable s"
  shows "w_queued s = w_ran s @ w_local s @ w_pending s"
  using reachable_wakeup_inv [OF assms] by (simp add: wakeup_inv_def)

theorem functors_run_in_queue_order_witness:
  "w_queued w_woken = w_ran w_woken @ w_local w_woken @ w_pending w_woken \<and> w_queued w_woken = [Bind_user 7]"
  using functors_run_in_queue_order [OF w_woken_reachable] by (simp add: w_woken_def)

section \<open>Progress\<close>

text \<open>\<^term>\<open>q\<close> is what was queued when an iteration began to handle events: it is still ahead of
  the swap, or being gone through, or has been run.\<close>

definition served :: "task list \<Rightarrow> wstate \<Rightarrow> bool" where
  "served q s \<longleftrightarrow> prefix q (w_ran s) \<or> (will_swap (w_pc s) \<and> prefix q (w_queued s)) \<or>
     (w_pc s \<in> {Running, RunningPushed} \<and> prefix q (w_ran s @ w_local s))"

lemma prefix_append_mid: "prefix q (a @ b) \<Longrightarrow> prefix q (a @ b @ c)"
  by (metis append_assoc prefix_prefix)

lemma loop_step_served: "loop_step s t \<Longrightarrow> wakeup_inv s \<Longrightarrow> served q s \<Longrightarrow> served q t"
  by (induction rule: loop_step.induct)
    (auto simp: served_def wakeup_inv_def will_swap_def intro: prefix_prefix prefix_append_mid)

lemma caller_step_served: "caller_step i s t \<Longrightarrow> served q s \<Longrightarrow> served q t"
  by (induction rule: caller_step.induct) (auto simp: served_def intro: prefix_prefix prefix_append_mid)

lemma wakeup_steps_served:
  "wakeup_step\<^sup>*\<^sup>* s t \<Longrightarrow> wakeup_inv s \<Longrightarrow> served q s \<Longrightarrow> wakeup_inv t \<and> served q t"
  by (induction rule: rtranclp_induct)
    (auto simp: wakeup_step_def intro: loop_step_served caller_step_served loop_step_inv caller_step_inv)

text \<open>
  C13: an iteration runs everything that was queued when \<^verbatim>\<open>epoll_wait\<close> returned. From the moment
  the loop handles events, whatever the other threads do meanwhile, by the time it tests \<^verbatim>\<open>quit_\<close>
  again (and so before it can sleep or return) every functor queued before that moment has been run.
\<close>

theorem iteration_runs_what_was_queued:
  assumes "w_reachable s" and "w_pc s = Handling w" and "wakeup_step\<^sup>*\<^sup>* s t"
    and "w_pc t \<in> {AtTest, Polling, Returned}"
  shows "prefix (w_queued s) (w_ran t)"
proof -
  have "served (w_queued s) s" using assms(2) by (simp add: served_def will_swap_def)
  with wakeup_steps_served [OF assms(3) reachable_wakeup_inv [OF assms(1)]] assms(4)
  show ?thesis by (auto simp: served_def will_swap_def)
qed

text \<open>The loop alone runs the vector it goes through.\<close>

lemma runs_local:
  "w_pc s = Running \<Longrightarrow> loop_step\<^sup>*\<^sup>* s (s\<lparr>w_local := [], w_ran := w_ran s @ w_local s\<rparr>)"
proof (induction "w_local s" arbitrary: s)
  case Nil
  then show ?case by (cases s) simp
next
  case (Cons f fs)
  let ?t = "s\<lparr>w_local := fs, w_ran := w_ran s @ [f]\<rparr>"
  have "loop_step s ?t" by (rule run_functor) (use Cons in simp_all)
  moreover have "loop_step\<^sup>*\<^sup>* ?t (?t\<lparr>w_local := [], w_ran := w_ran ?t @ w_local ?t\<rparr>)"
    by (rule Cons.hyps(1)) (use Cons in simp_all)
  ultimately show ?case using Cons.hyps(2) [symmetric] by (simp add: converse_rtranclp_into_rtranclp)
qed

lemma finish_iteration:
  assumes "w_pc s = Handling w"
  shows "\<exists>t. loop_step\<^sup>*\<^sup>* s t \<and> w_pc t = AtTest \<and> w_ran t = w_ran s @ w_pending s \<and> w_pending t = [] \<and>
    w_quit t = w_quit s"
proof -
  let ?a = "s\<lparr>w_counter := (if w then 0 else w_counter s), w_pc := Handling False\<rparr>"
  have a: "loop_step\<^sup>*\<^sup>* s ?a"
  proof (cases w)
    case True
    then show ?thesis using handle_wakeup [of s] assms by auto
  next
    case False
    then have "?a = s" using assms by (cases s) simp
    then show ?thesis by (metis rtranclp.rtrancl_refl)
  qed
  let ?b1 = "?a\<lparr>w_pc := SetCalling\<rparr>"
  let ?b2 = "?b1\<lparr>w_calling := True, w_pc := Swap\<rparr>"
  let ?b = "?b2\<lparr>w_local := w_pending ?b2, w_pending := [], w_pc := Running\<rparr>"
  have b: "loop_step ?a ?b1" "loop_step ?b1 ?b2" "loop_step ?b2 ?b"
    by (rule events_done set_calling swap; simp)+
  let ?c = "?b\<lparr>w_local := [], w_ran := w_ran ?b @ w_local ?b\<rparr>"
  have c: "loop_step\<^sup>*\<^sup>* ?b ?c" by (rule runs_local) simp
  let ?d1 = "?c\<lparr>w_pc := ClearCalling\<rparr>"
  let ?d = "?d1\<lparr>w_calling := False, w_pc := AtTest\<rparr>"
  have d: "loop_step ?c ?d1" "loop_step ?d1 ?d"
    by (rule functors_done clear_calling; simp)+
  have "loop_step\<^sup>*\<^sup>* s ?d"
    using a b c d by (meson rtranclp.rtrancl_into_rtrancl rtranclp_trans)
  then show ?thesis by (intro exI [of _ ?d]) simp
qed

theorem iteration_runs_what_was_queued_witness:
  "\<exists>s t. w_reachable s \<and> w_pc s = Handling True \<and> wakeup_step\<^sup>*\<^sup>* s t \<and> w_queued s = [Bind_user 7] \<and>
     prefix [Bind_user 7] (w_ran t)"
proof -
  let ?s = "w_woken\<lparr>w_pc := Handling True\<rparr>"
  have r: "w_reachable ?s"
    by (rule reach_loop [OF w_woken_reachable poll_returns]) (simp_all add: w_woken_def w_polling_def)
  obtain t where t: "loop_step\<^sup>*\<^sup>* ?s t" "w_pc t = AtTest"
    using finish_iteration [of ?s True] by auto
  have "wakeup_step\<^sup>*\<^sup>* ?s t"
    using t(1) by (rule rtranclp_mono [THEN predicate2D, rotated]) (auto simp: wakeup_step_def)
  with r t show ?thesis
    using iteration_runs_what_was_queued [of ?s True t]
    by (intro exI [of _ ?s] exI [of _ t]) (simp add: w_woken_def)
qed

text \<open>
  C14: a queued functor or a \<^verbatim>\<open>quit\<close> does get the loop going. If the loop polls while functors are
  pending or \<^verbatim>\<open>quit_\<close> is set, and the callers have finished their \<^verbatim>\<open>wakeup()\<close>, then the \<^verbatim>\<open>eventfd\<close> is
  readable, so \<^verbatim>\<open>epoll_wait\<close> returns, and the loop thread by itself reaches the test of \<^verbatim>\<open>quit_\<close>
  with everything queued run; with \<^verbatim>\<open>quit_\<close> set it then returns.
\<close>

theorem loop_wakes_and_serves:
  assumes "w_reachable s" and "w_pc s = Polling" and "\<forall>i. w_callers s i = Idle"
    and "w_pending s \<noteq> [] \<or> w_quit s"
  shows "0 < w_counter s \<and> (\<exists>t. loop_step\<^sup>*\<^sup>* s t \<and> w_pending t = [] \<and> w_ran t = w_queued s \<and>
    w_pc t = (if w_quit s then Returned else AtTest))"
proof -
  have inv: "wakeup_inv s" using assms(1) by (rule reachable_wakeup_inv)
  have pos: "0 < w_counter s" using inv assms(2-4) by (auto simp: wakeup_inv_def will_swap_def some_caller_def)
  have q: "w_ran s @ w_pending s = w_queued s"
    using inv assms(2) by (auto simp: wakeup_inv_def)
  have "loop_step s (s\<lparr>w_pc := Handling True\<rparr>)" using assms(2) pos by (simp add: poll_returns)
  moreover obtain t where t: "loop_step\<^sup>*\<^sup>* (s\<lparr>w_pc := Handling True\<rparr>) t" "w_pc t = AtTest"
      "w_ran t = w_queued s" "w_pending t = []" "w_quit t = w_quit s"
    using finish_iteration [of "s\<lparr>w_pc := Handling True\<rparr>" True] q by auto
  ultimately have st: "loop_step\<^sup>*\<^sup>* s t" by (simp add: converse_rtranclp_into_rtranclp)
  show ?thesis
  proof (cases "w_quit s")
    case True
    then have "loop_step t (t\<lparr>w_pc := Returned\<rparr>)" using test_quit [of t] t by simp
    with st have "loop_step\<^sup>*\<^sup>* s (t\<lparr>w_pc := Returned\<rparr>)" by (rule rtranclp.rtrancl_into_rtrancl)
    with True pos t show ?thesis by (intro conjI exI [of _ "t\<lparr>w_pc := Returned\<rparr>"]) simp_all
  next
    case False
    with pos st t show ?thesis by (intro conjI exI [of _ t]) simp_all
  qed
qed

theorem loop_wakes_and_serves_witness:
  "w_pc w_woken = Polling \<and> (\<exists>t. loop_step\<^sup>*\<^sup>* w_woken t \<and> w_ran t = [Bind_user 7] \<and> w_pc t = AtTest)"
  using loop_wakes_and_serves [OF w_woken_reachable]
  by (auto simp: w_woken_def w_polling_def w_init_def)

text \<open>
  C37: a \<^verbatim>\<open>quit\<close> that completes before the loop's thread enters \<^verbatim>\<open>loop()\<close> is lost: the entry clears
  \<^verbatim>\<open>quit_\<close>, and there is a run in which the \<^verbatim>\<open>quit\<close> has returned to its caller, the wake-up it wrote
  has been consumed, and the loop sleeps with nothing left to wake it. The destructor of
  \<^verbatim>\<open>EventLoopThread\<close>, which calls \<^verbatim>\<open>quit\<close> and then joins the thread, can hang this way.
\<close>

theorem quit_before_loop_is_lost:
  "\<exists>a b s. caller_step 3 w_init a \<and> w_quit a \<and> caller_step 3 a b \<and> w_callers b = (\<lambda>_. Idle) \<and>
     loop_step\<^sup>*\<^sup>* b s \<and> w_pc s = Polling \<and> w_counter s = 0 \<and> \<not> w_quit s \<and> w_callers s = (\<lambda>_. Idle)"
proof -
  let ?a = "w_init\<lparr>w_quit := True, w_callers := (w_callers w_init)(3 := QuitSet)\<rparr>"
  have a: "caller_step 3 w_init ?a" by (rule caller_quit) (simp add: w_init_def)
  let ?b = "w_init\<lparr>w_quit := True, w_counter := 1\<rparr>"
  have "?b = ?a\<lparr>w_counter := bump (w_counter ?a), w_callers := (w_callers ?a)(3 := Idle)\<rparr>"
    by (simp add: w_init_def bump_def fun_eq_iff)
  then have b: "caller_step 3 ?a ?b" using caller_wakeup [of ?a 3] by simp
  let ?p = "w_init\<lparr>w_counter := 1, w_pc := Polling\<rparr>"
  have p: "loop_step\<^sup>*\<^sup>* ?b ?p"
    using enter [of ?b] test_quit [of "?b\<lparr>w_quit := False, w_pc := AtTest\<rparr>"]
    by (simp add: w_init_def rtranclp.rtrancl_into_rtrancl)
  let ?h = "?p\<lparr>w_counter := 0, w_pc := Handling False\<rparr>"
  have "loop_step\<^sup>*\<^sup>* ?p ?h"
    using poll_returns [of ?p True] handle_wakeup [of "?p\<lparr>w_pc := Handling True\<rparr>"]
    by (simp add: rtranclp.rtrancl_into_rtrancl)
  moreover let ?d = "?h\<lparr>w_pc := AtTest\<rparr>"
  have "loop_step\<^sup>*\<^sup>* ?h ?d"
    using events_done [of ?h] set_calling [of "?h\<lparr>w_pc := SetCalling\<rparr>"]
      swap [of "?h\<lparr>w_pc := Swap, w_calling := True\<rparr>"]
      functors_done [of "?h\<lparr>w_pc := Running, w_calling := True\<rparr>"]
      clear_calling [of "?h\<lparr>w_pc := ClearCalling, w_calling := True\<rparr>"]
    by (simp add: w_init_def rtranclp.rtrancl_into_rtrancl)
  moreover have "loop_step ?d (?d\<lparr>w_pc := Polling\<rparr>)" using test_quit [of ?d] by (simp add: w_init_def)
  ultimately have "loop_step\<^sup>*\<^sup>* ?b (?d\<lparr>w_pc := Polling\<rparr>)"
    using p by (meson rtranclp.rtrancl_into_rtrancl rtranclp_trans)
  with a b show ?thesis
    by (intro exI [of _ ?a] exI [of _ ?b] exI [of _ "?d\<lparr>w_pc := Polling\<rparr>"] conjI) (simp_all add: w_init_def)
qed

end
