(* ===== verification/LoopRefines.thy ===== *)
theory LoopRefines
  imports Wakeup
begin

text \<open>
  The methods of \<open>EventLoop\<close> as runs of the protocol of \<open>Wakeup\<close>: each call of \<^verbatim>\<open>queueInLoop\<close>, \<^verbatim>\<open>quit\<close>, \<^verbatim>\<open>handleRead\<close> and
  \<^verbatim>\<open>doPendingFunctors\<close>, which \<open>EventLoop\<close> has as one function, is a sequence of the actions that \<open>Wakeup\<close>
  interleaves, on the same queue, flags and counter.
\<close>

section \<open>The protocol state of a loop\<close>

text \<open>What is observed of the \<^verbatim>\<open>eventfd\<close>: its counter. \<^verbatim>\<open>write\<close> of 1 adds to it, \<^verbatim>\<open>read\<close> resets it, closing another
  descriptor leaves it alone.\<close>

definition eventfd_contract :: "'k os \<Rightarrow> ('k \<Rightarrow> nat) \<Rightarrow> fd \<Rightarrow> bool" where
  "eventfd_contract os counter f \<longleftrightarrow> (\<forall>k. counter (snd (sys_write os f one_bytes k)) = bump (counter k)) \<and>
     (\<forall>k. counter (snd (sys_read os f 8 k)) = 0) \<and> (\<forall>g k. counter (sys_close os g k) = counter k)"

text \<open>The members of the loop and the counter; the program counters, the vector that is being gone through and the
  history are those of a run.\<close>

definition protocol_state ::
  "('k \<Rightarrow> nat) \<Rightarrow> loop_ptr \<Rightarrow> loop_pc \<Rightarrow> (nat \<Rightarrow> caller_pc) \<Rightarrow> task list \<Rightarrow> task list \<Rightarrow> task list \<Rightarrow> ('k, 'z) reactor_scheme \<Rightarrow> wstate" where
  "protocol_state counter l pc callers loc q r s =
     \<lparr>w_pc = pc, w_pending = el_pendingFunctors (loops s l), w_local = loc, w_calling = el_callingPendingFunctors (loops s l),
      w_quit = el_quit (loops s l), w_counter = counter (kern s), w_callers = callers, w_queued = q, w_ran = r\<rparr>"

lemmas protocol_defs = protocol_state_def push_def

lemma wakeup_counter:
  assumes "eventfd_contract os counter (el_wakeupFd (loops s l))"
  shows "counter (kern (EventLoop_wakeup os l s)) = bump (counter (kern s))"
  using assms by (simp add: eventfd_contract_def EventLoop_wakeup_def Let_def split: prod.splits) (metis snd_conv)

lemma handleRead_counter:
  assumes "eventfd_contract os counter (el_wakeupFd (loops s l))"
  shows "counter (kern (EventLoop_handleRead os l s)) = 0"
  using assms by (simp add: eventfd_contract_def EventLoop_handleRead_def Let_def split: prod.splits) (metis snd_conv)

lemma queue_counter:
  assumes "eventfd_contract os counter (el_wakeupFd (loops s l))"
  shows "counter (kern (EventLoop_queueInLoop os l t s)) =
    (if \<not> EventLoop_isInLoopThread l s \<or> el_callingPendingFunctors (loops s l) then bump (counter (kern s)) else counter (kern s))"
  using assms by (simp add: EventLoop_queueInLoop_def Let_def EventLoop_isInLoopThread_def wakeup_counter)

lemma quit_counter:
  assumes "eventfd_contract os counter (el_wakeupFd (loops s l))"
  shows "counter (kern (EventLoop_quit os l s)) =
    (if \<not> EventLoop_isInLoopThread l s then bump (counter (kern s)) else counter (kern s))"
  using assms by (simp add: EventLoop_quit_def Let_def EventLoop_isInLoopThread_def wakeup_counter)

lemma release_counter:
  assumes "eventfd_contract os counter f"
  shows "counter (kern (fold (release_task os) ts s)) = counter (kern s)"
  using assms
  by (induction ts arbitrary: s)
    (simp_all add: release_task_def release_def TcpConnection_dtor_def Socket_dtor_def eventfd_contract_def Let_def split: option.split)

section \<open>Calls as runs\<close>

text \<open>From another thread: the push, then the wake-up.\<close>

lemma queue_from_outside:
  fixes s :: "('k, 'z) reactor_scheme"
  assumes c: "eventfd_contract os counter (el_wakeupFd (loops s l))" and i: "callers i = Idle" and out: "\<not> EventLoop_isInLoopThread l s"
  shows "\<exists>u. caller_step i (protocol_state counter l pc callers loc q r s) u \<and>
    caller_step i u (protocol_state counter l pc callers loc (q @ [t]) r (EventLoop_queueInLoop os l t s))"
proof -
  let ?s = "protocol_state counter l pc callers loc q r s"
  let ?u = "push t ?s\<lparr>w_callers := (w_callers ?s)(i := Pushed)\<rparr>"
  have "caller_step i ?s ?u" by (rule caller_push) (simp add: protocol_defs i)
  moreover have "caller_step i ?u (?u\<lparr>w_counter := bump (w_counter ?u), w_callers := (w_callers ?u)(i := Idle)\<rparr>)"
    by (rule caller_wakeup) simp
  moreover have "?u\<lparr>w_counter := bump (w_counter ?u), w_callers := (w_callers ?u)(i := Idle)\<rparr> =
      protocol_state counter l pc callers loc (q @ [t]) r (EventLoop_queueInLoop os l t s)"
    using i out by (simp add: protocol_defs queue_counter [OF c] fun_eq_iff)
  ultimately show ?thesis by auto
qed

lemma quit_from_outside:
  fixes s :: "('k, 'z) reactor_scheme"
  assumes c: "eventfd_contract os counter (el_wakeupFd (loops s l))" and i: "callers i = Idle" and out: "\<not> EventLoop_isInLoopThread l s"
  shows "\<exists>u. caller_step i (protocol_state counter l pc callers loc q r s) u \<and>
    caller_step i u (protocol_state counter l pc callers loc q r (EventLoop_quit os l s))"
proof -
  let ?s = "protocol_state counter l pc callers loc q r s"
  let ?u = "?s\<lparr>w_quit := True, w_callers := (w_callers ?s)(i := QuitSet)\<rparr>"
  have "caller_step i ?s ?u" by (rule caller_quit) (simp add: protocol_defs i)
  moreover have "caller_step i ?u (?u\<lparr>w_counter := bump (w_counter ?u), w_callers := (w_callers ?u)(i := Idle)\<rparr>)"
    by (rule caller_wakeup) simp
  moreover have "?u\<lparr>w_counter := bump (w_counter ?u), w_callers := (w_callers ?u)(i := Idle)\<rparr> =
      protocol_state counter l pc callers loc q r (EventLoop_quit os l s)"
    using i out by (simp add: protocol_defs quit_counter [OF c] fun_eq_iff)
  ultimately show ?thesis by auto
qed

text \<open>From the loop's own thread, in a callback or a functor.\<close>

lemma queue_from_inside:
  fixes s :: "('k, 'z) reactor_scheme"
  assumes c: "eventfd_contract os counter (el_wakeupFd (loops s l))" and own: "EventLoop_isInLoopThread l s"
    and pc: "pc = Running \<or> pc = Handling w"
  shows "loop_step\<^sup>*\<^sup>* (protocol_state counter l pc callers loc q r s)
    (protocol_state counter l pc callers loc (q @ [t]) r (EventLoop_queueInLoop os l t s))"
proof -
  let ?s = "protocol_state counter l pc callers loc q r s"
  define pc' where "pc' = (if pc = Running then RunningPushed else HandlingPushed w)"
  let ?u = "push t ?s\<lparr>w_pc := pc'\<rparr>"
  have "loop_step ?s ?u"
    using pc functor_queues [of ?s t] event_queues [of ?s w t] by (auto simp: protocol_defs pc'_def)
  moreover have "loop_step ?u (?u\<lparr>w_counter := (if w_calling ?u then bump (w_counter ?u) else w_counter ?u), w_pc := pc\<rparr>)"
    using pc functor_queued [of ?u] event_queued [of ?u w] by (auto simp: pc'_def)
  moreover have "?u\<lparr>w_counter := (if w_calling ?u then bump (w_counter ?u) else w_counter ?u), w_pc := pc\<rparr> =
      protocol_state counter l pc callers loc (q @ [t]) r (EventLoop_queueInLoop os l t s)"
    using own by (simp add: protocol_defs queue_counter [OF c])
  ultimately show ?thesis by (metis converse_rtranclp_into_rtranclp r_into_rtranclp)
qed

lemma quit_from_inside:
  fixes s :: "('k, 'z) reactor_scheme"
  assumes c: "eventfd_contract os counter (el_wakeupFd (loops s l))" and own: "EventLoop_isInLoopThread l s"
    and pc: "pc = Running \<or> pc = Handling w"
  shows "loop_step (protocol_state counter l pc callers loc q r s) (protocol_state counter l pc callers loc q r (EventLoop_quit os l s))"
proof -
  let ?s = "protocol_state counter l pc callers loc q r s"
  have "loop_step ?s (?s\<lparr>w_quit := True\<rparr>)"
    using pc functor_quits [of ?s] event_quits [of ?s w] by (auto simp: protocol_defs)
  moreover have "?s\<lparr>w_quit := True\<rparr> = protocol_state counter l pc callers loc q r (EventLoop_quit os l s)"
    using own by (simp add: protocol_defs quit_counter [OF c])
  ultimately show ?thesis by simp
qed

lemma handleRead_consumes:
  fixes s :: "('k, 'z) reactor_scheme"
  assumes c: "eventfd_contract os counter (el_wakeupFd (loops s l))"
  shows "loop_step (protocol_state counter l (Handling True) callers loc q r s)
    (protocol_state counter l (Handling False) callers loc q r (EventLoop_handleRead os l s))"
proof -
  let ?s = "protocol_state counter l (Handling True) callers loc q r s"
  have "loop_step ?s (?s\<lparr>w_counter := 0, w_pc := Handling False\<rparr>)" by (rule handle_wakeup) (simp add: protocol_defs)
  then show ?thesis by (simp add: protocol_defs handleRead_counter [OF c])
qed

section \<open>The batch of functors\<close>

text \<open>A functor works through the loop's own calls: from its start to its end the protocol makes a run between two states
  \<^const>\<open>Running\<close>, in the loop's thread.\<close>

definition at_home :: "loop_ptr \<Rightarrow> fd \<Rightarrow> ('k, 'z) reactor_scheme \<Rightarrow> bool" where
  "at_home l f s \<longleftrightarrow> EventLoop_isInLoopThread l s \<and> el_wakeupFd (loops s l) = f"

definition follows_protocol ::
  "('k \<Rightarrow> nat) \<Rightarrow> loop_ptr \<Rightarrow> fd \<Rightarrow> (('k, 'z) reactor_scheme \<Rightarrow> ('k, 'z) reactor_scheme result) \<Rightarrow> bool" where
  "follows_protocol counter l f call \<longleftrightarrow> (\<forall>s s' callers loc q r. at_home l f s \<longrightarrow> call s = Inr s' \<longrightarrow>
     at_home l f s' \<and> (\<exists>q'. loop_step\<^sup>*\<^sup>* (protocol_state counter l Running callers loc q r s)
       (protocol_state counter l Running callers loc q' r s')))"

lemma follows_protocolI:
  assumes "\<And>s s' callers loc q r. at_home l f s \<Longrightarrow> call s = Inr s' \<Longrightarrow> at_home l f s' \<and>
    (\<exists>q'. loop_step\<^sup>*\<^sup>* (protocol_state counter l Running callers loc q r s) (protocol_state counter l Running callers loc q' r s'))"
  shows "follows_protocol counter l f call"
  using assms unfolding follows_protocol_def by blast

text \<open>The calls of a loop's own methods do, one after the other too.\<close>

lemma follows_protocol_queue:
  assumes "eventfd_contract os counter f"
  shows "follows_protocol counter l f (\<lambda>s. Inr (EventLoop_queueInLoop os l t s))"
proof (rule follows_protocolI)
  fix s s' :: "('a, 'b) reactor_scheme" and callers loc q r
  assume h: "at_home l f s" and s': "Inr (EventLoop_queueInLoop os l t s) = Inr s'"
  have c: "eventfd_contract os counter (el_wakeupFd (loops s l))" using assms h by (simp add: at_home_def)
  have "EventLoop_isInLoopThread l s" using h by (simp add: at_home_def)
  from queue_from_inside [OF c this, of Running _ callers loc q r t] s' h
  show "at_home l f s' \<and> (\<exists>q'. loop_step\<^sup>*\<^sup>* (protocol_state counter l Running callers loc q r s)
      (protocol_state counter l Running callers loc q' r s'))"
    by (intro conjI exI [of _ "q @ [t]"]) (auto simp: at_home_def EventLoop_isInLoopThread_def)
qed

lemma follows_protocol_quit:
  assumes "eventfd_contract os counter f"
  shows "follows_protocol counter l f (\<lambda>s. Inr (EventLoop_quit os l s))"
proof (rule follows_protocolI)
  fix s s' :: "('a, 'b) reactor_scheme" and callers loc q r
  assume h: "at_home l f s" and s': "Inr (EventLoop_quit os l s) = Inr s'"
  have c: "eventfd_contract os counter (el_wakeupFd (loops s l))" using assms h by (simp add: at_home_def)
  have "EventLoop_isInLoopThread l s" using h by (simp add: at_home_def)
  from quit_from_inside [OF c this, of Running _ callers loc q r] s' h
  show "at_home l f s' \<and> (\<exists>q'. loop_step\<^sup>*\<^sup>* (protocol_state counter l Running callers loc q r s)
      (protocol_state counter l Running callers loc q' r s'))"
    by (intro conjI exI [of _ q]) (auto simp: at_home_def EventLoop_isInLoopThread_def)
qed

lemma follows_protocol_then:
  assumes "follows_protocol counter l f g" and "follows_protocol counter l f h"
  shows "follows_protocol counter l f (\<lambda>s. and_then (g s) h)"
  using assms unfolding follows_protocol_def and_then_eq_Inr by (meson rtranclp_trans)

lemma follows_protocol_skip: "follows_protocol counter l f Inr"
  unfolding follows_protocol_def by blast

lemma functors_run:
  fixes s s' :: "('k, 'z) reactor_scheme"
  assumes call: "\<And>t. t \<in> set ts \<Longrightarrow> follows_protocol counter l f (call t)"
  shows "at_home l f s \<Longrightarrow> for_each call ts s = Inr s' \<Longrightarrow> at_home l f s' \<and>
    (\<exists>q'. loop_step\<^sup>*\<^sup>* (protocol_state counter l Running callers ts q r s) (protocol_state counter l Running callers [] q' (r @ ts) s'))"
  using call
proof (induction ts arbitrary: s q r)
  case Nil
  then show ?case by auto
next
  case (Cons t ts)
  then obtain s1 where s1: "call t s = Inr s1" "for_each call ts s1 = Inr s'" by (auto simp: and_then_eq_Inr)
  have first: "loop_step (protocol_state counter l Running callers (t # ts) q r s) (protocol_state counter l Running callers ts q (r @ [t]) s)"
    using run_functor [of "protocol_state counter l Running callers (t # ts) q r s" t ts] by (simp add: protocol_defs)
  have "follows_protocol counter l f (call t)" using Cons.prems(3) by simp
  with Cons.prems(1) s1(1) obtain q1 where q1: "at_home l f s1"
      "loop_step\<^sup>*\<^sup>* (protocol_state counter l Running callers ts q (r @ [t]) s) (protocol_state counter l Running callers ts q1 (r @ [t]) s1)"
    unfolding follows_protocol_def by blast
  obtain q' where "at_home l f s'" "loop_step\<^sup>*\<^sup>* (protocol_state counter l Running callers ts q1 (r @ [t]) s1)
      (protocol_state counter l Running callers [] q' ((r @ [t]) @ ts) s')"
    using Cons.IH [OF q1(1) s1(2), of q1 "r @ [t]"] Cons.prems(3) by auto
  with first q1(2) show ?case
    by (intro conjI exI [of _ q']) (auto intro: converse_rtranclp_into_rtranclp rtranclp_trans)
qed

lemma doPendingFunctors_runs:
  fixes s s' :: "('k, 'z) reactor_scheme"
  assumes c: "eventfd_contract os counter f" and h: "at_home l f s"
    and call: "\<And>t. t \<in> set (el_pendingFunctors (loops s l)) \<Longrightarrow> follows_protocol counter l f (call t)"
    and run: "EventLoop_doPendingFunctors os call l s = Inr s'"
  shows "\<exists>q'. loop_step\<^sup>*\<^sup>* (protocol_state counter l (Handling False) callers [] q r s)
    (protocol_state counter l AtTest callers [] q' (r @ el_pendingFunctors (loops s l)) s')"
proof -
  let ?ts = "el_pendingFunctors (loops s l)" and ?v = "protocol_state counter l"
  let ?s1 = "upd_loop l (\<lambda>e. e\<lparr>el_callingPendingFunctors := True, el_pendingFunctors := []\<rparr>) s"
  obtain s2 where s2: "for_each call ?ts ?s1 = Inr s2"
    and s': "s' = fold (release_task os) ?ts (upd_loop l (\<lambda>e. e\<lparr>el_callingPendingFunctors := False\<rparr>) s2)"
    using run by (auto simp: EventLoop_doPendingFunctors_def Let_def and_then_eq_Inr)
  let ?a = "?v (Handling False) callers [] q r s"
  let ?b = "?a\<lparr>w_pc := SetCalling\<rparr>" let ?c = "?b\<lparr>w_calling := True, w_pc := Swap\<rparr>"
  have "loop_step ?a ?b" by (rule events_done) (simp add: protocol_defs)
  moreover have "loop_step ?b ?c" by (rule set_calling) simp
  moreover have "loop_step ?c (?v Running callers ?ts q r ?s1)"
    using swap [of ?c] by (simp add: protocol_defs)
  ultimately have start: "loop_step\<^sup>*\<^sup>* ?a (?v Running callers ?ts q r ?s1)"
    by (meson converse_rtranclp_into_rtranclp r_into_rtranclp)
  have "at_home l f ?s1" using h by (simp add: at_home_def EventLoop_isInLoopThread_def)
  from functors_run [OF call this s2] obtain q' where
      batch: "loop_step\<^sup>*\<^sup>* (?v Running callers ?ts q r ?s1) (?v Running callers [] q' (r @ ?ts) s2)" by blast
  let ?d = "?v Running callers [] q' (r @ ?ts) s2" let ?e = "?d\<lparr>w_pc := ClearCalling\<rparr>"
  have "loop_step ?d ?e" by (rule functors_done) (simp_all add: protocol_defs)
  moreover have "loop_step ?e (?v AtTest callers [] q' (r @ ?ts) s')"
    using clear_calling [of ?e] by (simp add: protocol_defs s' release_counter [OF c])
  ultimately show ?thesis using start batch by (meson rtranclp.rtrancl_into_rtrancl rtranclp_trans)
qed

section \<open>Properties\<close>


text \<open>A kernel that counts, and a functor that queues another.\<close>

definition counting_os :: "sim os" where
  "counting_os = sim_os\<lparr>sys_write := (\<lambda>f bs k. if bs = one_bytes
     then ((8, 0), k\<lparr>sim_eventfd := (sim_eventfd k)(f := bump (sim_eventfd k f))\<rparr>) else sim_write f bs k)\<rparr>"

lemma counting_eventfd: "eventfd_contract counting_os (\<lambda>k. sim_eventfd k f) f"
  by (simp add: eventfd_contract_def counting_os_def sim_os_def)

definition relay :: "task \<Rightarrow> sim reactor \<Rightarrow> sim reactor result" where
  "relay t s = Inr (if t = Bind_user 2 then EventLoop_queueInLoop counting_os 0 (Bind_user 7) s else s)"


end
