(* ===== verification/LoopThread.thy ===== *)
theory LoopThread
  imports Main
begin

text \<open>
  \<^verbatim>\<open>EventLoopThread.cpp\<close> with \<^verbatim>\<open>Thread::start\<close>: the hand-over of the new thread's loop to the thread
  that calls \<^verbatim>\<open>startLoop\<close>, under interleaving. The starter creates the thread, waits on a
  semaphore for its id, then on a condition variable for \<^verbatim>\<open>loop_\<close>; the new thread stores its id,
  posts, builds the loop, runs the initialisation callback, publishes the loop under the mutex,
  notifies, and runs the loop; when the loop returns it clears \<^verbatim>\<open>loop_\<close>. A step is one action on
  shared data. Waiting on the condition variable may end spuriously.
\<close>

section \<open>States\<close>

datatype starter_pc = SStart | SSemWait | SLock | STest | SWait | SRelock | SReturned

datatype thread_pc = TNone | TTid | TPost | TConstruct | TInit | TLock | TPublish | TNotify | TUnlock
  | TLooping | TRelock | TClear | TDone

datatype owner = Starter | Looper

record hstate =
  h_spc :: starter_pc
  h_tpc :: thread_pc
  h_sem :: nat
  h_mutex :: "owner option"
  h_tid :: bool
  h_built :: bool
  h_inited :: bool
  h_loop :: bool

text \<open>\<^const>\<open>h_tid\<close>: \<^verbatim>\<open>tid_\<close> is stored; \<^const>\<open>h_built\<close>: the loop object on the new thread's stack
  exists; \<^const>\<open>h_inited\<close>: the initialisation callback has returned; \<^const>\<open>h_loop\<close>: \<^verbatim>\<open>loop_\<close> is not
  null.\<close>

definition h_init :: hstate where
  "h_init = \<lparr>h_spc = SStart, h_tpc = TNone, h_sem = 0, h_mutex = None, h_tid = False, h_built = False,
     h_inited = False, h_loop = False\<rparr>"

section \<open>Steps\<close>

text \<open>The caller of \<^verbatim>\<open>startLoop\<close>.\<close>

inductive starter_step :: "hstate \<Rightarrow> hstate \<Rightarrow> bool" where
  create: "h_spc s = SStart \<Longrightarrow> starter_step s (s\<lparr>h_spc := SSemWait, h_tpc := TTid\<rparr>)"
| sem_wait: "h_spc s = SSemWait \<Longrightarrow> 0 < h_sem s \<Longrightarrow> starter_step s (s\<lparr>h_sem := h_sem s - 1, h_spc := SLock\<rparr>)"
| lock: "h_spc s = SLock \<Longrightarrow> h_mutex s = None \<Longrightarrow> starter_step s (s\<lparr>h_mutex := Some Starter, h_spc := STest\<rparr>)"
| found: "h_spc s = STest \<Longrightarrow> h_loop s \<Longrightarrow> starter_step s (s\<lparr>h_mutex := None, h_spc := SReturned\<rparr>)"
| wait: "h_spc s = STest \<Longrightarrow> \<not> h_loop s \<Longrightarrow> starter_step s (s\<lparr>h_mutex := None, h_spc := SWait\<rparr>)"
| relock: "h_spc s = SRelock \<Longrightarrow> h_mutex s = None \<Longrightarrow> starter_step s (s\<lparr>h_mutex := Some Starter, h_spc := STest\<rparr>)"

text \<open>The new thread, up to the running loop.\<close>

inductive thread_step :: "hstate \<Rightarrow> hstate \<Rightarrow> bool" where
  store_tid: "h_tpc s = TTid \<Longrightarrow> thread_step s (s\<lparr>h_tid := True, h_tpc := TPost\<rparr>)"
| post: "h_tpc s = TPost \<Longrightarrow> thread_step s (s\<lparr>h_sem := h_sem s + 1, h_tpc := TConstruct\<rparr>)"
| construct: "h_tpc s = TConstruct \<Longrightarrow> thread_step s (s\<lparr>h_built := True, h_tpc := TInit\<rparr>)"
| init: "h_tpc s = TInit \<Longrightarrow> thread_step s (s\<lparr>h_inited := True, h_tpc := TLock\<rparr>)"
| thread_lock: "h_tpc s = TLock \<Longrightarrow> h_mutex s = None \<Longrightarrow>
    thread_step s (s\<lparr>h_mutex := Some Looper, h_tpc := TPublish\<rparr>)"
| publish: "h_tpc s = TPublish \<Longrightarrow> thread_step s (s\<lparr>h_loop := True, h_tpc := TNotify\<rparr>)"
| notify: "h_tpc s = TNotify \<Longrightarrow>
    thread_step s (s\<lparr>h_spc := (if h_spc s = SWait then SRelock else h_spc s), h_tpc := TUnlock\<rparr>)"
| unlock: "h_tpc s = TUnlock \<Longrightarrow> thread_step s (s\<lparr>h_mutex := None, h_tpc := TLooping\<rparr>)"

definition handshake_step :: "hstate \<Rightarrow> hstate \<Rightarrow> bool" where
  "handshake_step s t \<longleftrightarrow> starter_step s t \<or> thread_step s t"

text \<open>The return of \<^verbatim>\<open>loop()\<close> and the end of \<^verbatim>\<open>threadFunc\<close>.\<close>

inductive exit_step :: "hstate \<Rightarrow> hstate \<Rightarrow> bool" where
  loop_returns: "h_tpc s = TLooping \<Longrightarrow> exit_step s (s\<lparr>h_tpc := TRelock\<rparr>)"
| exit_lock: "h_tpc s = TRelock \<Longrightarrow> h_mutex s = None \<Longrightarrow> exit_step s (s\<lparr>h_mutex := Some Looper, h_tpc := TClear\<rparr>)"
| clear: "h_tpc s = TClear \<Longrightarrow>
    exit_step s (s\<lparr>h_loop := False, h_mutex := None, h_built := False, h_tpc := TDone\<rparr>)"

inductive spurious_step :: "hstate \<Rightarrow> hstate \<Rightarrow> bool" where
  spurious: "h_spc s = SWait \<Longrightarrow> spurious_step s (s\<lparr>h_spc := SRelock\<rparr>)"

definition hstep :: "hstate \<Rightarrow> hstate \<Rightarrow> bool" where
  "hstep s t \<longleftrightarrow> handshake_step s t \<or> exit_step s t \<or> spurious_step s t"

inductive h_reachable :: "hstate \<Rightarrow> bool" where
  h_start: "h_reachable h_init"
| h_step: "h_reachable s \<Longrightarrow> hstep s t \<Longrightarrow> h_reachable t"

section \<open>Invariant\<close>

definition mutex_of :: "starter_pc \<Rightarrow> thread_pc \<Rightarrow> owner option" where
  "mutex_of spc tpc = (if spc = STest then Some Starter
     else if tpc \<in> {TPublish, TNotify, TUnlock, TClear} then Some Looper else None)"

text \<open>Which program counters go together.\<close>

fun compatible :: "starter_pc \<Rightarrow> thread_pc \<Rightarrow> bool" where
  "compatible SStart tpc \<longleftrightarrow> tpc = TNone"
| "compatible SSemWait tpc \<longleftrightarrow> tpc \<noteq> TNone"
| "compatible SLock tpc \<longleftrightarrow> tpc \<notin> {TNone, TTid, TPost}"
| "compatible STest tpc \<longleftrightarrow> tpc \<in> {TConstruct, TInit, TLock, TLooping, TRelock, TDone}"
| "compatible SWait tpc \<longleftrightarrow> tpc \<in> {TConstruct, TInit, TLock, TPublish, TNotify, TDone}"
| "compatible SRelock tpc \<longleftrightarrow> tpc \<notin> {TNone, TTid, TPost}"
| "compatible SReturned tpc \<longleftrightarrow> tpc \<in> {TLooping, TRelock, TClear, TDone}"

definition handshake_inv :: "hstate \<Rightarrow> bool" where
  "handshake_inv s \<longleftrightarrow>
     compatible (h_spc s) (h_tpc s) \<and>
     h_mutex s = mutex_of (h_spc s) (h_tpc s) \<and>
     h_loop s = (h_tpc s \<in> {TNotify, TUnlock, TLooping, TRelock, TClear}) \<and>
     h_tid s = (h_tpc s \<notin> {TNone, TTid}) \<and>
     h_built s = (h_tpc s \<notin> {TNone, TTid, TPost, TConstruct, TDone}) \<and>
     h_inited s = (h_tpc s \<notin> {TNone, TTid, TPost, TConstruct, TInit}) \<and>
     h_sem s = (if h_spc s = SSemWait \<and> h_tpc s \<notin> {TNone, TTid, TPost} then 1 else 0)"

lemma starter_step_inv: "starter_step s t \<Longrightarrow> handshake_inv s \<Longrightarrow> handshake_inv t"
  by (erule starter_step.cases; cases "h_tpc s"; simp add: handshake_inv_def mutex_of_def split: if_splits)

lemma thread_step_inv: "thread_step s t \<Longrightarrow> handshake_inv s \<Longrightarrow> handshake_inv t"
  by (erule thread_step.cases; cases "h_spc s"; simp add: handshake_inv_def mutex_of_def split: if_splits)

lemma exit_step_inv: "exit_step s t \<Longrightarrow> handshake_inv s \<Longrightarrow> handshake_inv t"
  by (erule exit_step.cases; cases "h_spc s"; simp add: handshake_inv_def mutex_of_def split: if_splits)

lemma spurious_step_inv: "spurious_step s t \<Longrightarrow> handshake_inv s \<Longrightarrow> handshake_inv t"
  by (erule spurious_step.cases; cases "h_tpc s"; simp add: handshake_inv_def mutex_of_def split: if_splits)

lemmas step_invs = starter_step_inv thread_step_inv exit_step_inv spurious_step_inv

lemma hstep_inv: "hstep s t \<Longrightarrow> handshake_inv s \<Longrightarrow> handshake_inv t"
  by (auto simp: hstep_def handshake_step_def intro: step_invs)

lemma h_reachable_inv: "h_reachable s \<Longrightarrow> handshake_inv s"
  by (induction rule: h_reachable.induct)
    (simp add: handshake_inv_def h_init_def mutex_of_def, blast intro: hstep_inv)

section \<open>Properties\<close>

lemma h_reach: "h_reachable s \<Longrightarrow> starter_step s t \<Longrightarrow> h_reachable t"
  "h_reachable s \<Longrightarrow> thread_step s t \<Longrightarrow> h_reachable t"
  "h_reachable s \<Longrightarrow> exit_step s t \<Longrightarrow> h_reachable t"
  by (auto intro: h_reachable.h_step simp: hstep_def handshake_step_def)

text \<open>The starter passes the semaphore, finds no loop yet and waits; then the thread publishes.\<close>

definition h_waiting :: hstate where
  "h_waiting = \<lparr>h_spc = SWait, h_tpc = TConstruct, h_sem = 0, h_mutex = None, h_tid = True, h_built = False,
     h_inited = False, h_loop = False\<rparr>"

lemma h_waiting_reachable: "h_reachable h_waiting"
proof -
  note r = h_reach(1) [OF h_start create, unfolded h_init_def, simplified]
  note r = h_reach(2) [OF r store_tid, simplified]
  note r = h_reach(2) [OF r post, simplified]
  note r = h_reach(1) [OF r sem_wait, simplified]
  note r = h_reach(1) [OF r lock, simplified]
  note r = h_reach(1) [OF r wait, simplified]
  then show ?thesis by (simp add: h_waiting_def)
qed

definition h_published :: hstate where
  "h_published = \<lparr>h_spc = SRelock, h_tpc = TLooping, h_sem = 0, h_mutex = None, h_tid = True, h_built = True,
     h_inited = True, h_loop = True\<rparr>"

lemma h_published_reachable: "h_reachable h_published"
proof -
  note r = h_reach(2) [OF h_waiting_reachable construct, unfolded h_waiting_def, simplified]
  note r = h_reach(2) [OF r init, simplified]
  note r = h_reach(2) [OF r thread_lock, simplified]
  note r = h_reach(2) [OF r publish, simplified]
  note r = h_reach(2) [OF r notify, simplified]
  note r = h_reach(2) [OF r unlock, simplified]
  then show ?thesis by (simp add: h_published_def)
qed

text \<open>The starter returns from the test only.\<close>

lemma returns_by_found:
  "starter_step s t \<Longrightarrow> h_spc s \<noteq> SReturned \<Longrightarrow> h_spc t = SReturned \<Longrightarrow> h_spc s = STest \<and> h_loop s \<and> h_tpc t = h_tpc s"
  "thread_step s t \<Longrightarrow> h_spc s \<noteq> SReturned \<Longrightarrow> h_spc t \<noteq> SReturned"
  "exit_step s t \<Longrightarrow> h_spc s \<noteq> SReturned \<Longrightarrow> h_spc t \<noteq> SReturned"
  "spurious_step s t \<Longrightarrow> h_spc s \<noteq> SReturned \<Longrightarrow> h_spc t \<noteq> SReturned"
  by (erule starter_step.cases; simp) (erule thread_step.cases exit_step.cases spurious_step.cases; simp)+

text \<open>
  C28: What \<^verbatim>\<open>startLoop\<close> returns is usable. Whatever the interleaving and however often the wait ends
  spuriously, when \<^verbatim>\<open>startLoop\<close> takes its result the new thread's id is stored, its loop object
  exists, the initialisation callback has run to its end on it, and the pointer taken is not
  null.
\<close>

theorem startLoop_returns_ready_loop:
  assumes "h_reachable s" and "hstep s t" and "h_spc s \<noteq> SReturned" and "h_spc t = SReturned"
  shows "h_loop s \<and> h_built t \<and> h_inited t \<and> h_tid t"
proof -
  have inv: "handshake_inv s" "handshake_inv t"
    using h_reachable_inv [OF assms(1)] hstep_inv [OF assms(2)] by blast+
  have "h_spc s = STest \<and> h_loop s \<and> h_tpc t = h_tpc s"
    using assms(2-4) returns_by_found unfolding hstep_def handshake_step_def by metis
  with inv show ?thesis by (cases "h_tpc s"; simp add: handshake_inv_def)
qed

theorem startLoop_returns_ready_loop_witness:
  "\<exists>s t. h_reachable s \<and> hstep s t \<and> h_spc t = SReturned \<and> h_loop s \<and> h_built t \<and> h_inited t \<and> h_tid t"
proof -
  let ?s = "h_published\<lparr>h_mutex := Some Starter, h_spc := STest\<rparr>"
  let ?t = "?s\<lparr>h_mutex := None, h_spc := SReturned\<rparr>"
  have "h_reachable ?s" by (rule h_reach(1) [OF h_published_reachable relock]) (simp_all add: h_published_def)
  moreover have "hstep ?s ?t" unfolding hstep_def handshake_step_def
    by (intro disjI1 found) (simp_all add: h_published_def)
  ultimately show ?thesis using startLoop_returns_ready_loop [of ?s ?t]
    by (intro exI [of _ ?s] exI [of _ ?t]) simp
qed

text \<open>The work left, with the starter's part weighted below any step of the thread.\<close>

fun thread_left :: "thread_pc \<Rightarrow> nat" where
  "thread_left TNone = 9" | "thread_left TTid = 8" | "thread_left TPost = 7" | "thread_left TConstruct = 6"
| "thread_left TInit = 5" | "thread_left TLock = 4" | "thread_left TPublish = 3" | "thread_left TNotify = 2"
| "thread_left TUnlock = 1" | "thread_left _ = 0"

fun starter_left :: "starter_pc \<Rightarrow> nat" where
  "starter_left SStart = 6" | "starter_left SSemWait = 5" | "starter_left SLock = 4" | "starter_left SRelock = 3"
| "starter_left STest = 2" | "starter_left SWait = 1" | "starter_left SReturned = 0"

definition work_left :: "hstate \<Rightarrow> nat" where
  "work_left s = 10 * thread_left (h_tpc s) + starter_left (h_spc s)"

lemma step_works: "handshake_step s t \<Longrightarrow> handshake_inv s \<Longrightarrow> work_left t < work_left s"
  unfolding handshake_step_def
  by (elim disjE starter_step.cases thread_step.cases) (auto simp: work_left_def handshake_inv_def split: if_splits)

lemma step_exists:
  assumes "handshake_inv s" and "h_tpc s \<notin> {TRelock, TClear, TDone}" and "h_spc s \<noteq> SReturned"
  shows "\<exists>t. handshake_step s t"
proof -
  consider "h_tpc s = TNone" | "h_spc s = STest" | "h_tpc s = TLooping" "h_spc s \<noteq> STest"
    | "h_tpc s \<notin> {TNone, TLooping}" "h_spc s \<noteq> STest" by blast
  then show ?thesis
  proof cases
    case 1
    with assms(1) have "h_spc s = SStart" by (cases "h_spc s"; simp add: handshake_inv_def)
    then show ?thesis unfolding handshake_step_def by (blast intro: create)
  next
    case 2
    then show ?thesis unfolding handshake_step_def by (cases "h_loop s") (blast intro: found wait)+
  next
    case 3
    with assms have "h_spc s = SSemWait \<and> 0 < h_sem s \<or> h_spc s \<in> {SLock, SRelock} \<and> h_mutex s = None"
      by (cases "h_spc s"; simp add: handshake_inv_def mutex_of_def)
    then show ?thesis unfolding handshake_step_def by (blast intro: sem_wait lock relock)
  next
    case 4
    with assms have "h_tpc s \<in> {TTid, TPost, TConstruct, TInit, TPublish, TNotify, TUnlock} \<or>
        h_tpc s = TLock \<and> h_mutex s = None"
      by (cases "h_tpc s"; simp add: handshake_inv_def mutex_of_def)
    then show ?thesis unfolding handshake_step_def by (blast intro: thread_step.intros)
  qed
qed

text \<open>
  C27: \<^verbatim>\<open>startLoop\<close> does not hang while the loop runs. In every reachable state in which the new thread's
  \<^verbatim>\<open>loop()\<close> has not returned and \<^verbatim>\<open>startLoop\<close> has not either, some step of the two threads is
  possible, and every such step brings \<^verbatim>\<open>startLoop\<close> closer to returning by a measure that is bounded
  by 96, so without spurious wake-ups it returns after at most that many steps.
\<close>

theorem startLoop_makes_progress:
  assumes "h_reachable s" and "h_tpc s \<notin> {TRelock, TClear, TDone}" and "h_spc s \<noteq> SReturned"
  shows "(\<exists>t. handshake_step s t) \<and> (\<forall>t. handshake_step s t \<longrightarrow> work_left t < work_left s) \<and> work_left s \<le> 96"
proof -
  have inv: "handshake_inv s" using assms(1) by (rule h_reachable_inv)
  have "work_left s \<le> 96" by (cases "h_tpc s"; cases "h_spc s") (simp_all add: work_left_def)
  with step_exists [OF inv assms(2,3)] step_works inv show ?thesis by blast
qed

theorem startLoop_makes_progress_witness:
  "(\<exists>t. handshake_step h_waiting t) \<and> \<not> (\<exists>t. handshake_step h_waiting t \<and> 61 \<le> work_left t)"
proof -
  have "work_left h_waiting = 61" by (simp add: work_left_def h_waiting_def)
  moreover have "h_tpc h_waiting \<notin> {TRelock, TClear, TDone}" "h_spc h_waiting \<noteq> SReturned"
    by (simp_all add: h_waiting_def)
  ultimately show ?thesis using startLoop_makes_progress [OF h_waiting_reachable] by (metis not_less)
qed

text \<open>After the thread has cleared the pointer no step leads the starter out of its loop.\<close>

definition hung :: "hstate \<Rightarrow> bool" where
  "hung s \<longleftrightarrow> h_tpc s = TDone \<and> \<not> h_loop s \<and> h_spc s \<in> {SWait, SRelock, STest}"

lemma hung_steps:
  "starter_step s t \<Longrightarrow> hung s \<Longrightarrow> hung t"
  "thread_step s t \<Longrightarrow> hung s \<Longrightarrow> hung t"
  "exit_step s t \<Longrightarrow> hung s \<Longrightarrow> hung t"
  "spurious_step s t \<Longrightarrow> hung s \<Longrightarrow> hung t"
  by (erule starter_step.cases thread_step.cases exit_step.cases spurious_step.cases; simp add: hung_def)+

lemma hung_forever: "hstep\<^sup>*\<^sup>* s t \<Longrightarrow> hung s \<Longrightarrow> hung t"
  by (induction rule: rtranclp_induct) (auto simp: hstep_def handshake_step_def intro: hung_steps)

text \<open>
  C38: \<^verbatim>\<open>startLoop\<close> can hang if the loop returns early. The loop pointer that the starter waits for is
  cleared again when \<^verbatim>\<open>loop()\<close> returns; if that happens after the notification and before the
  starter has the mutex again, the starter finds a null pointer, waits once more, and in no
  continuation, spurious wake-ups included, does it ever return.
\<close>

theorem startLoop_can_hang:
  "\<exists>s. h_reachable s \<and> h_spc s = SWait \<and> h_tpc s = TDone \<and> \<not> (\<exists>t. hstep\<^sup>*\<^sup>* s t \<and> h_spc t = SReturned)"
proof -
  note r = h_reach(3) [OF h_published_reachable loop_returns, unfolded h_published_def, simplified]
  note r = h_reach(3) [OF r exit_lock, simplified]
  note r = h_reach(3) [OF r clear, simplified]
  note r = h_reach(1) [OF r relock, simplified]
  note r = h_reach(1) [OF r wait, simplified]
  then have reach: "h_reachable \<lparr>h_spc = SWait, h_tpc = TDone, h_sem = 0, h_mutex = None, h_tid = True,
      h_built = False, h_inited = True, h_loop = False\<rparr>" (is "h_reachable ?s") .
  have "h_spc t \<noteq> SReturned" if "hstep\<^sup>*\<^sup>* ?s t" for t
  proof -
    have "hung t" by (rule hung_forever [OF that]) (simp add: hung_def)
    then show ?thesis by (auto simp: hung_def)
  qed
  with reach show ?thesis by (intro exI [of _ ?s]) auto
qed

end
