(* ===== verification/Buffer.thy ===== *)
theory Buffer
  imports Sim_Kernel
begin

text \<open>
  \<^verbatim>\<open>Buffer.h\<close> and \<^verbatim>\<open>Buffer.cpp\<close>: a growable byte buffer with a reader and a writer index into
  one array, \<^verbatim>\<open>kCheapPrepend\<close> reserved bytes in front. The indices and lengths are 64-bit
  words with the wrap-around of \<^verbatim>\<open>size_t\<close>; growing the vector beyond \<^verbatim>\<open>max_size()\<close> throws
  \<^verbatim>\<open>std::length_error\<close>; reading or writing outside the array is the outcome
  \<^const>\<open>OutOfBounds\<close>. The abstract view of a buffer is the byte string between the indices
  (\<open>contents\<close>): the operations refine the operations of a byte queue.
\<close>

section \<open>State\<close>

record buffer =
  buf :: "byte list"
  readerIndex :: size_t
  writerIndex :: size_t

definition kCheapPrepend :: size_t where
  "kCheapPrepend = 8"

definition kInitialSize :: size_t where
  "kInitialSize = 1024"

text \<open>\<^verbatim>\<open>std::vector<char>::max_size()\<close>: the largest \<^verbatim>\<open>ptrdiff_t\<close>.\<close>

definition vector_max_size :: nat where
  "vector_max_size = 2 ^ 63 - 1"

section \<open>Operations\<close>

definition Buffer_ctor :: "size_t \<Rightarrow> buffer result" where
  "Buffer_ctor initialSize =
     (let n = kCheapPrepend + initialSize in
      if vector_max_size < unat n then Inl LengthError
      else Inr \<lparr>buf = replicate (unat n) 0, readerIndex = kCheapPrepend, writerIndex = kCheapPrepend\<rparr>)"

definition readableBytes :: "buffer \<Rightarrow> size_t" where
  "readableBytes b = writerIndex b - readerIndex b"

definition writableBytes :: "buffer \<Rightarrow> size_t" where
  "writableBytes b = of_nat (length (buf b)) - writerIndex b"

definition prependableBytes :: "buffer \<Rightarrow> size_t" where
  "prependableBytes b = readerIndex b"

text \<open>\<^verbatim>\<open>peek()\<close> with the length read from it: the bytes \<^verbatim>\<open>[peek(), peek() + len)\<close>.\<close>

definition Buffer_peek :: "size_t \<Rightarrow> buffer \<Rightarrow> byte list result" where
  "Buffer_peek len b =
     (if unat (readerIndex b) + unat len \<le> length (buf b)
      then Inr (take (unat len) (drop (unat (readerIndex b)) (buf b)))
      else Inl OutOfBounds)"

definition Buffer_retrieveAll :: "buffer \<Rightarrow> buffer" where
  "Buffer_retrieveAll b = b\<lparr>readerIndex := kCheapPrepend, writerIndex := kCheapPrepend\<rparr>"

definition Buffer_retrieve :: "size_t \<Rightarrow> buffer \<Rightarrow> buffer" where
  "Buffer_retrieve len b =
     (if len < readableBytes b then b\<lparr>readerIndex := readerIndex b + len\<rparr>
      else Buffer_retrieveAll b)"

definition Buffer_retrieveAsString :: "size_t \<Rightarrow> buffer \<Rightarrow> (byte list \<times> buffer) result" where
  "Buffer_retrieveAsString len b =
     and_then (Buffer_peek len b) (\<lambda>res. Inr (res, Buffer_retrieve len b))"

definition Buffer_retrieveAllAsString :: "buffer \<Rightarrow> (byte list \<times> buffer) result" where
  "Buffer_retrieveAllAsString b = Buffer_retrieveAsString (readableBytes b) b"

definition Buffer_makeSpace :: "size_t \<Rightarrow> buffer \<Rightarrow> buffer result" where
  "Buffer_makeSpace len b =
     (if writableBytes b + prependableBytes b < len + kCheapPrepend then
        (let n = writerIndex b + len in
         if vector_max_size < unat n then Inl LengthError
         else Inr (b\<lparr>buf := vector_resize (unat n) 0 (buf b)\<rparr>))
      else
        (let readable = readableBytes b in
         Inr (b\<lparr>buf := copy_fwd (unat (writerIndex b - readerIndex b)) (unat (readerIndex b))
                          (unat kCheapPrepend) (buf b),
                readerIndex := kCheapPrepend,
                writerIndex := kCheapPrepend + readable\<rparr>)))"

definition Buffer_ensureWritableBytes :: "size_t \<Rightarrow> buffer \<Rightarrow> buffer result" where
  "Buffer_ensureWritableBytes len b =
     (if writableBytes b < len then Buffer_makeSpace len b else Inr b)"

text \<open>\<^verbatim>\<open>append(data, len)\<close>: \<^verbatim>\<open>std::copy\<close> of \<^term>\<open>len\<close> bytes from the array at \<^verbatim>\<open>data\<close> to
  \<^verbatim>\<open>beginWrite()\<close>; both ranges have to lie inside their arrays.\<close>

definition Buffer_append :: "byte list \<Rightarrow> size_t \<Rightarrow> buffer \<Rightarrow> buffer result" where
  "Buffer_append data len b =
     and_then (Buffer_ensureWritableBytes len b) (\<lambda>b.
       if unat len \<le> length data \<and> unat (writerIndex b) + unat len \<le> length (buf b)
       then Inr (b\<lparr>buf := blit (unat (writerIndex b)) (take (unat len) data) (buf b),
                   writerIndex := writerIndex b + len\<rparr>)
       else Inl OutOfBounds)"

definition extrabuf_size :: size_t where
  "extrabuf_size = 65536"

text \<open>\<^verbatim>\<open>readFd\<close>: scatter read into the writable part and a zeroed stack array. The kernel stores
  the bytes it returns into the buffers in order, before the result is looked at. The result
  is the count, the saved \<^verbatim>\<open>errno\<close> (0 as initialised by the caller when the call succeeds),
  the buffer and the kernel state.\<close>

definition Buffer_readFd ::
  "'k os \<Rightarrow> fd \<Rightarrow> buffer \<Rightarrow> 'k \<Rightarrow> (int \<times> errno \<times> buffer \<times> 'k) result" where
  "Buffer_readFd os f b k =
     (let writable = writableBytes b;
          lens = (if writable < extrabuf_size then [writable, extrabuf_size] else [writable]);
          ((n, e, d), k') = sys_readv os f lens k
      in if n < 0 then Inr (n, e, b, k')
         else
          (let first = take (unat writable) d;
               extrabuf = blit 0 (drop (unat writable) d) (replicate (unat extrabuf_size) 0);
               b1 = b\<lparr>buf := blit (unat (writerIndex b)) first (buf b)\<rparr>
           in if n \<le> uint writable
              then Inr (n, 0, b1\<lparr>writerIndex := writerIndex b1 + word_of_int n\<rparr>, k')
              else and_then
                (Buffer_append extrabuf (word_of_int n - writable)
                   (b1\<lparr>writerIndex := of_nat (length (buf b1))\<rparr>))
                (\<lambda>b2. Inr (n, 0, b2, k'))))"

definition Buffer_writeFd ::
  "'k os \<Rightarrow> fd \<Rightarrow> buffer \<Rightarrow> 'k \<Rightarrow> (int \<times> errno \<times> 'k) result" where
  "Buffer_writeFd os f b k =
     and_then (Buffer_peek (readableBytes b) b) (\<lambda>bs.
       let ((n, e), k') = sys_write os f bs k
       in Inr (n, if n < 0 then e else 0, k'))"

section \<open>Invariant and abstract view\<close>

definition buffer_ok :: "buffer \<Rightarrow> bool" where
  "buffer_ok b \<longleftrightarrow> unat kCheapPrepend \<le> unat (readerIndex b) \<and>
     unat (readerIndex b) \<le> unat (writerIndex b) \<and>
     unat (writerIndex b) \<le> length (buf b) \<and> length (buf b) \<le> vector_max_size"

definition contents :: "buffer \<Rightarrow> byte list" where
  "contents b = take (unat (writerIndex b) - unat (readerIndex b)) (drop (unat (readerIndex b)) (buf b))"

text \<open>Enough address space for \<^term>\<open>n\<close> more bytes: the condition under which no operation
  throws.\<close>

definition room_for :: "nat \<Rightarrow> buffer \<Rightarrow> bool" where
  "room_for n b \<longleftrightarrow> unat (writerIndex b) + n \<le> vector_max_size"

lemmas buffer_consts = kCheapPrepend_def vector_max_size_def

lemma kCheapPrepend_nat [simp]: "unat kCheapPrepend = 8"
  by (simp add: kCheapPrepend_def)

lemma length_contents [simp]:
  "buffer_ok b \<Longrightarrow> length (contents b) = unat (writerIndex b) - unat (readerIndex b)"
  by (auto simp: contents_def buffer_ok_def)

lemma readableBytes_contents:
  "buffer_ok b \<Longrightarrow> unat (readableBytes b) = length (contents b)"
  by (simp add: readableBytes_def buffer_ok_def word_nat)

lemma buffer_ok_bounds:
  assumes "buffer_ok b"
  shows "length (buf b) < 2 ^ 63" and "unat (writerIndex b) < 2 ^ 63"
    and "unat (readerIndex b) < 2 ^ 63"
  using assms by (auto simp: buffer_ok_def vector_max_size_def)

lemma writableBytes_nat:
  assumes "buffer_ok b"
  shows "unat (writableBytes b) = length (buf b) - unat (writerIndex b)"
proof -
  have "unat (of_nat (length (buf b)) :: size_t) = length (buf b)"
    using buffer_ok_bounds [OF assms] by (intro unat_of_nat_small) simp
  with assms show ?thesis by (simp add: writableBytes_def buffer_ok_def word_nat)
qed

lemma contents_append_window:
  assumes "buffer_ok b"
  shows "take (unat (writerIndex b)) (buf b) =
    take (unat (readerIndex b)) (buf b) @ contents b"
  using assms by (simp add: contents_def buffer_ok_def flip: take_add)

section \<open>Behaviour of the operations\<close>

lemma Buffer_ctor_spec:
  assumes "unat initialSize + 8 \<le> vector_max_size"
  shows "\<exists>b. Buffer_ctor initialSize = Inr b \<and> buffer_ok b \<and> contents b = [] \<and>
    length (buf b) = unat initialSize + 8"
proof -
  have n: "unat (kCheapPrepend + initialSize) = unat initialSize + 8"
    using assms by (subst unat_add_small) (simp_all add: vector_max_size_def)
  with assms show ?thesis
    by (simp add: Buffer_ctor_def Let_def buffer_ok_def contents_def)
qed

lemma Buffer_retrieveAll_spec [simp]:
  assumes "buffer_ok b"
  shows "buffer_ok (Buffer_retrieveAll b)" and "contents (Buffer_retrieveAll b) = []"
  using assms by (simp_all add: Buffer_retrieveAll_def buffer_ok_def contents_def)

lemma Buffer_retrieve_spec [simp]:
  assumes ok: "buffer_ok b"
  shows "buffer_ok (Buffer_retrieve len b)"
    and "contents (Buffer_retrieve len b) = drop (unat len) (contents b)"
proof -
  have adv: "len < readableBytes b \<Longrightarrow> unat (readerIndex b + len) = unat (readerIndex b) + unat len"
    using ok buffer_ok_bounds [OF ok] readableBytes_contents [OF ok]
    by (intro unat_add_small) (simp add: word_nat)
  show "buffer_ok (Buffer_retrieve len b)"
    using ok adv readableBytes_contents [OF ok]
    by (auto simp: Buffer_retrieve_def word_nat) (simp add: buffer_ok_def)
  show "contents (Buffer_retrieve len b) = drop (unat len) (contents b)"
  proof (cases "len < readableBytes b")
    case True
    then show ?thesis
      using adv by (simp add: Buffer_retrieve_def contents_def drop_take add.commute)
  next
    case False
    with ok readableBytes_contents [OF ok] show ?thesis
      by (simp add: Buffer_retrieve_def word_nat)
  qed
qed

lemma Buffer_peek_contents:
  assumes "buffer_ok b" and "unat len \<le> length (contents b)"
  shows "Buffer_peek len b = Inr (take (unat len) (contents b))"
proof -
  have "unat len \<le> unat (writerIndex b) - unat (readerIndex b)" using assms by simp
  moreover from this have "unat (readerIndex b) + unat len \<le> length (buf b)"
    using assms(1) by (auto simp: buffer_ok_def)
  ultimately show ?thesis
    by (simp add: Buffer_peek_def contents_def min_absorb1)
qed

lemma Buffer_retrieveAsString_spec:
  assumes "buffer_ok b" and "unat len \<le> length (contents b)"
  shows "Buffer_retrieveAsString len b = Inr (take (unat len) (contents b), Buffer_retrieve len b)"
  using assms by (simp add: Buffer_retrieveAsString_def Buffer_peek_contents)

lemma Buffer_retrieveAllAsString_spec:
  assumes "buffer_ok b"
  shows "Buffer_retrieveAllAsString b = Inr (contents b, Buffer_retrieveAll b)"
  using assms readableBytes_contents [OF assms]
  by (simp add: Buffer_retrieveAllAsString_def Buffer_retrieveAsString_spec Buffer_retrieve_def)

text \<open>Growing: the branch of \<^verbatim>\<open>makeSpace\<close> that resizes the vector.\<close>

lemma resize_spec:
  assumes ok: "buffer_ok b" and fits: "room_for (unat len) b"
    and small: "length (buf b) \<le> unat (writerIndex b) + unat len"
  defines "b' \<equiv> b\<lparr>buf := vector_resize (unat (writerIndex b + len)) 0 (buf b)\<rparr>"
  shows "unat (writerIndex b + len) = unat (writerIndex b) + unat len"
    and "buffer_ok b'" and "contents b' = contents b"
proof -
  show n: "unat (writerIndex b + len) = unat (writerIndex b) + unat len"
    using fits by (intro unat_add_small) (simp add: room_for_def vector_max_size_def)
  show "buffer_ok b'"
    using ok fits n by (simp add: b'_def buffer_ok_def room_for_def)
  show "contents b' = contents b"
    using ok n by (simp add: b'_def contents_def buffer_ok_def take_drop)
qed

text \<open>Compacting: the branch that moves the readable bytes to the front.\<close>

lemma compact_spec:
  assumes ok: "buffer_ok b"
  defines "b' \<equiv> b\<lparr>buf := copy_fwd (unat (writerIndex b - readerIndex b)) (unat (readerIndex b))
                          (unat kCheapPrepend) (buf b),
                readerIndex := kCheapPrepend,
                writerIndex := kCheapPrepend + readableBytes b\<rparr>"
  shows "unat (writerIndex b') = 8 + length (contents b)"
    and "buffer_ok b'" and "contents b' = contents b" and "length (buf b') = length (buf b)"
proof -
  let ?r = "unat (readerIndex b)" and ?w = "unat (writerIndex b)"
  have d: "unat (writerIndex b - readerIndex b) = ?w - ?r"
    using ok by (simp add: buffer_ok_def word_nat)
  have le: "8 \<le> ?r" "?r \<le> ?w" "?w \<le> length (buf b)" using ok by (simp_all add: buffer_ok_def)
  show w': "unat (writerIndex b') = 8 + length (contents b)"
    using ok buffer_ok_bounds [OF ok] readableBytes_contents [OF ok] le
    by (simp add: b'_def word_nat)
  have copy: "buf b' = blit 8 (contents b) (buf b)"
    using le d by (simp add: b'_def copy_fwd_eq_blit contents_def)
  show len: "length (buf b') = length (buf b)" by (simp add: b'_def)
  show "buffer_ok b'"
    using ok w' len le by (simp add: buffer_ok_def [of b'] b'_def) (auto simp: buffer_ok_def)
  have "contents b' = take (length (contents b)) (drop 8 (buf b'))"
    using w' unfolding contents_def [of b'] by (simp add: b'_def)
  with le show "contents b' = contents b" by (simp add: copy)
qed

lemma Buffer_makeSpace_spec:
  assumes ok: "buffer_ok b" and fits: "room_for (unat len) b"
    and need: "writableBytes b < len"
  shows "\<exists>b'. Buffer_makeSpace len b = Inr b' \<and> buffer_ok b' \<and> contents b' = contents b \<and>
    unat (writerIndex b') + unat len \<le> length (buf b') \<and>
    unat (writerIndex b') \<le> unat (writerIndex b) \<and> length (buf b) \<le> length (buf b')"
proof -
  let ?r = "unat (readerIndex b)" and ?w = "unat (writerIndex b)"
  have le: "8 \<le> ?r" "?r \<le> ?w" "?w \<le> length (buf b)" using ok by (simp_all add: buffer_ok_def)
  have bnd: "length (buf b) < 2 ^ 63" "?w + unat len < 2 ^ 63"
    using buffer_ok_bounds [OF ok] fits by (auto simp: room_for_def vector_max_size_def)
  have free: "unat (writableBytes b + prependableBytes b) = length (buf b) - ?w + ?r"
    using bnd le writableBytes_nat [OF ok]
    by (subst unat_add_small) (auto simp: prependableBytes_def)
  have want: "unat (len + kCheapPrepend) = unat len + 8"
    using bnd by (subst unat_add_small) simp_all
  have small: "length (buf b) \<le> ?w + unat len"
    using need writableBytes_nat [OF ok] by (simp add: word_nat)
  show ?thesis
  proof (cases "writableBytes b + prependableBytes b < len + kCheapPrepend")
    case True
    note resize_spec [OF ok fits small]
    with True bnd small show ?thesis
      by (auto simp: Buffer_makeSpace_def Let_def vector_max_size_def)
  next
    case False
    then have "unat len + 8 \<le> length (buf b) - ?w + ?r"
      using free want by (simp add: word_nat)
    with compact_spec [OF ok] False le show ?thesis
      by (auto simp: Buffer_makeSpace_def Let_def ok)
  qed
qed

lemma Buffer_ensureWritableBytes_spec:
  assumes "buffer_ok b" and "room_for (unat len) b"
  shows "\<exists>b'. Buffer_ensureWritableBytes len b = Inr b' \<and> buffer_ok b' \<and> contents b' = contents b \<and>
    unat (writerIndex b') + unat len \<le> length (buf b') \<and>
    unat (writerIndex b') \<le> unat (writerIndex b) \<and> length (buf b) \<le> length (buf b')"
proof (cases "writableBytes b < len")
  case True
  with Buffer_makeSpace_spec [OF assms True] show ?thesis
    by (simp add: Buffer_ensureWritableBytes_def)
next
  case False
  with assms writableBytes_nat [OF assms(1)] show ?thesis
    by (auto simp: Buffer_ensureWritableBytes_def word_nat buffer_ok_def)
qed

text \<open>Storing bytes behind the writer index extends the contents by them.\<close>

lemma store_spec:
  assumes ok: "buffer_ok b" and fit: "unat (writerIndex b) + length d \<le> length (buf b)"
    and w: "unat w = unat (writerIndex b) + length d"
  defines "b' \<equiv> b\<lparr>buf := blit (unat (writerIndex b)) d (buf b), writerIndex := w\<rparr>"
  shows "buffer_ok b'" and "contents b' = contents b @ d" and "length (buf b') = length (buf b)"
proof -
  let ?r = "unat (readerIndex b)" and ?w = "unat (writerIndex b)"
  have le: "?r \<le> ?w" "?w \<le> length (buf b)" using ok by (simp_all add: buffer_ok_def)
  show "length (buf b') = length (buf b)" using fit by (simp add: b'_def)
  show "buffer_ok b'" using ok fit w by (simp add: b'_def buffer_ok_def)
  have "contents b' = take (?w - ?r) (drop ?r (buf b')) @ take (length d) (drop ?w (buf b'))"
    using le window_append [of ?r ?w "?w + length d" "buf b'"] by (simp add: contents_def b'_def w)
  also have "take (?w - ?r) (drop ?r (buf b')) = contents b"
    using le fit by (simp add: contents_def b'_def take_drop)
  finally show "contents b' = contents b @ d" using le by (simp add: b'_def)
qed

lemma Buffer_append_spec:
  assumes ok: "buffer_ok b" and fits: "room_for (unat len) b" and len: "unat len \<le> length data"
  shows "\<exists>b'. Buffer_append data len b = Inr b' \<and> buffer_ok b' \<and>
    contents b' = contents b @ take (unat len) data \<and>
    unat (writerIndex b') \<le> unat (writerIndex b) + unat len \<and> length (buf b) \<le> length (buf b')"
proof -
  obtain b1 where b1: "Buffer_ensureWritableBytes len b = Inr b1" "buffer_ok b1"
      "contents b1 = contents b" "unat (writerIndex b1) + unat len \<le> length (buf b1)"
      "unat (writerIndex b1) \<le> unat (writerIndex b)" "length (buf b) \<le> length (buf b1)"
    using Buffer_ensureWritableBytes_spec [OF ok fits] by blast
  have w: "unat (writerIndex b1 + len) = unat (writerIndex b1) + unat len"
    using b1(4) buffer_ok_bounds [OF b1(2)] by (intro unat_add_small) simp
  have d: "length (take (unat len) data) = unat len" using len by simp
  note st = store_spec [OF b1(2), of "take (unat len) data" "writerIndex b1 + len"]
  show ?thesis
    using b1 w len st d by (simp add: Buffer_append_def)
qed

text \<open>Without the room, \<^verbatim>\<open>append\<close> either compacts or throws before it writes anything: it never writes
  outside the vector.\<close>

lemma makeSpace_no_room:
  assumes ok: "buffer_ok b" and full: "\<not> room_for (unat len) b" and len: "unat len < 2 ^ 63"
  shows "Buffer_makeSpace len b = Inl LengthError \<or>
    (\<exists>b'. Buffer_makeSpace len b = Inr b' \<and> buffer_ok b' \<and> contents b' = contents b \<and>
       unat (writerIndex b') + unat len \<le> length (buf b'))"
proof -
  let ?r = "unat (readerIndex b)" and ?w = "unat (writerIndex b)"
  have le: "8 \<le> ?r" "?r \<le> ?w" "?w \<le> length (buf b)" using ok by (simp_all add: buffer_ok_def)
  note bnd = buffer_ok_bounds [OF ok]
  have free: "unat (writableBytes b + prependableBytes b) = length (buf b) - ?w + ?r"
    using bnd le writableBytes_nat [OF ok] by (subst unat_add_small) (auto simp: prependableBytes_def)
  have want: "unat (len + kCheapPrepend) = unat len + 8" using len by (subst unat_add_small) simp_all
  have n: "unat (writerIndex b + len) = ?w + unat len" using bnd len by (subst unat_add_small) simp_all
  show ?thesis
  proof (cases "writableBytes b + prependableBytes b < len + kCheapPrepend")
    case True
    with n full show ?thesis by (simp add: Buffer_makeSpace_def Let_def room_for_def)
  next
    case False
    then have "unat len + 8 \<le> length (buf b) - ?w + ?r" using free want by (simp add: word_nat)
    with compact_spec [OF ok] False le show ?thesis by (auto simp: Buffer_makeSpace_def Let_def ok)
  qed
qed

lemma Buffer_append_total:
  assumes ok: "buffer_ok b" and len: "unat len \<le> length data" "unat len < 2 ^ 63"
  shows "Buffer_append data len b = Inl LengthError \<and> \<not> room_for (unat len) b \<or>
    (\<exists>b'. Buffer_append data len b = Inr b' \<and> buffer_ok b' \<and> contents b' = contents b @ take (unat len) data)"
proof (cases "room_for (unat len) b")
  case True
  from Buffer_append_spec [OF ok True len(1)] show ?thesis by blast
next
  case False
  have "writableBytes b < len"
    using False writableBytes_nat [OF ok] ok by (auto simp: room_for_def buffer_ok_def word_nat)
  then have e: "Buffer_ensureWritableBytes len b = Buffer_makeSpace len b" by (simp add: Buffer_ensureWritableBytes_def)
  show ?thesis
  proof (cases "Buffer_makeSpace len b = Inl LengthError")
    case True
    with e False show ?thesis by (simp add: Buffer_append_def)
  next
    case more: False
    then obtain b1 where b1: "Buffer_makeSpace len b = Inr b1" "buffer_ok b1" "contents b1 = contents b"
        "unat (writerIndex b1) + unat len \<le> length (buf b1)"
      using makeSpace_no_room [OF ok False len(2)] by blast
    have w: "unat (writerIndex b1 + len) = unat (writerIndex b1) + unat len"
      using b1(4) buffer_ok_bounds [OF b1(2)] by (intro unat_add_small) simp
    note st = store_spec [OF b1(2), of "take (unat len) data" "writerIndex b1 + len"]
    show ?thesis using b1 e w len(1) st by (simp add: Buffer_append_def)
  qed
qed

text \<open>One scatter read: whatever the kernel delivers is appended to the contents, on the branch
  that fits the writable part as well as on the branch that spills into the stack array.\<close>

lemma Buffer_readFd_total:
  assumes ok: "buffer_ok b" and ct: "readv_contract os"
    and rd: "sys_readv os f (if writableBytes b < extrabuf_size
               then [writableBytes b, extrabuf_size] else [writableBytes b]) k = ((n, e, d), k')"
  shows "if n < 0 then Buffer_readFd os f b k = Inr (n, e, b, k')
    else Buffer_readFd os f b k = Inl LengthError \<and> vector_max_size < length (buf b) + 65536 \<or>
      (\<exists>b'. Buffer_readFd os f b k = Inr (n, 0, b', k') \<and> buffer_ok b' \<and> contents b' = contents b @ d)"
proof (cases "n < 0")
  case True
  with rd show ?thesis by (simp add: Buffer_readFd_def)
next
  case False
  let ?wr = "unat (writableBytes b)"
  let ?w = "unat (writerIndex b)"
  let ?d1 = "take ?wr d" and ?d2 = "drop ?wr d"
  let ?b1 = "b\<lparr>buf := blit ?w ?d1 (buf b)\<rparr>"
  have wr: "?wr = length (buf b) - ?w" "?w \<le> length (buf b)"
    using ok writableBytes_nat by (auto simp: buffer_ok_def)
  have n: "length d = nat n" "nat n \<le> ?wr + 65536"
    using ct rd False by (fastforce simp: readv_contract_def extrabuf_size_def split: if_splits)+
  have nw: "unat (word_of_int n :: size_t) = nat n"
    using n(2) wr buffer_ok_bounds [OF ok] False unat_of_nat_small [where 'a = 64, of "nat n"] by simp
  show ?thesis
  proof (cases "n \<le> uint (writableBytes b)")
    case True
    then have le: "nat n \<le> ?wr" unfolding unat_eq_nat_uint by (rule nat_mono)
    with n have short: "?d1 = d" by simp
    have "unat (writerIndex b + word_of_int n) = ?w + nat n"
      using nw le wr buffer_ok_bounds [OF ok] by (subst unat_add_small) simp_all
    then have st: "buffer_ok (?b1\<lparr>writerIndex := writerIndex b + word_of_int n\<rparr>)"
        "contents (?b1\<lparr>writerIndex := writerIndex b + word_of_int n\<rparr>) = contents b @ d"
      using store_spec [OF ok, of d] short le n wr by simp_all
    with False True rd show ?thesis by (simp add: Buffer_readFd_def Let_def)
  next
    case more: False
    then have "uint (writableBytes b) < n" by simp
    then have long: "?wr < nat n" unfolding unat_eq_nat_uint
      by (rule iffD2 [OF nat_less_eq_zless, rotated]) (rule unsigned_greater_eq)
    then have d1: "length ?d1 = ?wr" using n by simp
    have len1: "length (buf ?b1) = length (buf b)" using d1 wr by simp
    have full: "unat (of_nat (length (buf ?b1)) :: size_t) = ?w + length ?d1"
      using len1 d1 wr buffer_ok_bounds [OF ok] by (subst unat_of_nat_small) simp_all
    let ?b2 = "?b1\<lparr>writerIndex := of_nat (length (buf ?b1))\<rparr>"
    have b2: "buffer_ok ?b2" "contents ?b2 = contents b @ ?d1"
      using store_spec [OF ok _ full] d1 wr by simp_all
    let ?x = "blit 0 ?d2 (replicate (unat extrabuf_size) 0)"
    have rest: "unat (word_of_int n - writableBytes b) = length ?d2"
      using nw long n by (simp add: unat_diff_le)
    have x: "take (length ?d2) ?x = ?d2" "length ?d2 \<le> length ?x"
      using n by (simp_all add: blit_def)
    have small: "length ?d2 \<le> 65536" using n by simp
    then have no_room: "vector_max_size < length (buf b) + 65536" if "\<not> room_for (length ?d2) ?b2"
      using that full wr d1 len1 by (simp add: room_for_def)
    from Buffer_append_total [OF b2(1), of "word_of_int n - writableBytes b" ?x] rest x small
    have "Buffer_append ?x (word_of_int n - writableBytes b) ?b2 = Inl LengthError \<and> \<not> room_for (length ?d2) ?b2 \<or>
        (\<exists>b3. Buffer_append ?x (word_of_int n - writableBytes b) ?b2 = Inr b3 \<and> buffer_ok b3 \<and> contents b3 = contents ?b2 @ ?d2)"
      by auto
    with False more rd b2 no_room show ?thesis
      by (auto simp: Buffer_readFd_def Let_def)
  qed
qed

lemma Buffer_readFd_spec:
  assumes "buffer_ok b" and "readv_contract os"
    and "sys_readv os f (if writableBytes b < extrabuf_size
               then [writableBytes b, extrabuf_size] else [writableBytes b]) k = ((n, e, d), k')"
    and "length (buf b) + 65536 \<le> vector_max_size"
  shows "if n < 0 then Buffer_readFd os f b k = Inr (n, e, b, k')
    else \<exists>b'. Buffer_readFd os f b k = Inr (n, 0, b', k') \<and> buffer_ok b' \<and>
           contents b' = contents b @ d"
  using Buffer_readFd_total [OF assms(1-3)] assms(4) by auto

lemma Buffer_writeFd_spec:
  assumes ok: "buffer_ok b"
  shows "Buffer_writeFd os f b k =
    (let ((n, e), k') = sys_write os f (contents b) k in Inr (n, if n < 0 then e else 0, k'))"
  using ok readableBytes_contents [OF ok]
  by (simp add: Buffer_writeFd_def Buffer_peek_contents)

section \<open>The byte-queue interface\<close>

text \<open>
  What \<^verbatim>\<open>TcpConnection\<close> relies on when it uses a buffer: a queue of bytes with an append that
  succeeds while there is room, and a consuming operation. The abstract queue is a byte list;
  its operations are \<open>fifo_step\<close>.
\<close>

datatype queue_op =
    Append "byte list"
  | RetrieveAsString size_t
  | Retrieve size_t
  | EnsureWritable size_t

fun op_demand :: "queue_op \<Rightarrow> nat" where
  "op_demand (Append d) = length d"
| "op_demand (EnsureWritable n) = unat n"
| "op_demand _ = 0"

fun fifo_step :: "queue_op \<Rightarrow> byte list \<Rightarrow> (byte list \<times> byte list) option" where
  "fifo_step (Append d) xs = Some ([], xs @ d)"
| "fifo_step (RetrieveAsString n) xs =
     (if unat n \<le> length xs then Some (take (unat n) xs, drop (unat n) xs) else None)"
| "fifo_step (Retrieve n) xs = Some ([], drop (unat n) xs)"
| "fifo_step (EnsureWritable n) xs = Some ([], xs)"

fun fifo_run :: "queue_op list \<Rightarrow> byte list \<Rightarrow> (byte list \<times> byte list) option" where
  "fifo_run [] xs = Some ([], xs)"
| "fifo_run (x # ops) xs =
     (case fifo_step x xs of None \<Rightarrow> None
      | Some (out, xs') \<Rightarrow> map_option (\<lambda>(out', r). (out @ out', r)) (fifo_run ops xs'))"

primrec run_queue ::
  "(queue_op \<Rightarrow> 'q \<Rightarrow> (byte list \<times> 'q) result) \<Rightarrow> queue_op list \<Rightarrow> 'q \<Rightarrow> (byte list \<times> 'q) result" where
  "run_queue step [] q = Inr ([], q)"
| "run_queue step (x # ops) q = and_then (step x q) (\<lambda>(out, q').
     and_then (run_queue step ops q') (\<lambda>(out', q''). Inr (out @ out', q'')))"

locale byte_queue =
  fixes invar :: "'q \<Rightarrow> bool"
    and bytes :: "'q \<Rightarrow> byte list"
    and room :: "nat \<Rightarrow> 'q \<Rightarrow> bool"
    and step :: "queue_op \<Rightarrow> 'q \<Rightarrow> (byte list \<times> 'q) result"
  assumes step_refines:
      "invar q \<Longrightarrow> room (op_demand x) q \<Longrightarrow> fifo_step x (bytes q) = Some (out, xs) \<Longrightarrow>
       \<exists>q'. step x q = Inr (out, q') \<and> invar q' \<and> bytes q' = xs"
    and step_room:
      "invar q \<Longrightarrow> step x q = Inr (out, q') \<Longrightarrow> room (op_demand x + n) q \<Longrightarrow> room n q'"
    and room_mono: "room m q \<Longrightarrow> n \<le> m \<Longrightarrow> room n q"
begin

lemma run_refines:
  assumes "invar q" and "room (sum_list (map op_demand ops)) q"
    and "fifo_run ops (bytes q) = Some (out, xs)"
  shows "\<exists>q'. run_queue step ops q = Inr (out, q') \<and> invar q' \<and> bytes q' = xs"
  using assms
proof (induction ops arbitrary: q out)
  case Nil
  then show ?case by simp
next
  case (Cons x ops)
  from Cons.prems(3) obtain o1 xs1 o2 where st: "fifo_step x (bytes q) = Some (o1, xs1)"
      and rest: "fifo_run ops xs1 = Some (o2, xs)" and out: "out = o1 @ o2"
    by (auto split: option.splits)
  have "room (op_demand x) q" using Cons.prems(2) by (rule room_mono) simp
  then obtain q1 where q1: "step x q = Inr (o1, q1)" "invar q1" "bytes q1 = xs1"
    using step_refines [OF Cons.prems(1) _ st] by blast
  have "room (sum_list (map op_demand ops)) q1"
    using step_room [OF Cons.prems(1) q1(1)] Cons.prems(2) by simp
  then obtain q2 where "run_queue step ops q1 = Inr (o2, q2)" "invar q2" "bytes q2 = xs"
    using Cons.IH [OF q1(2)] rest q1(3) by blast
  with q1 out show ?case by simp
qed

end

text \<open>The buffer's operations behind that interface.\<close>

fun buffer_step :: "queue_op \<Rightarrow> buffer \<Rightarrow> (byte list \<times> buffer) result" where
  "buffer_step (Append d) b = and_then (Buffer_append d (of_nat (length d)) b) (\<lambda>b. Inr ([], b))"
| "buffer_step (RetrieveAsString n) b = Buffer_retrieveAsString n b"
| "buffer_step (Retrieve n) b = Inr ([], Buffer_retrieve n b)"
| "buffer_step (EnsureWritable n) b = and_then (Buffer_ensureWritableBytes n b) (\<lambda>b. Inr ([], b))"

lemma room_for_word:
  "room_for (length d) b \<Longrightarrow> unat (of_nat (length d) :: size_t) = length d"
  by (intro unat_of_nat_small) (simp add: room_for_def vector_max_size_def)

lemma writerIndex_retrieve_le:
  "buffer_ok b \<Longrightarrow> unat (writerIndex (Buffer_retrieve n b)) \<le> unat (writerIndex b)"
  by (auto simp: Buffer_retrieve_def Buffer_retrieveAll_def buffer_ok_def)

lemma buffer_step_refines:
  assumes "buffer_ok b" and "room_for (op_demand x) b"
    and "fifo_step x (contents b) = Some (out, xs)"
  shows "\<exists>b'. buffer_step x b = Inr (out, b') \<and> buffer_ok b' \<and> contents b' = xs"
proof (cases x)
  case (Append d)
  with assms Buffer_append_spec [OF assms(1), of "of_nat (length d)" d] room_for_word [of d b]
  show ?thesis by auto
next
  case (RetrieveAsString n)
  with assms show ?thesis by (auto simp: Buffer_retrieveAsString_spec split: if_splits)
next
  case (Retrieve n)
  with assms show ?thesis by auto
next
  case (EnsureWritable n)
  with assms Buffer_ensureWritableBytes_spec [OF assms(1), of n] show ?thesis by auto
qed

lemma buffer_step_room:
  assumes "buffer_ok b" and "buffer_step x b = Inr (out, b')" and "room_for (op_demand x + n) b"
  shows "room_for n b'"
proof -
  have dem: "room_for (op_demand x) b" using assms(3) by (simp add: room_for_def)
  have "unat (writerIndex b') \<le> unat (writerIndex b) + op_demand x"
  proof (cases x)
    case (Append d)
    with dem assms Buffer_append_spec [OF assms(1), of "of_nat (length d)" d] room_for_word [of d b]
    show ?thesis by auto
  next
    case (EnsureWritable m)
    with dem assms Buffer_ensureWritableBytes_spec [OF assms(1), of m] show ?thesis by auto
  qed (use assms writerIndex_retrieve_le [OF assms(1)] in
      \<open>auto simp: Buffer_retrieveAsString_def and_then_eq_Inr\<close>)
  with assms(3) show ?thesis by (simp add: room_for_def)
qed

lemma room_for_mono: "room_for m b \<Longrightarrow> n \<le> m \<Longrightarrow> room_for n b"
  by (simp add: room_for_def)

interpretation buf_queue: byte_queue buffer_ok contents room_for buffer_step
  by unfold_locales (blast intro: buffer_step_refines buffer_step_room room_for_mono)+

section \<open>Properties\<close>

text \<open>
  C7: Any sequence of \<^verbatim>\<open>append\<close>, \<^verbatim>\<open>retrieve\<close>, \<^verbatim>\<open>retrieveAsString\<close> and \<^verbatim>\<open>ensureWritableBytes\<close>
  calls on a well-formed buffer behaves as on an abstract byte queue: while the bytes asked for
  fit the address space and no call reads more than there is, no call throws or leaves the
  array, the bytes handed out are those of the queue, and the buffer stays well-formed.
\<close>

theorem buffer_refines_byte_queue:
  assumes "buffer_ok b" and "room_for (sum_list (map op_demand ops)) b"
    and "fifo_run ops (contents b) = Some (out, xs)"
  shows "\<exists>b'. run_queue buffer_step ops b = Inr (out, b') \<and> buffer_ok b' \<and> contents b' = xs"
  using assms by (rule buf_queue.run_refines)

theorem buffer_refines_byte_queue_witness:
  "\<exists>b'. run_queue buffer_step
      [Append [1, 2, 3], RetrieveAsString 2, Append [4, 5, 6], EnsureWritable 20, Retrieve 1]
      \<lparr>buf = replicate 12 0, readerIndex = 8, writerIndex = 8\<rparr> = Inr ([1, 2], b') \<and>
    buffer_ok b' \<and> contents b' = [4, 5, 6]"
  by (rule buffer_refines_byte_queue)
    (simp_all add: buffer_ok_def contents_def room_for_def vector_max_size_def)

text \<open>
  C26: \<^verbatim>\<open>readFd\<close> loses and invents nothing: with a kernel that keeps the contract of \<^verbatim>\<open>readv\<close>,
  a failed read leaves the buffer as it is and reports the error, and a read of \<^term>\<open>n\<close>
  bytes, whether they fit the writable part or spill into the stack array, appends exactly the
  bytes delivered to the readable contents.
\<close>

theorem readFd_appends_what_was_read:
  assumes "buffer_ok b" and "readv_contract os"
    and "sys_readv os f (if writableBytes b < extrabuf_size
           then [writableBytes b, extrabuf_size] else [writableBytes b]) k = ((n, e, d), k')"
    and "length (buf b) + 65536 \<le> vector_max_size"
  shows "if n < 0 then Buffer_readFd os f b k = Inr (n, e, b, k')
    else \<exists>b'. Buffer_readFd os f b k = Inr (n, 0, b', k') \<and> buffer_ok b' \<and>
           contents b' = contents b @ d"
  using assms by (rule Buffer_readFd_spec)

theorem readFd_appends_what_was_read_witness:
  "\<exists>b' k'. Buffer_readFd sim_os 5 \<lparr>buf = [0,0,0,0,0,0,0,0,1,0], readerIndex = 8, writerIndex = 9\<rparr>
      (sim_init\<lparr>sim_inbox := (\<lambda>_. [2, 3, 4])\<rparr>) = Inr (3, 0, b', k') \<and>
    buffer_ok b' \<and> contents b' = [1, 2, 3, 4]"
proof -
  let ?b = "\<lparr>buf = [0,0,0,0,0,0,0,0,1,0], readerIndex = 8, writerIndex = 9\<rparr>"
  let ?k = "sim_init\<lparr>sim_inbox := (\<lambda>_. [2, 3, 4])\<rparr>"
  have "sys_readv sim_os 5 (if writableBytes ?b < extrabuf_size
      then [writableBytes ?b, extrabuf_size] else [writableBytes ?b]) ?k
    = ((3, 0, [2, 3, 4]), snd (sim_readv 5 [1, 65536] ?k))"
    by (simp add: writableBytes_def extrabuf_size_def sim_readv_def Let_def)
  from readFd_appends_what_was_read [OF _ sim_readv_contract this] show ?thesis
    by (auto simp: buffer_ok_def contents_def vector_max_size_def)
qed

text \<open>
  C33: \<^verbatim>\<open>ensureWritableBytes(len)\<close> on each of its branches. If \<^term>\<open>len\<close> bytes are already
  writable nothing changes; if the free bytes in front and behind are enough, the readable
  bytes move to the front of the same array; otherwise the array grows to exactly
  \<^verbatim>\<open>writerIndex_ + len\<close>. On every branch the contents are kept and \<^term>\<open>len\<close> bytes are
  writable afterwards.
\<close>

theorem ensureWritableBytes_branches:
  assumes "buffer_ok b" and "room_for (unat len) b"
  shows "\<exists>b'. Buffer_ensureWritableBytes len b = Inr b' \<and> buffer_ok b' \<and> contents b' = contents b \<and>
    unat len \<le> unat (writableBytes b') \<and>
    (if unat len \<le> unat (writableBytes b) then b' = b
     else if unat len + 8 \<le> unat (writableBytes b) + unat (readerIndex b)
       then length (buf b') = length (buf b) \<and> readerIndex b' = kCheapPrepend
       else length (buf b') = unat (writerIndex b) + unat len \<and> readerIndex b' = readerIndex b)"
proof -
  obtain b' where b': "Buffer_ensureWritableBytes len b = Inr b'" "buffer_ok b'" "contents b' = contents b"
      "unat (writerIndex b') + unat len \<le> length (buf b')"
    using Buffer_ensureWritableBytes_spec [OF assms] by blast
  have "unat (writableBytes b + prependableBytes b) = unat (writableBytes b) + unat (readerIndex b)"
    using assms(1) buffer_ok_bounds [OF assms(1)] writableBytes_nat [OF assms(1)]
    by (subst unat_add_small) (auto simp: prependableBytes_def)
  moreover have "unat (len + kCheapPrepend) = unat len + 8"
    using assms(2) by (subst unat_add_small) (auto simp: room_for_def vector_max_size_def)
  moreover have "unat (writerIndex b + len) = unat (writerIndex b) + unat len"
    using assms(2) by (intro unat_add_small) (simp add: room_for_def vector_max_size_def)
  ultimately have "if unat len \<le> unat (writableBytes b) then b' = b
     else if unat len + 8 \<le> unat (writableBytes b) + unat (readerIndex b)
       then length (buf b') = length (buf b) \<and> readerIndex b' = kCheapPrepend
       else length (buf b') = unat (writerIndex b) + unat len \<and> readerIndex b' = readerIndex b"
    using b'(1) by (auto simp: Buffer_ensureWritableBytes_def Buffer_makeSpace_def Let_def word_nat
        split: if_splits)
  moreover have "unat len \<le> unat (writableBytes b')"
    using b'(4) writableBytes_nat [OF b'(2)] by simp
  ultimately show ?thesis using b' by blast
qed

theorem ensureWritableBytes_branches_witness:
  "\<exists>b'. Buffer_ensureWritableBytes 6 \<lparr>buf = [0,0,0,0,0,0,0,0,1,2,3,4], readerIndex = 11, writerIndex = 12\<rparr> = Inr b' \<and>
    buffer_ok b' \<and> contents b' = [4] \<and> 6 \<le> unat (writableBytes b') \<and> length (buf b') = 18"
  using ensureWritableBytes_branches
    [of "\<lparr>buf = [0,0,0,0,0,0,0,0,1,2,3,4], readerIndex = 11, writerIndex = 12\<rparr>" 6]
  by (auto simp: buffer_ok_def contents_def room_for_def vector_max_size_def writableBytes_def)


end
