(* ===== verification/InetAddress.thy ===== *)
theory InetAddress
  imports Posix
begin

unbundle bit_operations_syntax

text \<open>
  \<^verbatim>\<open>InetAddress.h\<close>, \<^verbatim>\<open>InetAddress.cpp\<close>: an IPv4 address and port in the kernel's representation.
  The host is little-endian: \<^verbatim>\<open>htons\<close> and \<^verbatim>\<open>ntohs\<close> swap the two bytes of a port, and the first
  number of a dotted address is the lowest byte of \<^verbatim>\<open>s_addr\<close>. \<^verbatim>\<open>inet_addr\<close>, which accepts more
  notations than the program uses, is a parameter; that it reads back dotted decimal notation
  is the contract \<open>inet_addr_contract\<close>.
\<close>

section \<open>Library functions\<close>

definition htons :: "16 word \<Rightarrow> 16 word" where
  "htons x = push_bit 8 x OR drop_bit 8 x"

definition ntohs :: "16 word \<Rightarrow> 16 word" where
  "ntohs x = push_bit 8 x OR drop_bit 8 x"

definition octet :: "nat \<Rightarrow> 32 word \<Rightarrow> nat" where
  "octet i a = unat a div 256 ^ i mod 256"

definition inet_ntop :: "32 word \<Rightarrow> string" where
  "inet_ntop a = show_nat (octet 0 a) @ ''.'' @ show_nat (octet 1 a) @ ''.'' @
     show_nat (octet 2 a) @ ''.'' @ show_nat (octet 3 a)"

definition inet_addr_contract :: "(string \<Rightarrow> 32 word) \<Rightarrow> bool" where
  "inet_addr_contract inet_addr \<longleftrightarrow> (\<forall>a. inet_addr (inet_ntop a) = a)"

abbreviation AF_INET :: "16 word" where "AF_INET \<equiv> 2"

section \<open>Operations\<close>

type_synonym inet_address = sockaddr_in

definition InetAddress_ctor :: "(string \<Rightarrow> 32 word) \<Rightarrow> 16 word \<Rightarrow> string \<Rightarrow> inet_address" where
  "InetAddress_ctor inet_addr port ip =
     \<lparr>sin_family = AF_INET, sin_port = htons port, sin_addr = inet_addr ip\<rparr>"

definition InetAddress_toIp :: "inet_address \<Rightarrow> string" where
  "InetAddress_toIp a = inet_ntop (sin_addr a)"

text \<open>\<^verbatim>\<open>sprintf\<close> into the rest of a 64-byte array, which it does not know the size of.\<close>

definition InetAddress_toIpPort :: "inet_address \<Rightarrow> string result" where
  "InetAddress_toIpPort a =
     (let text = inet_ntop (sin_addr a) @ '':'' @ show_nat (unat (ntohs (sin_port a)))
      in if length text < 64 then Inr text else Inl OutOfBounds)"

definition InetAddress_toPort :: "inet_address \<Rightarrow> 16 word" where
  "InetAddress_toPort a = ntohs (sin_port a)"

section \<open>Facts\<close>

lemma ntohs_htons [simp]: "ntohs (htons p) = p"
  unfolding ntohs_def htons_def
  by (rule bit_word_eqI) (auto simp: bit_simps)

lemma htons_ntohs [simp]: "htons (ntohs p) = p"
  unfolding ntohs_def htons_def
  by (rule bit_word_eqI) (auto simp: bit_simps)

lemma octet_lt [simp]: "octet i a < 256"
  by (simp add: octet_def)

text \<open>A reader for dotted decimal notation.\<close>

fun split_dots :: "string \<Rightarrow> string \<Rightarrow> string list" where
  "split_dots acc [] = [acc]"
| "split_dots acc (c # cs) =
     (if c = CHR ''.'' then acc # split_dots [] cs else split_dots (acc @ [c]) cs)"

definition dotted_inet_addr :: "string \<Rightarrow> 32 word" where
  "dotted_inet_addr s = (case map (read_nat 0) (split_dots [] s) of
      [a, b, c, d] \<Rightarrow> of_nat (a + 256 * b + 65536 * c + 16777216 * d)
    | _ \<Rightarrow> 4294967295)"

lemma split_dots_plain: "CHR ''.'' \<notin> set xs \<Longrightarrow> split_dots acc xs = [acc @ xs]"
  by (induction xs arbitrary: acc) auto

lemma split_dots_dot:
  "CHR ''.'' \<notin> set xs \<Longrightarrow> split_dots acc (xs @ CHR ''.'' # ys) = (acc @ xs) # split_dots [] ys"
  by (induction xs arbitrary: acc) auto

lemma no_dot [simp]: "CHR ''.'' \<notin> set (show_nat n)"
  by (rule show_nat_no) simp

lemma octets_join:
  "octet 0 a + 256 * octet 1 a + 65536 * octet 2 a + 16777216 * octet 3 a = unat a"
proof -
  let ?n = "unat a"
  have "?n < 4294967296" using unsigned_less [where 'a = nat, of a] by simp
  then have top: "?n div 16777216 mod 256 = ?n div 16777216" by simp
  have "?n = ?n mod 256 + 256 * (?n div 256)" by simp
  moreover have "?n div 256 = ?n div 256 mod 256 + 256 * (?n div 65536)"
    using div_mult2_eq [of ?n 256 256] by simp
  moreover have "?n div 65536 = ?n div 65536 mod 256 + 256 * (?n div 16777216)"
    using div_mult2_eq [of ?n 65536 256] by simp
  moreover have "octet 0 a = ?n mod 256" "octet 1 a = ?n div 256 mod 256"
      "octet 2 a = ?n div 65536 mod 256" "octet 3 a = ?n div 16777216 mod 256"
    by (simp_all add: octet_def)
  ultimately show ?thesis using top by linarith
qed

lemma dotted_inet_addr_contract: "inet_addr_contract dotted_inet_addr"
  by (simp add: inet_addr_contract_def dotted_inet_addr_def inet_ntop_def split_dots_dot
      split_dots_plain octets_join del: One_nat_def of_nat_add of_nat_mult)

lemma inet_ntop_inject [simp]: "inet_ntop a = inet_ntop b \<longleftrightarrow> a = b"
  using dotted_inet_addr_contract by (metis inet_addr_contract_def)

lemma length_octet: "length (show_nat (octet i a)) \<le> 3"
  using length_show_nat [of "octet i a" 2] octet_lt [of i a] by simp

lemma length_inet_ntop: "length (inet_ntop a) \<le> 15"
  using length_octet [of 0 a] length_octet [of 1 a] length_octet [of 2 a] length_octet [of 3 a]
  by (simp add: inet_ntop_def)

lemma length_port: "length (show_nat (unat (p :: 16 word))) \<le> 5"
  using length_show_nat [of "unat p" 4] unsigned_less [where 'a = nat, of p] by simp

lemma toIpPort_eq:
  "InetAddress_toIpPort a = Inr (InetAddress_toIp a @ '':'' @ show_nat (unat (InetAddress_toPort a)))"
  using length_inet_ntop [of "sin_addr a"] length_port [of "ntohs (sin_port a)"]
  by (simp add: InetAddress_toIpPort_def InetAddress_toIp_def InetAddress_toPort_def)

lemma length_toIpPort: "InetAddress_toIpPort a = Inr t \<Longrightarrow> length t \<le> 21"
  using length_inet_ntop [of "sin_addr a"] length_port [of "ntohs (sin_port a)"]
  by (auto simp: toIpPort_eq InetAddress_toIp_def InetAddress_toPort_def)

lemma no_colon: "CHR '':'' \<notin> set (show_nat n)"
  by (rule show_nat_no) simp

section \<open>Properties\<close>

text \<open>
  C34: Addresses survive the conversions. An \<^verbatim>\<open>InetAddress\<close> built from a port and dotted text
  gives back that port and that text; \<^verbatim>\<open>toIpPort\<close> is the text, a colon and the port, never
  writes beyond its 64-byte array, and two addresses have the same \<^verbatim>\<open>toIpPort\<close> only if they
  agree in address and port.
\<close>

theorem InetAddress_roundtrip:
  assumes "inet_addr_contract inet_addr"
  shows "let x = InetAddress_ctor inet_addr port (inet_ntop ip) in
    InetAddress_toPort x = port \<and> InetAddress_toIp x = inet_ntop ip \<and>
    InetAddress_toIpPort x = Inr (inet_ntop ip @ '':'' @ show_nat (unat port)) \<and>
    (InetAddress_toIpPort x = InetAddress_toIpPort y \<longrightarrow> sin_port y = htons port \<and> sin_addr y = ip)"
proof -
  let ?x = "InetAddress_ctor inet_addr port (inet_ntop ip)"
  have x: "InetAddress_toPort ?x = port" "InetAddress_toIp ?x = inet_ntop ip"
    using assms
    by (simp_all add: InetAddress_ctor_def InetAddress_toPort_def InetAddress_toIp_def inet_addr_contract_def)
  have "sin_port y = htons port \<and> sin_addr y = ip" if "InetAddress_toIpPort ?x = InetAddress_toIpPort y"
    using that x
    by (auto simp: toIpPort_eq split_at_char no_colon InetAddress_toIp_def InetAddress_toPort_def
        simp flip: word_unat_eq_iff)
  with x show ?thesis by (simp add: toIpPort_eq Let_def)
qed

theorem InetAddress_roundtrip_witness:
  "InetAddress_toIpPort (InetAddress_ctor dotted_inet_addr 8002 ''127.0.0.1'') = Inr ''127.0.0.1:8002'' \<and>
   InetAddress_toPort (InetAddress_ctor dotted_inet_addr 8002 ''127.0.0.1'') = 8002"
proof -
  have ip: "inet_ntop 16777343 = ''127.0.0.1''"
    by (simp add: inet_ntop_def octet_def show_nat.simps digit_def power3_eq_cube power2_eq_square char_of_def bit_0)
  show ?thesis
    using InetAddress_roundtrip [OF dotted_inet_addr_contract, of 8002 16777343]
    unfolding ip by (simp add: Let_def show_nat.simps digit_def char_of_def bit_0)
qed

end
