(* ===== verification/Socket.thy ===== *)
theory Socket
  imports Reactor InetAddress
begin

text \<open>
  \<^verbatim>\<open>Socket.h\<close>, \<^verbatim>\<open>Socket.cpp\<close>: a descriptor and the system calls on it. A \<^verbatim>\<open>Socket\<close> has no state
  but its descriptor, so its methods take the descriptor. \<^verbatim>\<open>~Socket\<close> is
  \<^const>\<open>Socket_dtor\<close> of \<open>Reactor\<close>.
\<close>

definition Socket_bindAddress ::
  "'k os \<Rightarrow> fd \<Rightarrow> inet_address \<Rightarrow> ('k, 'z) reactor_scheme \<Rightarrow> ('k, 'z) reactor_scheme result" where
  "Socket_bindAddress os sockfd localaddr s =
     (let (r, k') = sys_bind os sockfd localaddr (kern s)
      in if r \<noteq> 0 then Inl (FatalExit ''bind sockd fail'') else Inr (s\<lparr>kern := k'\<rparr>))"

definition Socket_listen ::
  "'k os \<Rightarrow> fd \<Rightarrow> ('k, 'z) reactor_scheme \<Rightarrow> ('k, 'z) reactor_scheme result" where
  "Socket_listen os sockfd s =
     (let (r, k') = sys_listen os sockfd 1024 (kern s)
      in if r \<noteq> 0 then Inl (FatalExit ''listen sockfd fail'') else Inr (s\<lparr>kern := k'\<rparr>))"

text \<open>\<^verbatim>\<open>accept\<close>: the descriptor, the \<^verbatim>\<open>errno\<close> left behind, and what is then in \<^verbatim>\<open>*peeraddr\<close>.\<close>

definition Socket_accept ::
  "'k os \<Rightarrow> fd \<Rightarrow> inet_address \<Rightarrow> ('k, 'z) reactor_scheme \<Rightarrow>
     fd \<times> errno \<times> inet_address \<times> ('k, 'z) reactor_scheme" where
  "Socket_accept os sockfd peeraddr s =
     (let ((connfd, e, addr), k') = sys_accept4 os sockfd (kern s)
      in (connfd, e, if connfd > 0 then addr else peeraddr, s\<lparr>kern := k'\<rparr>))"

definition Socket_shutDownWrite ::
  "'k os \<Rightarrow> fd \<Rightarrow> ('k, 'z) reactor_scheme \<Rightarrow> ('k, 'z) reactor_scheme" where
  "Socket_shutDownWrite os sockfd s =
     (let (r, k') = sys_shutdown_wr os sockfd (kern s); s1 = s\<lparr>kern := k'\<rparr>
      in if r < 0 then LOG_ERROR ''shutdownWrite error'' 0 s1 else s1)"

definition optval :: "bool \<Rightarrow> int" where
  "optval on = (if on then 1 else 0)"

definition Socket_setTcpNoDelay ::
  "'k os \<Rightarrow> fd \<Rightarrow> bool \<Rightarrow> ('k, 'z) reactor_scheme \<Rightarrow> ('k, 'z) reactor_scheme" where
  "Socket_setTcpNoDelay os sockfd on s = s\<lparr>kern := sys_setsockopt os sockfd TCP_NODELAY (optval on) (kern s)\<rparr>"

definition Socket_setReuseAddr ::
  "'k os \<Rightarrow> fd \<Rightarrow> bool \<Rightarrow> ('k, 'z) reactor_scheme \<Rightarrow> ('k, 'z) reactor_scheme" where
  "Socket_setReuseAddr os sockfd on s = s\<lparr>kern := sys_setsockopt os sockfd SO_REUSEADDR (optval on) (kern s)\<rparr>"

definition Socket_setReusePort ::
  "'k os \<Rightarrow> fd \<Rightarrow> bool \<Rightarrow> ('k, 'z) reactor_scheme \<Rightarrow> ('k, 'z) reactor_scheme" where
  "Socket_setReusePort os sockfd on s = s\<lparr>kern := sys_setsockopt os sockfd SO_REUSEPORT (optval on) (kern s)\<rparr>"

definition Socket_setKeepAlive ::
  "'k os \<Rightarrow> fd \<Rightarrow> bool \<Rightarrow> ('k, 'z) reactor_scheme \<Rightarrow> ('k, 'z) reactor_scheme" where
  "Socket_setKeepAlive os sockfd on s = s\<lparr>kern := sys_setsockopt os sockfd SO_KEEPALIVE (optval on) (kern s)\<rparr>"

lemma shutDownWrite_sel [simp]:
  "cur_tid (Socket_shutDownWrite os f s) = cur_tid s" "chan (Socket_shutDownWrite os f s) = chan s"
  "loops (Socket_shutDownWrite os f s) = loops s" "refs (Socket_shutDownWrite os f s) = refs s"
  "t_loopInThisThread (Socket_shutDownWrite os f s) = t_loopInThisThread s"
  "reactor.more (Socket_shutDownWrite os f s) = reactor.more s"
  by (simp_all add: Socket_shutDownWrite_def Let_def split: prod.splits)

lemma setKeepAlive_sel [simp]:
  "cur_tid (Socket_setKeepAlive os f b s) = cur_tid s" "chan (Socket_setKeepAlive os f b s) = chan s"
  "errs (Socket_setKeepAlive os f b s) = errs s"
  "loops (Socket_setKeepAlive os f b s) = loops s" "refs (Socket_setKeepAlive os f b s) = refs s"
  "t_loopInThisThread (Socket_setKeepAlive os f b s) = t_loopInThisThread s"
  "reactor.more (Socket_setKeepAlive os f b s) = reactor.more s"
  by (simp_all add: Socket_setKeepAlive_def)

end
