(* ===== verification/TcpConnection.thy ===== *)
theory TcpConnection
  imports Buffer EventLoop Socket
begin

unbundle bit_operations_syntax

text \<open>
  \<^verbatim>\<open>TcpConnetion.h\<close>, \<^verbatim>\<open>TcpConnetion.cpp\<close>: one established connection, with its socket, its channel
  and its two buffers. The state record of the reactor is extended by the connections. The
  functions the application registers are names; what they do is the parameter \<open>app\<close>.
  A \<^verbatim>\<open>LOG_ERROR\<close> is assumed to leave \<^verbatim>\<open>errno\<close> alone.
\<close>

section \<open>State\<close>

datatype conn_state = kDisconnected | kConnecting | kConnected | kDisconnecting

record tcp_connection =
  tc_loop :: loop_ptr
  tc_name :: string
  tc_state :: conn_state
  tc_reading :: bool
  tc_socket :: fd
  tc_localAddr :: inet_address
  tc_peerAddr :: inet_address
  tc_connectionCallback :: "user_fn option"
  tc_messageCallback :: "user_fn option"
  tc_writeCompleteCallback :: "user_fn option"
  tc_highWaterMarkCallback :: "user_fn option"
  tc_closeCallback :: "close_fn option"
  tc_highWaterMark :: size_t
  tc_inputBuffer :: buffer
  tc_outputBuffer :: buffer

record 'k net = "'k reactor" +
  conns :: "conn_ptr \<Rightarrow> tcp_connection"

text \<open>What the registered functions do.\<close>

record 's app =
  app_connection :: "user_fn \<Rightarrow> conn_ptr \<Rightarrow> 's \<Rightarrow> 's result"
  app_message :: "user_fn \<Rightarrow> conn_ptr \<Rightarrow> int \<Rightarrow> 's \<Rightarrow> 's result"
  app_writeComplete :: "user_fn \<Rightarrow> conn_ptr \<Rightarrow> 's \<Rightarrow> 's result"
  app_highWaterMark :: "user_fn \<Rightarrow> conn_ptr \<Rightarrow> size_t \<Rightarrow> 's \<Rightarrow> 's result"
  app_close :: "close_fn \<Rightarrow> conn_ptr \<Rightarrow> 's \<Rightarrow> 's result"
  app_user :: "nat \<Rightarrow> 's \<Rightarrow> 's result"

definition upd_conn ::
  "conn_ptr \<Rightarrow> (tcp_connection \<Rightarrow> tcp_connection) \<Rightarrow> ('k, 'z) net_scheme \<Rightarrow> ('k, 'z) net_scheme" where
  "upd_conn c f s = s\<lparr>conns := (conns s)(c := f (conns s c))\<rparr>"

section \<open>Operations\<close>

definition CheckLoopNotNull :: "loop_ptr option \<Rightarrow> loop_ptr result" where
  "CheckLoopNotNull loop = (case loop of None \<Rightarrow> Inl (FatalExit ''mainLoop is null!'') | Some l \<Rightarrow> Inr l)"

text \<open>The constructor of the connection at address \<^term>\<open>c\<close>.\<close>

definition TcpConnection_ctor ::
  "'k os \<Rightarrow> conn_ptr \<Rightarrow> loop_ptr option \<Rightarrow> string \<Rightarrow> fd \<Rightarrow> inet_address \<Rightarrow> inet_address \<Rightarrow>
     ('k, 'z) net_scheme \<Rightarrow> ('k, 'z) net_scheme result" where
  "TcpConnection_ctor os c loop nameArg sockfd localAddr peerAddr s =
     and_then (CheckLoopNotNull loop) (\<lambda>l.
     and_then (Buffer_ctor kInitialSize) (\<lambda>inputBuffer.
     and_then (Buffer_ctor kInitialSize) (\<lambda>outputBuffer.
       let s1 = s\<lparr>chan := (chan s)(ConnChannel c := Channel_ctor l sockfd),
                  conns := (conns s)(c := \<lparr>tc_loop = l, tc_name = nameArg, tc_state = kConnecting,
                    tc_reading = True, tc_socket = sockfd, tc_localAddr = localAddr, tc_peerAddr = peerAddr,
                    tc_connectionCallback = None, tc_messageCallback = None,
                    tc_writeCompleteCallback = None, tc_highWaterMarkCallback = None,
                    tc_closeCallback = None, tc_highWaterMark = 64 * 1024 * 1024,
                    tc_inputBuffer = inputBuffer, tc_outputBuffer = outputBuffer\<rparr>)\<rparr>;
           s2 = Channel_setReadCallback (ConnChannel c) (Bind_TcpConnection_handleRead c) s1;
           s3 = Channel_setWriteCallback (ConnChannel c) (Bind_TcpConnection_handleWrite c) s2;
           s4 = Channel_setCloseCallback (ConnChannel c) (Bind_TcpConnection_handleClose c) s3;
           s5 = Channel_setErrorCallback (ConnChannel c) (Bind_TcpConnection_handleError c) s4
       in Inr (Socket_setKeepAlive os sockfd True s5))))"

definition TcpConnection_connected :: "conn_ptr \<Rightarrow> ('k, 'z) net_scheme \<Rightarrow> bool" where
  "TcpConnection_connected c s \<longleftrightarrow> tc_state (conns s c) = kConnected"

definition TcpConnection_setState :: "conn_ptr \<Rightarrow> conn_state \<Rightarrow> ('k, 'z) net_scheme \<Rightarrow> ('k, 'z) net_scheme" where
  "TcpConnection_setState c st = upd_conn c (\<lambda>tc. tc\<lparr>tc_state := st\<rparr>)"

definition TcpConnection_setConnectionCallback ::
  "conn_ptr \<Rightarrow> user_fn option \<Rightarrow> ('k, 'z) net_scheme \<Rightarrow> ('k, 'z) net_scheme" where
  "TcpConnection_setConnectionCallback c cb = upd_conn c (\<lambda>tc. tc\<lparr>tc_connectionCallback := cb\<rparr>)"

definition TcpConnection_setMessageCallback ::
  "conn_ptr \<Rightarrow> user_fn option \<Rightarrow> ('k, 'z) net_scheme \<Rightarrow> ('k, 'z) net_scheme" where
  "TcpConnection_setMessageCallback c cb = upd_conn c (\<lambda>tc. tc\<lparr>tc_messageCallback := cb\<rparr>)"

definition TcpConnection_setWriteCompleteCallback ::
  "conn_ptr \<Rightarrow> user_fn option \<Rightarrow> ('k, 'z) net_scheme \<Rightarrow> ('k, 'z) net_scheme" where
  "TcpConnection_setWriteCompleteCallback c cb = upd_conn c (\<lambda>tc. tc\<lparr>tc_writeCompleteCallback := cb\<rparr>)"

definition TcpConnection_setCloseCallback ::
  "conn_ptr \<Rightarrow> close_fn option \<Rightarrow> ('k, 'z) net_scheme \<Rightarrow> ('k, 'z) net_scheme" where
  "TcpConnection_setCloseCallback c cb = upd_conn c (\<lambda>tc. tc\<lparr>tc_closeCallback := cb\<rparr>)"

definition TcpConnection_setHighWaterMarkCallback ::
  "conn_ptr \<Rightarrow> user_fn option \<Rightarrow> size_t \<Rightarrow> ('k, 'z) net_scheme \<Rightarrow> ('k, 'z) net_scheme" where
  "TcpConnection_setHighWaterMarkCallback c cb mark =
     upd_conn c (\<lambda>tc. tc\<lparr>tc_highWaterMarkCallback := cb, tc_highWaterMark := mark\<rparr>)"

text \<open>\<^verbatim>\<open>shared_from_this()\<close> throws if no \<^verbatim>\<open>shared_ptr\<close> owns the object; a pointer passed to a
  call lives until the call returns. A call of an empty \<^verbatim>\<open>std::function\<close> throws.\<close>

definition with_shared ::
  "'k os \<Rightarrow> conn_ptr \<Rightarrow> (('k, 'z) net_scheme \<Rightarrow> ('k, 'z) net_scheme result) \<Rightarrow>
     ('k, 'z) net_scheme \<Rightarrow> ('k, 'z) net_scheme result" where
  "with_shared os c f s =
     (if refs s c = 0 then Inl BadWeakPtr
      else and_then (f (retain c s)) (\<lambda>s. Inr (release os c s)))"

definition call_fn :: "'f option \<Rightarrow> ('f \<Rightarrow> 's \<Rightarrow> 's result) \<Rightarrow> 's \<Rightarrow> 's result" where
  "call_fn f run s = (case f of None \<Rightarrow> Inl BadFunctionCall | Some g \<Rightarrow> run g s)"

text \<open>\<^verbatim>\<open>loop_->queueInLoop(std::bind(..., shared_from_this(), ...))\<close>.\<close>

definition queue_shared ::
  "'k os \<Rightarrow> conn_ptr \<Rightarrow> task \<Rightarrow> ('k, 'z) net_scheme \<Rightarrow> ('k, 'z) net_scheme result" where
  "queue_shared os c t s =
     (if refs s c = 0 then Inl BadWeakPtr
      else Inr (EventLoop_queueInLoop os (tc_loop (conns s c)) t s))"

text \<open>\<^verbatim>\<open>sendInLoop(data, len)\<close>, with the bytes at \<^verbatim>\<open>data\<close> as a list of length \<^verbatim>\<open>len\<close>. The first
  part is the direct write, with the values of \<^verbatim>\<open>nwrote\<close>, \<^verbatim>\<open>remaining\<close> and \<^verbatim>\<open>faultError\<close> it
  leaves.\<close>

definition sendInLoop_write ::
  "'k os \<Rightarrow> conn_ptr \<Rightarrow> byte list \<Rightarrow> ('k, 'z) net_scheme \<Rightarrow> (int \<times> size_t \<times> bool \<times> ('k, 'z) net_scheme) result" where
  "sendInLoop_write os c data s =
     (let tc = conns s c; ch = chan s (ConnChannel c) in
      if \<not> Channel_isWriting ch \<and> readableBytes (tc_outputBuffer tc) = 0 then
        (let ((nwrote, e), k') = sys_write os (ch_fd ch) data (kern s); s1 = s\<lparr>kern := k'\<rparr> in
         if nwrote \<ge> 0 then
           (let remaining = of_nat (length data) - word_of_int nwrote in
            case tc_writeCompleteCallback tc of
              Some u \<Rightarrow>
                if remaining = 0
                then and_then (queue_shared os c (Bind_writeComplete u c) s1) (\<lambda>s2. Inr (nwrote, remaining, False, s2))
                else Inr (nwrote, remaining, False, s1)
            | None \<Rightarrow> Inr (nwrote, remaining, False, s1))
         else if e \<noteq> EWOULDBLOCK
           then Inr (0, 0, e = EPIPE \<or> e = ECONNRESET, LOG_ERROR ''TcpConnection::sendInLoop'' 0 s1)
           else Inr (0, 0, False, s1))
      else Inr (0, 0, False, s))"

definition sendInLoop_buffer ::
  "'k os \<Rightarrow> conn_ptr \<Rightarrow> byte list \<Rightarrow> int \<Rightarrow> size_t \<Rightarrow> ('k, 'z) net_scheme \<Rightarrow> ('k, 'z) net_scheme result" where
  "sendInLoop_buffer os c data nwrote remaining s =
     (let tc = conns s c; oldLen = readableBytes (tc_outputBuffer tc); mark = tc_highWaterMark tc in
      and_then
        (case tc_highWaterMarkCallback tc of
           Some u \<Rightarrow>
             if oldLen + remaining \<ge> mark \<and> oldLen < mark
             then queue_shared os c (Bind_highWaterMark u c (oldLen + remaining)) s else Inr s
         | None \<Rightarrow> Inr s) (\<lambda>s1.
      and_then (Buffer_append (drop (nat nwrote) data) remaining (tc_outputBuffer (conns s1 c))) (\<lambda>b.
        let s2 = upd_conn c (\<lambda>tc. tc\<lparr>tc_outputBuffer := b\<rparr>) s1
        in Inr (if \<not> Channel_isWriting (chan s2 (ConnChannel c))
                then Channel_enableWriting os (ConnChannel c) s2 else s2))))"

definition TcpConnection_sendInLoop ::
  "'k os \<Rightarrow> conn_ptr \<Rightarrow> byte list \<Rightarrow> ('k, 'z) net_scheme \<Rightarrow> ('k, 'z) net_scheme result" where
  "TcpConnection_sendInLoop os c data s =
     (let s0 = (if tc_state (conns s c) = kDisconnected
                then LOG_ERROR ''disconnected, give up writing'' 0 s else s)
      in and_then (sendInLoop_write os c data s0) (\<lambda>(nwrote, remaining, faultError, s1).
           if \<not> faultError \<and> remaining > 0 then sendInLoop_buffer os c data nwrote remaining s1
           else Inr s1))"

text \<open>\<^verbatim>\<open>send\<close>. The bound arguments of the queued call are the address and the length of the
  caller's string; the functor carries the bytes, on the assumption that the caller keeps that
  string alive.\<close>

definition TcpConnection_send ::
  "'k os \<Rightarrow> conn_ptr \<Rightarrow> byte list \<Rightarrow> ('k, 'z) net_scheme \<Rightarrow> ('k, 'z) net_scheme result" where
  "TcpConnection_send os c data s =
     (if tc_state (conns s c) = kConnected then
        (if EventLoop_isInLoopThread (tc_loop (conns s c)) s then TcpConnection_sendInLoop os c data s
         else Inr s)
      else EventLoop_runInLoop os (tc_loop (conns s c)) (Bind_sendInLoop c data)
             (TcpConnection_sendInLoop os c data) s)"

definition TcpConnection_shutdownInLoop ::
  "'k os \<Rightarrow> conn_ptr \<Rightarrow> ('k, 'z) net_scheme \<Rightarrow> ('k, 'z) net_scheme" where
  "TcpConnection_shutdownInLoop os c s =
     (if \<not> Channel_isWriting (chan s (ConnChannel c))
      then Socket_shutDownWrite os (tc_socket (conns s c)) s else s)"

definition TcpConnection_shutdown ::
  "'k os \<Rightarrow> conn_ptr \<Rightarrow> ('k, 'z) net_scheme \<Rightarrow> ('k, 'z) net_scheme result" where
  "TcpConnection_shutdown os c s =
     (if tc_state (conns s c) = kConnected
      then EventLoop_runInLoop os (tc_loop (conns s c)) (Bind_shutdownInLoop c)
             (\<lambda>s. Inr (TcpConnection_shutdownInLoop os c s))
             (TcpConnection_setState c kDisconnecting s)
      else Inr s)"

definition TcpConnection_connectEstablished ::
  "'k os \<Rightarrow> ('k, 'z) net_scheme app \<Rightarrow> conn_ptr \<Rightarrow> ('k, 'z) net_scheme \<Rightarrow> ('k, 'z) net_scheme result" where
  "TcpConnection_connectEstablished os app c s =
     and_then (with_shared os c (\<lambda>s. Inr (Channel_tie (ConnChannel c) c s)) (TcpConnection_setState c kConnected s)) (\<lambda>s2.
       with_shared os c
         (\<lambda>s. call_fn (tc_connectionCallback (conns s c)) (\<lambda>f. app_connection app f c) s)
         (Channel_enableReading os (ConnChannel c) s2))"

text \<open>Declared \<^verbatim>\<open>connectDestroyed\<close>, defined as \<^verbatim>\<open>connectDestoryed\<close>.\<close>

definition TcpConnection_connectDestroyed ::
  "'k os \<Rightarrow> ('k, 'z) net_scheme app \<Rightarrow> conn_ptr \<Rightarrow> ('k, 'z) net_scheme \<Rightarrow> ('k, 'z) net_scheme result" where
  "TcpConnection_connectDestroyed os app c s =
     and_then
       (if tc_state (conns s c) = kConnected
        then with_shared os c
               (\<lambda>s. call_fn (tc_connectionCallback (conns s c)) (\<lambda>f. app_connection app f c) s)
               (Channel_disbaleAll os (ConnChannel c) (TcpConnection_setState c kDisconnected s))
        else Inr s)
       (\<lambda>s. Inr (Channel_remove os (ConnChannel c) s))"

definition TcpConnection_handleClose ::
  "'k os \<Rightarrow> ('k, 'z) net_scheme app \<Rightarrow> conn_ptr \<Rightarrow> ('k, 'z) net_scheme \<Rightarrow> ('k, 'z) net_scheme result" where
  "TcpConnection_handleClose os app c s =
     with_shared os c (\<lambda>s.
         and_then (call_fn (tc_connectionCallback (conns s c)) (\<lambda>f. app_connection app f c) s) (\<lambda>s.
         call_fn (tc_closeCallback (conns s c)) (\<lambda>f. app_close app f c) s))
       (Channel_disbaleAll os (ConnChannel c) (TcpConnection_setState c kDisconnected s))"

definition TcpConnection_handleError ::
  "'k os \<Rightarrow> conn_ptr \<Rightarrow> ('k, 'z) net_scheme \<Rightarrow> ('k, 'z) net_scheme" where
  "TcpConnection_handleError os c s =
     (let ((r, e, optval), k') = sys_so_error os (ch_fd (chan s (ConnChannel c))) (kern s);
          err = (if r < 0 then e else optval)
      in LOG_ERROR ''TcpConnection::handleError SO_ERROR'' err (s\<lparr>kern := k'\<rparr>))"

definition TcpConnection_handleRead ::
  "'k os \<Rightarrow> ('k, 'z) net_scheme app \<Rightarrow> int \<Rightarrow> conn_ptr \<Rightarrow> ('k, 'z) net_scheme \<Rightarrow> ('k, 'z) net_scheme result" where
  "TcpConnection_handleRead os app receiveTime c s =
     and_then (Buffer_readFd os (ch_fd (chan s (ConnChannel c))) (tc_inputBuffer (conns s c)) (kern s))
       (\<lambda>(n, savedErrno, b, k').
         let s1 = upd_conn c (\<lambda>tc. tc\<lparr>tc_inputBuffer := b\<rparr>) (s\<lparr>kern := k'\<rparr>)
         in if n > 0 then
              with_shared os c
                (\<lambda>s. call_fn (tc_messageCallback (conns s c)) (\<lambda>f. app_message app f c receiveTime) s) s1
            else if n = 0 then TcpConnection_handleClose os app c s1
            else Inr (TcpConnection_handleError os c (LOG_ERROR ''TcpConnection::handleRead'' 0 s1)))"

definition TcpConnection_handleWrite ::
  "'k os \<Rightarrow> conn_ptr \<Rightarrow> ('k, 'z) net_scheme \<Rightarrow> ('k, 'z) net_scheme result" where
  "TcpConnection_handleWrite os c s =
     (if Channel_isWriting (chan s (ConnChannel c)) then
        and_then (Buffer_writeFd os (ch_fd (chan s (ConnChannel c))) (tc_outputBuffer (conns s c)) (kern s))
          (\<lambda>(n, savedErrno, k').
            if n > 0 then
              (let s1 = upd_conn c (\<lambda>tc. tc\<lparr>tc_outputBuffer := Buffer_retrieve (word_of_int n) (tc_outputBuffer tc)\<rparr>)
                          (s\<lparr>kern := k'\<rparr>)
               in if readableBytes (tc_outputBuffer (conns s1 c)) = 0 then
                    and_then
                      (case tc_writeCompleteCallback (conns s1 c) of
                         Some u \<Rightarrow> queue_shared os c (Bind_writeComplete u c)
                                     (Channel_disableWriting os (ConnChannel c) s1)
                       | None \<Rightarrow> Inr (Channel_disableWriting os (ConnChannel c) s1)) (\<lambda>s3.
                      Inr (if tc_state (conns s3 c) = kDisconnecting
                           then TcpConnection_shutdownInLoop os c s3 else s3))
                  else Inr s1)
            else Inr (LOG_ERROR ''TcpConnection::handleWrite'' 0 (s\<lparr>kern := k'\<rparr>)))
      else Inr (LOG_ERROR ''TcpConnection is down, no more writing'' (ch_fd (chan s (ConnChannel c))) s))"

section \<open>Frame facts\<close>

text \<open>What leaves the extension of the reactor record alone leaves the connections alone.\<close>

lemma conns_more: "reactor.more s' = reactor.more s \<Longrightarrow> conns s' = conns (s :: ('k, 'z) net_scheme)"
  by (cases s; cases s') simp

lemma conns_frame [simp]:
  fixes s :: "('k, 'z) net_scheme"
  shows "conns (LOG_ERROR m n s) = conns s" "conns (upd_chan p g s) = conns s"
    "conns (upd_loop l h s) = conns s" "conns (retain c s) = conns s" "conns (release os c s) = conns s"
    "conns (Channel_update os p s) = conns s" "conns (Channel_remove os p s) = conns s"
    "conns (Channel_set_events e p s) = conns s" "conns (EventLoop_queueInLoop os l t s) = conns s"
    "conns (Socket_shutDownWrite os f s) = conns s" "conns (Socket_setKeepAlive os f b s) = conns s"
  by (rule conns_more, simp)+

lemma upd_conn_sel [simp]:
  "kern (upd_conn c f s) = kern s" "cur_tid (upd_conn c f s) = cur_tid s" "errs (upd_conn c f s) = errs s"
  "chan (upd_conn c f s) = chan s" "loops (upd_conn c f s) = loops s" "refs (upd_conn c f s) = refs s"
  "t_loopInThisThread (upd_conn c f s) = t_loopInThisThread s"
  "conns (upd_conn c f s) = (conns s)(c := f (conns s c))"
  by (simp_all add: upd_conn_def)

lemma mask_sel [simp]:
  fixes s :: "('k, 'z) net_scheme"
  shows "conns (Channel_enableWriting os p s) = conns s" "conns (Channel_disableWriting os p s) = conns s"
    "conns (Channel_enableReading os p s) = conns s" "conns (Channel_disbaleAll os p s) = conns s"
  by (simp_all add: Channel_enableWriting_def Channel_disableWriting_def Channel_enableReading_def
      Channel_disbaleAll_def)

lemmas mask_defs = Channel_enableWriting_def Channel_disableWriting_def Channel_enableReading_def
  Channel_disbaleAll_def

text \<open>Effect of the mask operations on the interest in writing.\<close>

lemma mask_writing [simp]:
  "Channel_isWriting (chan (Channel_enableWriting os p s) p)"
  "\<not> Channel_isWriting (chan (Channel_disableWriting os p s) p)"
  "Channel_isWriting (chan (Channel_enableReading os p s) p) = Channel_isWriting (chan s p)"
  "Channel_isWriting (chan (Channel_disbaleAll os p s) p) = Channel_isWriting (chan s p)"
proof -
  have *: "(e OR 4) AND 4 = (4 :: 32 word)" "e AND NOT 4 AND 4 = 0" "(e OR 3) AND 4 = e AND 4" for e :: "32 word"
    by (simp_all add: bit.conj_disj_distrib2 and.assoc)
  show "Channel_isWriting (chan (Channel_enableWriting os p s) p)"
    "\<not> Channel_isWriting (chan (Channel_disableWriting os p s) p)"
    "Channel_isWriting (chan (Channel_enableReading os p s) p) = Channel_isWriting (chan s p)"
    "Channel_isWriting (chan (Channel_disbaleAll os p s) p) = Channel_isWriting (chan s p)"
    by (simp_all add: mask_defs Channel_isWriting_def kWriteEvent_def kReadEvent_eq kNoneEvent_def * and.assoc)
qed

lemma mask_wire:
  assumes "wire_frame os wire"
  shows "wire (kern (Channel_enableWriting os p s)) = wire (kern s)"
    "wire (kern (Channel_disableWriting os p s)) = wire (kern s)"
  using assms by (simp_all add: mask_defs Channel_update_wire)

lemma wakeup_wire:
  assumes "write_contract os wire" and "el_wakeupFd (loops s l) \<noteq> f"
  shows "wire (kern (EventLoop_wakeup os l s)) f = wire (kern s) f"
proof -
  obtain n e k' where w: "sys_write os (el_wakeupFd (loops s l)) one_bytes (kern s) = ((n, e), k')"
    by (metis surj_pair)
  then have "wire k' f = wire (kern s) f"
    using assms unfolding write_contract_def by (metis fun_upd_other)
  with w show ?thesis by (simp add: EventLoop_wakeup_def Let_def)
qed

lemma queueInLoop_wire:
  assumes "write_contract os wire" and "el_wakeupFd (loops s l) \<noteq> f"
  shows "wire (kern (EventLoop_queueInLoop os l t s)) f = wire (kern s) f"
  using assms by (simp add: EventLoop_queueInLoop_def Let_def wakeup_wire)

lemma shutDownWrite_wire:
  "wire_frame os wire \<Longrightarrow> wire (kern (Socket_shutDownWrite os f s)) = wire (kern s)"
  by (simp add: wire_frame_def Socket_shutDownWrite_def Let_def split: prod.split) (metis snd_conv)

section \<open>The connection invariant\<close>

text \<open>Both buffers are well-formed, the channel belongs to the connection's loop and descriptor,
  and the channel asks for writability exactly while output is waiting.\<close>

definition conn_ok :: "conn_ptr \<Rightarrow> ('k, 'z) net_scheme \<Rightarrow> bool" where
  "conn_ok c s \<longleftrightarrow>
     buffer_ok (tc_inputBuffer (conns s c)) \<and> buffer_ok (tc_outputBuffer (conns s c)) \<and>
     (Channel_isWriting (chan s (ConnChannel c)) \<longleftrightarrow> contents (tc_outputBuffer (conns s c)) \<noteq> []) \<and>
     ch_loop (chan s (ConnChannel c)) = tc_loop (conns s c) \<and>
     ch_fd (chan s (ConnChannel c)) = tc_socket (conns s c)"

text \<open>The stream a connection has produced: what the peer was sent, then what still waits.\<close>

definition outgoing :: "('k \<Rightarrow> fd \<Rightarrow> byte list) \<Rightarrow> conn_ptr \<Rightarrow> ('k, 'z) net_scheme \<Rightarrow> byte list" where
  "outgoing wire c s = wire (kern s) (tc_socket (conns s c)) @ contents (tc_outputBuffer (conns s c))"

text \<open>The connection is owned by some \<^verbatim>\<open>shared_ptr\<close>, and its descriptor is not the loop's wake-up
  descriptor.\<close>

definition conn_live :: "conn_ptr \<Rightarrow> ('k, 'z) net_scheme \<Rightarrow> bool" where
  "conn_live c s \<longleftrightarrow> refs s c \<noteq> 0 \<and> el_wakeupFd (loops s (tc_loop (conns s c))) \<noteq> tc_socket (conns s c)"

lemma readableBytes_0: "buffer_ok b \<Longrightarrow> readableBytes b = 0 \<longleftrightarrow> contents b = []"
  using readableBytes_contents [of b] by (metis length_0_conv unat_eq_zero)

lemma conn_ok_kern [simp]: "conn_ok c (s\<lparr>kern := k\<rparr>) = conn_ok c s"
  by (simp add: conn_ok_def)

lemma conn_ok_LOG [simp]: "conn_ok c (LOG_ERROR m n s) = conn_ok c s"
  by (simp add: conn_ok_def)

lemma conn_ok_queue [simp]: "conn_ok c (EventLoop_queueInLoop os l t s) = conn_ok c s"
  by (simp add: conn_ok_def)

lemma conn_live_kern [simp]: "conn_live c (s\<lparr>kern := k\<rparr>) = conn_live c s"
  by (simp add: conn_live_def)

lemma conn_live_LOG [simp]: "conn_live c (LOG_ERROR m n s) = conn_live c s"
  by (simp add: conn_live_def)

lemma conn_live_queue: "conn_live c s \<Longrightarrow> conn_live c (EventLoop_queueInLoop os l t s)"
  by (auto simp: conn_live_def retain_task_def split: option.splits)

lemma outgoing_LOG [simp]: "outgoing wire c (LOG_ERROR m n s) = outgoing wire c s"
  by (simp add: outgoing_def)

lemma outgoing_queue:
  "write_contract os wire \<Longrightarrow> conn_live c s \<Longrightarrow>
     outgoing wire c (EventLoop_queueInLoop os (tc_loop (conns s c)) t s) = outgoing wire c s"
  by (simp add: outgoing_def conn_live_def queueInLoop_wire)

lemma queue_shared_live:
  "conn_live c s \<Longrightarrow> queue_shared os c t s = Inr (EventLoop_queueInLoop os (tc_loop (conns s c)) t s)"
  by (simp add: queue_shared_def conn_live_def)

section \<open>Sending\<close>

definition completion :: "conn_ptr \<Rightarrow> tcp_connection \<Rightarrow> task list" where
  "completion c tc = (case tc_writeCompleteCallback tc of None \<Rightarrow> [] | Some u \<Rightarrow> [Bind_writeComplete u c])"

text \<open>The direct write, when nothing waits: the bytes the kernel took are on the wire and the
  rest is what remains.\<close>

lemma sendInLoop_write_spec:
  assumes ok: "conn_ok c s" and live: "conn_live c s" and idle: "contents (tc_outputBuffer (conns s c)) = []"
    and ct: "write_contract os wire" and len: "length data < 2 ^ 63"
    and wr: "sys_write os (tc_socket (conns s c)) data (kern s) = ((n, e), k')" and n: "0 \<le> n"
  shows "\<exists>s1. sendInLoop_write os c data s = Inr (n, of_nat (length data) - word_of_int n, False, s1) \<and>
    conn_ok c s1 \<and> conn_live c s1 \<and> conns s1 = conns s \<and> chan s1 = chan s \<and>
    wire (kern s1) (tc_socket (conns s c)) = wire (kern s) (tc_socket (conns s c)) @ take (nat n) data \<and>
    el_pendingFunctors (loops s1 (tc_loop (conns s c))) = el_pendingFunctors (loops s (tc_loop (conns s c))) @
      (if nat n = length data then completion c (conns s c) else [])"
    and "unat (of_nat (length data) - word_of_int n :: size_t) = length data - nat n" and "nat n \<le> length data"
proof -
  show le: "nat n \<le> length data" using ct wr n unfolding write_contract_def by force
  have k': "wire k' (tc_socket (conns s c)) = wire (kern s) (tc_socket (conns s c)) @ take (nat n) data"
    using ct wr n unfolding write_contract_def by (metis fun_upd_same)
  have "unat (of_nat (length data) :: size_t) = length data" "unat (word_of_int n :: size_t) = nat n"
    using len le n unat_of_nat_small [where 'a = 64, of "nat n"] unat_of_nat_small [where 'a = 64, of "length data"]
    by simp_all
  then show r: "unat (of_nat (length data) - word_of_int n :: size_t) = length data - nat n"
    using le by (simp add: unat_diff_le)
  then have r0: "of_nat (length data) - word_of_int n = (0 :: size_t) \<longleftrightarrow> nat n = length data"
    using le by (metis diff_diff_cancel diff_zero diff_self_eq_0 unat_0 unat_eq_zero)
  let ?s1 = "s\<lparr>kern := k'\<rparr>"
  have guard: "\<not> Channel_isWriting (chan s (ConnChannel c))" "readableBytes (tc_outputBuffer (conns s c)) = 0"
    "ch_fd (chan s (ConnChannel c)) = tc_socket (conns s c)"
    using ok idle by (simp_all add: conn_ok_def readableBytes_0)
  have q: "queue_shared os c t ?s1 = Inr (EventLoop_queueInLoop os (tc_loop (conns s c)) t ?s1)"
    "conn_live c (EventLoop_queueInLoop os (tc_loop (conns s c)) t ?s1)"
    "wire (kern (EventLoop_queueInLoop os (tc_loop (conns s c)) t ?s1)) (tc_socket (conns s c)) =
       wire k' (tc_socket (conns s c))" for t
    using live queue_shared_live [of c ?s1 os t] conn_live_queue [of c ?s1 os]
      queueInLoop_wire [OF ct, of ?s1 "tc_loop (conns s c)" "tc_socket (conns s c)"]
    by (auto simp: conn_live_def)
  show "\<exists>s1. sendInLoop_write os c data s = Inr (n, of_nat (length data) - word_of_int n, False, s1) \<and>
    conn_ok c s1 \<and> conn_live c s1 \<and> conns s1 = conns s \<and> chan s1 = chan s \<and>
    wire (kern s1) (tc_socket (conns s c)) = wire (kern s) (tc_socket (conns s c)) @ take (nat n) data \<and>
    el_pendingFunctors (loops s1 (tc_loop (conns s c))) = el_pendingFunctors (loops s (tc_loop (conns s c))) @
      (if nat n = length data then completion c (conns s c) else [])"
    using guard wr n ok live k' r0
    by (auto simp: sendInLoop_write_def Let_def q completion_def split: option.splits)
qed

definition overflow_note :: "conn_ptr \<Rightarrow> tcp_connection \<Rightarrow> size_t \<Rightarrow> task list" where
  "overflow_note c tc r =
     (case tc_highWaterMarkCallback tc of
        None \<Rightarrow> []
      | Some u \<Rightarrow>
          if readableBytes (tc_outputBuffer tc) + r \<ge> tc_highWaterMark tc \<and>
             readableBytes (tc_outputBuffer tc) < tc_highWaterMark tc
          then [Bind_highWaterMark u c (readableBytes (tc_outputBuffer tc) + r)] else [])"

lemma enableWriting_sel [simp]:
  "ch_fd (chan (Channel_enableWriting os p s) q) = ch_fd (chan s q)"
  "ch_loop (chan (Channel_enableWriting os p s) q) = ch_loop (chan s q)"
  "refs (Channel_enableWriting os p s) = refs s"
  "el_wakeupFd (loops (Channel_enableWriting os p s) l) = el_wakeupFd (loops s l)"
  "el_pendingFunctors (loops (Channel_enableWriting os p s) l) = el_pendingFunctors (loops s l)"
  by (simp_all add: Channel_enableWriting_def)

lemma disableWriting_sel [simp]:
  "ch_fd (chan (Channel_disableWriting os p s) q) = ch_fd (chan s q)"
  "ch_loop (chan (Channel_disableWriting os p s) q) = ch_loop (chan s q)"
  "refs (Channel_disableWriting os p s) = refs s"
  "el_wakeupFd (loops (Channel_disableWriting os p s) l) = el_wakeupFd (loops s l)"
  "el_pendingFunctors (loops (Channel_disableWriting os p s) l) = el_pendingFunctors (loops s l)"
  by (simp_all add: Channel_disableWriting_def)

text \<open>Storing the rest and asking for writability.\<close>

lemma store_rest:
  assumes "conn_ok c s" and "conn_live c s" and "buffer_ok b" and "contents b \<noteq> []" and "wire_frame os wire"
  defines "s2 \<equiv> upd_conn c (\<lambda>tc. tc\<lparr>tc_outputBuffer := b\<rparr>) s"
  defines "s' \<equiv> if \<not> Channel_isWriting (chan s2 (ConnChannel c)) then Channel_enableWriting os (ConnChannel c) s2 else s2"
  shows "conn_ok c s'" and "conn_live c s'" and "conns s' = (conns s)(c := (conns s c)\<lparr>tc_outputBuffer := b\<rparr>)"
    and "wire (kern s') = wire (kern s)"
    and "el_pendingFunctors (loops s' l) = el_pendingFunctors (loops s l)"
  using assms(1-5) by (auto simp: s'_def s2_def conn_ok_def conn_live_def mask_wire)

text \<open>Queueing a list of functors of the connection.\<close>

lemma queue_all:
  fixes ts :: "task list"
  assumes "conn_ok c s" and "conn_live c s" and "write_contract os wire"
  defines "l \<equiv> tc_loop (conns s c)"
  defines "s' \<equiv> fold (EventLoop_queueInLoop os l) ts s"
  shows "conn_ok c s'" and "conn_live c s'" and "conns s' = conns s" and "chan s' = chan s"
    and "wire (kern s') (tc_socket (conns s c)) = wire (kern s) (tc_socket (conns s c))"
    and "el_pendingFunctors (loops s' l) = el_pendingFunctors (loops s l) @ ts"
    and "cur_tid s' = cur_tid s"
proof -
  have "conn_ok c s' \<and> conn_live c s' \<and> conns s' = conns s \<and> chan s' = chan s \<and>
      wire (kern s') (tc_socket (conns s c)) = wire (kern s) (tc_socket (conns s c)) \<and>
      el_pendingFunctors (loops s' l) = el_pendingFunctors (loops s l) @ ts \<and> cur_tid s' = cur_tid s"
    unfolding s'_def
  proof (induction ts rule: rev_induct)
    case Nil
    then show ?case using assms(1,2) by simp
  next
    case (snoc t ts)
    let ?u = "fold (EventLoop_queueInLoop os l) ts s"
    have "el_wakeupFd (loops ?u l) \<noteq> tc_socket (conns s c)"
      using snoc by (auto simp: conn_live_def l_def)
    from queueInLoop_wire [OF assms(3) this] snoc show ?case
      by (simp add: conn_live_queue)
  qed
  then show "conn_ok c s'" and "conn_live c s'" and "conns s' = conns s" and "chan s' = chan s"
    and "wire (kern s') (tc_socket (conns s c)) = wire (kern s) (tc_socket (conns s c))"
    and "el_pendingFunctors (loops s' l) = el_pendingFunctors (loops s l) @ ts"
    and "cur_tid s' = cur_tid s" by blast+
qed

lemma sendInLoop_buffer_spec:
  assumes ok: "conn_ok c s" and live: "conn_live c s" and ct: "write_contract os wire" "wire_frame os wire"
    and room: "room_for (unat r) (tc_outputBuffer (conns s c))"
    and r: "unat r \<le> length (drop (nat n) data)" "r \<noteq> 0"
  shows "\<exists>s' b. sendInLoop_buffer os c data n r s = Inr s' \<and> conn_ok c s' \<and> conn_live c s' \<and>
    conns s' = (conns s)(c := (conns s c)\<lparr>tc_outputBuffer := b\<rparr>) \<and>
    contents b = contents (tc_outputBuffer (conns s c)) @ take (unat r) (drop (nat n) data) \<and>
    wire (kern s') (tc_socket (conns s c)) = wire (kern s) (tc_socket (conns s c)) \<and>
    el_pendingFunctors (loops s' (tc_loop (conns s c))) =
      el_pendingFunctors (loops s (tc_loop (conns s c))) @ overflow_note c (conns s c) r"
proof -
  let ?l = "tc_loop (conns s c)" and ?f = "tc_socket (conns s c)"
  obtain b where b: "Buffer_append (drop (nat n) data) r (tc_outputBuffer (conns s c)) = Inr b" "buffer_ok b"
      "contents b = contents (tc_outputBuffer (conns s c)) @ take (unat r) (drop (nat n) data)"
    using Buffer_append_spec [OF _ room r(1)] ok by (auto simp: conn_ok_def)
  have ne: "contents b \<noteq> []" using b(3) r by (auto simp: unat_eq_zero)
  let ?store = "\<lambda>s1. let s2 = upd_conn c (\<lambda>tc. tc\<lparr>tc_outputBuffer := b\<rparr>) s1
        in if \<not> Channel_isWriting (chan s2 (ConnChannel c))
                then Channel_enableWriting os (ConnChannel c) s2 else s2"
  let ?s1 = "fold (EventLoop_queueInLoop os ?l) (overflow_note c (conns s c) r) s"
  note q = queue_all [OF ok live ct(1), of "overflow_note c (conns s c) r"]
  have run: "sendInLoop_buffer os c data n r s = Inr (?store ?s1)"
    using b(1) live
    by (auto simp: sendInLoop_buffer_def Let_def overflow_note_def queue_shared_live split: option.splits)
  show ?thesis
    using run store_rest [OF q(1,2) b(2) ne ct(2)] q b
    by (intro exI [of _ "?store ?s1"] exI [of _ b]) (simp add: Let_def)
qed

lemma sendInLoop_accepts:
  assumes ok: "conn_ok c s" and live: "conn_live c s" and ct: "write_contract os wire" "wire_frame os wire"
    and idle: "contents (tc_outputBuffer (conns s c)) = []"
    and len: "length data < 2 ^ 63" and room: "room_for (length data) (tc_outputBuffer (conns s c))"
    and wr: "sys_write os (tc_socket (conns s c)) data (kern s) = ((n, e), k')" and n: "0 \<le> n"
  shows "\<exists>s' b. TcpConnection_sendInLoop os c data s = Inr s' \<and> conn_ok c s' \<and> conn_live c s' \<and>
    conns s' = (conns s)(c := (conns s c)\<lparr>tc_outputBuffer := b\<rparr>) \<and> contents b = drop (nat n) data \<and>
    wire (kern s') (tc_socket (conns s c)) = wire (kern s) (tc_socket (conns s c)) @ take (nat n) data \<and>
    el_pendingFunctors (loops s' (tc_loop (conns s c))) = el_pendingFunctors (loops s (tc_loop (conns s c))) @
      (if nat n = length data then completion c (conns s c)
       else overflow_note c (conns s c) (of_nat (length data) - word_of_int n))"
proof -
  let ?s0 = "if tc_state (conns s c) = kDisconnected then LOG_ERROR ''disconnected, give up writing'' 0 s else s"
  let ?r = "of_nat (length data) - word_of_int n :: size_t"
  have s0: "conn_ok c ?s0" "conn_live c ?s0" "conns ?s0 = conns s" "kern ?s0 = kern s"
      "loops ?s0 = loops s" "chan ?s0 = chan s" using ok live by simp_all
  note w = sendInLoop_write_spec [OF s0(1,2) _ ct(1) len _ n, unfolded s0, OF idle wr]
  then obtain s1 where s1: "sendInLoop_write os c data ?s0 = Inr (n, ?r, False, s1)" "conn_ok c s1"
      "conn_live c s1" "conns s1 = conns s"
      "wire (kern s1) (tc_socket (conns s c)) = wire (kern s) (tc_socket (conns s c)) @ take (nat n) data"
      "el_pendingFunctors (loops s1 (tc_loop (conns s c))) = el_pendingFunctors (loops s (tc_loop (conns s c))) @
         (if nat n = length data then completion c (conns s c) else [])" by blast
  show ?thesis
  proof (cases "nat n = length data")
    case True
    with w(2) have "?r = 0" by (simp add: unat_eq_zero)
    moreover have "(conns s)(c := (conns s c)\<lparr>tc_outputBuffer := tc_outputBuffer (conns s c)\<rparr>) = conns s"
      by simp
    ultimately show ?thesis using s1 True idle
      by (intro exI [of _ s1] exI [of _ "tc_outputBuffer (conns s c)"]) (simp add: TcpConnection_sendInLoop_def Let_def)
  next
    case False
    with w(2,3) have r: "?r \<noteq> 0" "unat ?r = length (drop (nat n) data)" by (auto simp: unat_eq_zero)
    then have "room_for (unat ?r) (tc_outputBuffer (conns s1 c))"
      using room s1(4) by (simp add: room_for_def)
    from sendInLoop_buffer_spec [OF s1(2,3) ct this, of n data] r s1(4)
    obtain s' b where "sendInLoop_buffer os c data n ?r s1 = Inr s'" "conn_ok c s'" "conn_live c s'"
        "conns s' = (conns s)(c := (conns s c)\<lparr>tc_outputBuffer := b\<rparr>)"
        "contents b = drop (nat n) data"
        "wire (kern s') (tc_socket (conns s c)) = wire (kern s1) (tc_socket (conns s c))"
        "el_pendingFunctors (loops s' (tc_loop (conns s c))) =
          el_pendingFunctors (loops s1 (tc_loop (conns s c))) @ overflow_note c (conns s c) ?r"
      using idle by auto
    with s1 False r show ?thesis
      by (intro exI [of _ s'] exI [of _ b]) (simp add: TcpConnection_sendInLoop_def Let_def word_greater_zero_iff)
  qed
qed

text \<open>
  C21: \<^verbatim>\<open>sendInLoop\<close> on a connection with no output waiting neither loses nor reorders bytes: if the
  write does not fail, the bytes the kernel took are on the wire, the rest is the new content of
  the output buffer, and the stream of the connection has grown by exactly the data. The channel
  asks for writability exactly if something is left; a write that took everything queues the
  write-complete callback, and one that did not queues the high-water-mark callback when the
  mark is reached.
\<close>

theorem sendInLoop_keeps_stream:
  assumes "conn_ok c s" and "conn_live c s" and "write_contract os wire" and "wire_frame os wire"
    and "contents (tc_outputBuffer (conns s c)) = []"
    and "length data < 2 ^ 63" and "room_for (length data) (tc_outputBuffer (conns s c))"
    and "sys_write os (tc_socket (conns s c)) data (kern s) = ((n, e), k')" and "0 \<le> n"
  shows "\<exists>s'. TcpConnection_sendInLoop os c data s = Inr s' \<and> conn_ok c s' \<and>
    outgoing wire c s' = outgoing wire c s @ data \<and>
    wire (kern s') (tc_socket (conns s c)) = wire (kern s) (tc_socket (conns s c)) @ take (nat n) data \<and>
    Channel_isWriting (chan s' (ConnChannel c)) = (nat n < length data) \<and>
    el_pendingFunctors (loops s' (tc_loop (conns s c))) = el_pendingFunctors (loops s (tc_loop (conns s c))) @
      (if nat n = length data then completion c (conns s c)
       else overflow_note c (conns s c) (of_nat (length data) - word_of_int n))"
proof -
  obtain s' b where "TcpConnection_sendInLoop os c data s = Inr s'" "conn_ok c s'"
      "conns s' = (conns s)(c := (conns s c)\<lparr>tc_outputBuffer := b\<rparr>)" "contents b = drop (nat n) data"
      "wire (kern s') (tc_socket (conns s c)) = wire (kern s) (tc_socket (conns s c)) @ take (nat n) data"
      "el_pendingFunctors (loops s' (tc_loop (conns s c))) = el_pendingFunctors (loops s (tc_loop (conns s c))) @
        (if nat n = length data then completion c (conns s c)
         else overflow_note c (conns s c) (of_nat (length data) - word_of_int n))"
    using sendInLoop_accepts [OF assms] by blast
  then show ?thesis using assms(5)
    by (intro exI [of _ s']) (simp add: outgoing_def conn_ok_def [of c s'] not_le)
qed

text \<open>A concrete connection: descriptor 7, connected, served by loop 0, owned once.\<close>

definition sim_buffer :: buffer where
  "sim_buffer = \<lparr>buf = replicate 16 0, readerIndex = 8, writerIndex = 8\<rparr>"

definition sim_conn :: tcp_connection where
  "sim_conn = \<lparr>tc_loop = 0, tc_name = ''EchoServer-127.0.0.1:8002#1'', tc_state = kConnected,
     tc_reading = True, tc_socket = 7, tc_localAddr = \<lparr>sin_family = 2, sin_port = 0, sin_addr = 0\<rparr>,
     tc_peerAddr = \<lparr>sin_family = 2, sin_port = 0, sin_addr = 0\<rparr>, tc_connectionCallback = Some 0,
     tc_messageCallback = Some 0, tc_writeCompleteCallback = Some 3, tc_highWaterMarkCallback = None,
     tc_closeCallback = None, tc_highWaterMark = 64 * 1024 * 1024,
     tc_inputBuffer = sim_buffer, tc_outputBuffer = sim_buffer\<rparr>"

definition sim_net :: "sim net" where
  "sim_net = reactor.extend (reactor.truncate (sim_reactor\<lparr>refs := (\<lambda>_. 1),
     chan := (\<lambda>p. case p of ConnChannel c \<Rightarrow> Channel_ctor 0 7 | _ \<Rightarrow> Channel_ctor 0 5)\<rparr>))
     \<lparr>conns = (\<lambda>_. sim_conn)\<rparr>"

lemma sim_net_sel [simp]:
  "kern sim_net = sim_init" "cur_tid sim_net = 100" "errs sim_net = []" "refs sim_net = (\<lambda>_. 1)"
  "chan sim_net (ConnChannel c) = Channel_ctor 0 7" "loops sim_net = loops sim_reactor"
  "conns sim_net = (\<lambda>_. sim_conn)"
  by (simp_all add: sim_net_def sim_reactor_def reactor.defs)

lemma sim_buffer_ok [simp]: "buffer_ok sim_buffer" "contents sim_buffer = []"
  by (simp_all add: buffer_ok_def contents_def sim_buffer_def vector_max_size_def)

lemma sim_loop_sel [simp]: "el_wakeupFd (loops sim_reactor l) = 4" "el_threadId (loops sim_reactor l) = 100"
  "el_pendingFunctors (loops sim_reactor l) = []"
  by (simp_all add: sim_reactor_def)

lemma sim_net_ok: "conn_ok c sim_net" "conn_live c sim_net"
  by (simp_all add: conn_ok_def conn_live_def sim_conn_def Channel_ctor_def Channel_isWriting_def kWriteEvent_def)

theorem sendInLoop_keeps_stream_witness:
  "\<exists>s'. TcpConnection_sendInLoop sim_os 2 [1, 2, 3, 4, 5, 6] sim_net = Inr s' \<and>
     outgoing sim_wire 2 s' = [1, 2, 3, 4, 5, 6] \<and> sim_wire (kern s') 7 = [1, 2, 3, 4] \<and>
     Channel_isWriting (chan s' (ConnChannel 2))"
proof -
  let ?k = "sim_init\<lparr>sim_wire := (sim_wire sim_init)(7 := [1, 2, 3, 4])\<rparr>"
  have wr: "sys_write sim_os (tc_socket (conns sim_net 2)) [1, 2, 3, 4, 5, 6] (kern sim_net) = ((4, 0), ?k)"
    by (simp add: sim_write_def sim_init_def sim_conn_def)
  have "contents (tc_outputBuffer (conns sim_net 2)) = []" "length [1, 2, 3, 4, 5, 6 :: byte] < 2 ^ 63"
      "room_for (length [1, 2, 3, 4, 5, 6 :: byte]) (tc_outputBuffer (conns sim_net 2))" "(0 :: int) \<le> 4"
    by (simp_all add: sim_conn_def room_for_def sim_buffer_def vector_max_size_def contents_def)
  from sendInLoop_keeps_stream [OF sim_net_ok sim_write_contract sim_wire_frame this(1-3) wr this(4)]
  show ?thesis by (auto simp: outgoing_def sim_conn_def sim_init_def)
qed

text \<open>
  C36: \<^verbatim>\<open>sendInLoop\<close> silently drops data. If earlier output still waits, or the write fails (even with
  \<^verbatim>\<open>EWOULDBLOCK\<close>, a full socket buffer), the call returns normally, but no byte of the data is
  written, buffered or announced: \<^verbatim>\<open>remaining\<close> starts as 0 and is only set after a successful
  write. The comment in the code says that what was not sent is kept for \<^verbatim>\<open>handleWrite\<close>.
\<close>

theorem sendInLoop_drops_data:
  assumes "conn_ok c s" and "write_contract os wire"
    and "contents (tc_outputBuffer (conns s c)) = [] \<Longrightarrow> fst (fst (sys_write os (tc_socket (conns s c)) data (kern s))) < 0"
  shows "\<exists>s'. TcpConnection_sendInLoop os c data s = Inr s' \<and> outgoing wire c s' = outgoing wire c s \<and>
    conns s' = conns s \<and> chan s' = chan s \<and> loops s' = loops s \<and> refs s' = refs s"
proof (cases "contents (tc_outputBuffer (conns s c)) = []")
  case True
  then obtain n e k' where w: "sys_write os (tc_socket (conns s c)) data (kern s) = ((n, e), k')" "n < 0"
    using assms(3) by (metis prod.collapse)
  then have "wire k' = wire (kern s)" using assms(2) unfolding write_contract_def by (metis not_le)
  with True w assms(1) show ?thesis
    by (auto simp: TcpConnection_sendInLoop_def sendInLoop_write_def Let_def conn_ok_def readableBytes_0 outgoing_def)
next
  case False
  with assms(1) show ?thesis
    by (auto simp: TcpConnection_sendInLoop_def sendInLoop_write_def Let_def conn_ok_def outgoing_def)
qed

definition sim_backlog :: "sim net" where
  "sim_backlog = Channel_enableWriting sim_os (ConnChannel 2)
     (upd_conn 2 (\<lambda>tc. tc\<lparr>tc_outputBuffer := \<lparr>buf = [0,0,0,0,0,0,0,0,5,6], readerIndex = 8, writerIndex = 10\<rparr>\<rparr>) sim_net)"

lemma sim_backlog_ok: "conn_ok 2 sim_backlog" "conn_live 2 sim_backlog"
  "contents (tc_outputBuffer (conns sim_backlog 2)) = [5, 6]"
  by (simp_all add: sim_backlog_def conn_ok_def conn_live_def sim_conn_def Channel_ctor_def contents_def
      sim_buffer_def buffer_ok_def vector_max_size_def)

theorem sendInLoop_drops_data_witness:
  "\<exists>s'. TcpConnection_sendInLoop sim_os 2 [1, 2, 3] sim_backlog = Inr s' \<and>
     outgoing sim_wire 2 s' = outgoing sim_wire 2 sim_backlog \<and>
     contents (tc_outputBuffer (conns s' 2)) = [5, 6]"
proof -
  have "\<exists>s'. TcpConnection_sendInLoop sim_os 2 [1, 2, 3] sim_backlog = Inr s' \<and>
      outgoing sim_wire 2 s' = outgoing sim_wire 2 sim_backlog \<and> conns s' = conns sim_backlog \<and>
      chan s' = chan sim_backlog \<and> loops s' = loops sim_backlog \<and> refs s' = refs sim_backlog"
    by (rule sendInLoop_drops_data [OF sim_backlog_ok(1) sim_write_contract]) (simp add: sim_backlog_ok)
  then show ?thesis using sim_backlog_ok(3) by auto
qed

section \<open>Draining the output\<close>

text \<open>\<^verbatim>\<open>shutdown(2)\<close>: the set of descriptors whose sending direction is closed is an observation
  \<^term>\<open>shut\<close> of the kernel; a successful \<^verbatim>\<open>shutdown\<close> adds its own descriptor, a failed one and the
  other calls made here leave the set alone.\<close>

definition shutdown_contract :: "'k os \<Rightarrow> ('k \<Rightarrow> fd set) \<Rightarrow> bool" where
  "shutdown_contract os shut \<longleftrightarrow>
     (\<forall>f k. shut (snd (sys_shutdown_wr os f k)) =
        (if 0 \<le> fst (sys_shutdown_wr os f k) then insert f (shut k) else shut k)) \<and>
     (\<forall>ep opn f ev k. shut (snd (sys_epoll_ctl os ep opn f ev k)) = shut k) \<and>
     (\<forall>f bs k. shut (snd (sys_write os f bs k)) = shut k)"

definition shutdown_succeeds :: "'k os \<Rightarrow> fd \<Rightarrow> bool" where
  "shutdown_succeeds os f \<longleftrightarrow> (\<forall>k. 0 \<le> fst (sys_shutdown_wr os f k))"

lemma shutDownWrite_kern: "kern (Socket_shutDownWrite os f s) = snd (sys_shutdown_wr os f (kern s))"
  by (simp add: Socket_shutDownWrite_def Let_def split: prod.split)

lemma shutDownWrite_shut:
  assumes "shutdown_contract os shut"
  shows "shut (kern (Socket_shutDownWrite os f s)) \<subseteq> insert f (shut (kern s))"
    and "shutdown_succeeds os f \<Longrightarrow> shut (kern (Socket_shutDownWrite os f s)) = insert f (shut (kern s))"
  using assms by (auto simp: shutdown_contract_def shutdown_succeeds_def shutDownWrite_kern split: if_splits)

lemma EpollPoller_update_shut:
  "shutdown_contract os shut \<Longrightarrow> shut (kern (EpollPoller_update os l opn p s)) = shut (kern s)"
  by (simp add: shutdown_contract_def EpollPoller_update_def Let_def split: prod.split) (metis snd_conv)

lemma disableWriting_shut:
  "shutdown_contract os shut \<Longrightarrow> shut (kern (Channel_disableWriting os p s)) = shut (kern s)"
  by (simp add: Channel_disableWriting_def Channel_update_def EventLoop_updateChannel_def
      EpollPoller_updateChannel_def Let_def EpollPoller_update_shut)

lemma wakeup_shut:
  "shutdown_contract os shut \<Longrightarrow> shut (kern (EventLoop_wakeup os l s)) = shut (kern s)"
  by (simp add: shutdown_contract_def EventLoop_wakeup_def Let_def split: prod.split) (metis snd_conv)

lemma queueInLoop_shut:
  "shutdown_contract os shut \<Longrightarrow> shut (kern (EventLoop_queueInLoop os l t s)) = shut (kern s)"
  by (simp add: EventLoop_queueInLoop_def Let_def wakeup_shut)

lemma queue_all_shut:
  "shutdown_contract os shut \<Longrightarrow> shut (kern (fold (EventLoop_queueInLoop os l) ts s)) = shut (kern s)"
  by (induction ts arbitrary: s) (simp_all add: queueInLoop_shut)

text \<open>The end of \<^verbatim>\<open>handleWrite\<close> when the last byte has left.\<close>

definition drained :: "'k os \<Rightarrow> conn_ptr \<Rightarrow> ('k, 'z) net_scheme \<Rightarrow> ('k, 'z) net_scheme" where
  "drained os c s =
     (let s2 = fold (EventLoop_queueInLoop os (tc_loop (conns s c))) (completion c (conns s c))
                 (Channel_disableWriting os (ConnChannel c) s)
      in if tc_state (conns s c) = kDisconnecting then Socket_shutDownWrite os (tc_socket (conns s c)) s2 else s2)"

lemma drained_spec:
  assumes b: "buffer_ok (tc_inputBuffer (conns s c))" "buffer_ok (tc_outputBuffer (conns s c))"
      "contents (tc_outputBuffer (conns s c)) = []"
      "ch_loop (chan s (ConnChannel c)) = tc_loop (conns s c)" "ch_fd (chan s (ConnChannel c)) = tc_socket (conns s c)"
    and live: "conn_live c s" and ct: "write_contract os wire" "wire_frame os wire" "shutdown_contract os shut"
  defines "s' \<equiv> drained os c s"
  shows "conn_ok c s'" and "conn_live c s'" and "conns s' = conns s"
    and "wire (kern s') (tc_socket (conns s c)) = wire (kern s) (tc_socket (conns s c))"
    and "el_pendingFunctors (loops s' (tc_loop (conns s c))) =
      el_pendingFunctors (loops s (tc_loop (conns s c))) @ completion c (conns s c)"
    and "shut (kern s') \<subseteq> shut (kern s) \<union>
      (if tc_state (conns s c) = kDisconnecting then {tc_socket (conns s c)} else {})"
    and "tc_state (conns s c) = kDisconnecting \<Longrightarrow> shutdown_succeeds os (tc_socket (conns s c)) \<Longrightarrow>
      tc_socket (conns s c) \<in> shut (kern s')"
proof -
  let ?s1 = "Channel_disableWriting os (ConnChannel c) s"
  have s1: "conn_ok c ?s1" "conn_live c ?s1" using b live by (simp_all add: conn_ok_def conn_live_def)
  let ?s2 = "fold (EventLoop_queueInLoop os (tc_loop (conns s c))) (completion c (conns s c)) ?s1"
  note q = queue_all [OF s1 ct(1), of "completion c (conns s c)", simplified]
  have w: "wire (kern ?s1) = wire (kern s)" "shut (kern ?s1) = shut (kern s)"
    using ct by (simp_all add: mask_wire disableWriting_shut)
  have sd: "conn_ok c (Socket_shutDownWrite os f ?s2)" "conn_live c (Socket_shutDownWrite os f ?s2)" for f
    using q(1,2) by (simp_all add: conn_ok_def conn_live_def)
  show "conn_ok c s'" "conn_live c s'" "conns s' = conns s"
    "wire (kern s') (tc_socket (conns s c)) = wire (kern s) (tc_socket (conns s c))"
    "el_pendingFunctors (loops s' (tc_loop (conns s c))) =
      el_pendingFunctors (loops s (tc_loop (conns s c))) @ completion c (conns s c)"
    "shut (kern s') \<subseteq> shut (kern s) \<union>
      (if tc_state (conns s c) = kDisconnecting then {tc_socket (conns s c)} else {})"
    using q w sd ct shutDownWrite_shut(1) [OF ct(3), of "tc_socket (conns s c)" ?s2]
    by (simp_all add: s'_def drained_def Let_def shutDownWrite_wire queue_all_shut)
  show "tc_socket (conns s c) \<in> shut (kern s')"
    if "tc_state (conns s c) = kDisconnecting" "shutdown_succeeds os (tc_socket (conns s c))"
    using that ct(3) by (simp add: s'_def drained_def Let_def shutDownWrite_shut(2))
qed

lemma handleWrite_spec:
  assumes ok: "conn_ok c s" and live: "conn_live c s"
    and ct: "write_contract os wire" "wire_frame os wire" "shutdown_contract os shut"
    and wait: "contents (tc_outputBuffer (conns s c)) \<noteq> []"
    and wr: "sys_write os (tc_socket (conns s c)) (contents (tc_outputBuffer (conns s c))) (kern s) = ((n, e), k')"
  shows "\<exists>s' b. TcpConnection_handleWrite os c s = Inr s' \<and> conn_ok c s' \<and> conn_live c s' \<and>
    conns s' = (conns s)(c := (conns s c)\<lparr>tc_outputBuffer := b\<rparr>) \<and>
    contents b = drop (nat n) (contents (tc_outputBuffer (conns s c))) \<and>
    outgoing wire c s' = outgoing wire c s \<and>
    el_pendingFunctors (loops s' (tc_loop (conns s c))) = el_pendingFunctors (loops s (tc_loop (conns s c))) @
      (if contents b = [] then completion c (conns s c) else []) \<and>
    shut (kern s') \<subseteq> shut (kern s) \<union>
      (if contents b = [] \<and> tc_state (conns s c) = kDisconnecting then {tc_socket (conns s c)} else {}) \<and>
    (contents b = [] \<and> tc_state (conns s c) = kDisconnecting \<and> shutdown_succeeds os (tc_socket (conns s c)) \<longrightarrow>
       tc_socket (conns s c) \<in> shut (kern s'))"
proof -
  let ?f = "tc_socket (conns s c)" and ?b = "tc_outputBuffer (conns s c)"
  have bo: "buffer_ok ?b" and wr_on: "Channel_isWriting (chan s (ConnChannel c))"
    and f: "ch_fd (chan s (ConnChannel c)) = ?f" "ch_loop (chan s (ConnChannel c)) = tc_loop (conns s c)"
    and bi: "buffer_ok (tc_inputBuffer (conns s c))"
    using ok wait by (simp_all add: conn_ok_def)
  have n: "nat n \<le> length (contents ?b)" and k': "wire k' ?f = wire (kern s) ?f @ take (nat n) (contents ?b)"
    using ct(1) wr unfolding write_contract_def
    by (force, metis fun_upd_same nat_le_0 not_le_imp_less order_less_imp_le take0 append_Nil2 nat_eq_iff2)
  have ks: "shut k' = shut (kern s)" using ct(3) wr unfolding shutdown_contract_def by (metis snd_conv)
  show ?thesis
  proof (cases "n > 0")
    case False
    let ?s' = "LOG_ERROR ''TcpConnection::handleWrite'' 0 (s\<lparr>kern := k'\<rparr>)"
    have "TcpConnection_handleWrite os c s = Inr ?s'"
      using wr_on f wr False by (simp add: TcpConnection_handleWrite_def Buffer_writeFd_spec [OF bo])
    with False ok live wait k' ks show ?thesis
      by (intro exI [of _ ?s'] exI [of _ ?b]) (simp add: outgoing_def)
  next
    case True
    let ?b' = "Buffer_retrieve (word_of_int n) ?b"
    let ?s1 = "upd_conn c (\<lambda>tc. tc\<lparr>tc_outputBuffer := Buffer_retrieve (word_of_int n) (tc_outputBuffer tc)\<rparr>) (s\<lparr>kern := k'\<rparr>)"
    have "length (contents ?b) < 2 ^ 63" using buffer_ok_bounds [OF bo] bo by (simp add: less_imp_diff_less)
    then have un: "unat (word_of_int n :: size_t) = nat n"
      using n True unat_of_nat_small [where 'a = 64, of "nat n"] by simp
    have b': "buffer_ok ?b'" "contents ?b' = drop (nat n) (contents ?b)"
      using bo un by simp_all
    have c1: "conns ?s1 = (conns s)(c := (conns s c)\<lparr>tc_outputBuffer := ?b'\<rparr>)" by simp
    have run: "TcpConnection_handleWrite os c s = Inr (if contents ?b' = [] then drained os c ?s1 else ?s1)"
      using wr_on f wr True b'(1) live
      by (auto simp: TcpConnection_handleWrite_def Buffer_writeFd_spec [OF bo] Let_def readableBytes_0 [OF b'(1)]
          drained_def completion_def queue_shared_live conn_live_def TcpConnection_shutdownInLoop_def
          queue_shared_def split: option.splits)
    have live1: "conn_live c ?s1" using live by (simp add: conn_live_def)
    show ?thesis
    proof (cases "contents ?b' = []")
      case True
      note d = drained_spec [of ?s1 c, OF _ _ _ _ _ live1 ct, simplified, OF bi b'(1) True f(2,1)]
      show ?thesis
        using run True d k' ks b' c1
        by (intro exI [of _ "drained os c ?s1"] exI [of _ ?b'])
          (auto simp: outgoing_def completion_def shutdown_succeeds_def split: if_splits)
    next
      case False
      with run b' c1 k' ks ok live1 wait show ?thesis
        by (intro exI [of _ ?s1] exI [of _ ?b']) (simp add: outgoing_def conn_ok_def)
    qed
  qed
qed


lemma sim_shutdown_contract: "shutdown_contract sim_os (\<lambda>k. set (sim_shut k))"
  by (auto simp: shutdown_contract_def sim_os_def sim_ctl_def sim_write_def Let_def)

lemma sim_backlog_sel [simp]: "tc_socket (conns sim_backlog 2) = 7" "tc_loop (conns sim_backlog 2) = 0"
  "tc_state (conns sim_backlog 2) = kConnected" "el_pendingFunctors (loops sim_backlog 0) = []"
  "tc_writeCompleteCallback (conns sim_backlog 2) = Some 3" "sim_wire (kern sim_backlog) = (\<lambda>_. [])"
  "sim_sndbuf (kern sim_backlog) = 4"
  by (simp_all add: sim_backlog_def sim_conn_def mask_wire [OF sim_wire_frame] sim_init_def)
    (simp add: sim_init_def sim_reactor_def Channel_ctor_def Channel_enableWriting_def Channel_update_def
      EventLoop_updateChannel_def EpollPoller_updateChannel_def EpollPoller_update_def kNew_def
      sim_ctl_def Let_def LOG_ERROR_def)


text \<open>Repeated \<^verbatim>\<open>handleWrite\<close> calls, by induction on the number of bytes that wait.\<close>

lemma drain_steps:
  assumes "conn_ok c s" and "conn_live c s"
    and ct: "write_contract os wire" "wire_frame os wire" "shutdown_contract os shut"
    and go: "\<forall>bs k. bs \<noteq> [] \<longrightarrow> 0 < fst (fst (sys_write os (tc_socket (conns s c)) bs k))"
  shows "\<exists>m s'. m \<le> length (contents (tc_outputBuffer (conns s c))) \<and>
    iterate m (TcpConnection_handleWrite os c) s = Inr s' \<and> conn_ok c s' \<and>
    contents (tc_outputBuffer (conns s' c)) = [] \<and>
    wire (kern s') (tc_socket (conns s c)) = outgoing wire c s \<and>
    (contents (tc_outputBuffer (conns s c)) \<noteq> [] \<longrightarrow>
      el_pendingFunctors (loops s' (tc_loop (conns s c))) =
        el_pendingFunctors (loops s (tc_loop (conns s c))) @ completion c (conns s c) \<and>
      (tc_state (conns s c) = kDisconnecting \<longrightarrow> shutdown_succeeds os (tc_socket (conns s c)) \<longrightarrow>
         tc_socket (conns s c) \<in> shut (kern s')))"
  using assms(1,2) go
proof (induction "length (contents (tc_outputBuffer (conns s c)))" arbitrary: s rule: less_induct)
  case less
  let ?xs = "contents (tc_outputBuffer (conns s c))" and ?f = "tc_socket (conns s c)"
  show ?case
  proof (cases "?xs = []")
    case True
    with less.prems show ?thesis by (intro exI [of _ 0] exI [of _ s]) (simp add: outgoing_def)
  next
    case False
    obtain n e k' where wr: "sys_write os ?f ?xs (kern s) = ((n, e), k')" by (metis surj_pair)
    with less.prems(3) False have n: "0 < n" by (metis fst_conv)
    obtain s1 b where s1: "TcpConnection_handleWrite os c s = Inr s1" "conn_ok c s1" "conn_live c s1"
        "conns s1 = (conns s)(c := (conns s c)\<lparr>tc_outputBuffer := b\<rparr>)" "contents b = drop (nat n) ?xs"
        "outgoing wire c s1 = outgoing wire c s"
        "el_pendingFunctors (loops s1 (tc_loop (conns s c))) = el_pendingFunctors (loops s (tc_loop (conns s c))) @
          (if contents b = [] then completion c (conns s c) else [])"
        "contents b = [] \<and> tc_state (conns s c) = kDisconnecting \<and> shutdown_succeeds os ?f \<longrightarrow> ?f \<in> shut (kern s1)"
      using handleWrite_spec [OF less.prems(1,2) ct False wr] by blast
    have shorter: "length (contents (tc_outputBuffer (conns s1 c))) < length ?xs"
      using s1(4,5) n False by simp
    have go': "\<forall>bs k. bs \<noteq> [] \<longrightarrow> 0 < fst (fst (sys_write os (tc_socket (conns s1 c)) bs k))"
      using less.prems(3) s1(4) by simp
    from less.hyps [OF shorter s1(2,3) go'] s1(4)
    obtain m s' where m: "m \<le> length (contents b)" "iterate m (TcpConnection_handleWrite os c) s1 = Inr s'"
        "conn_ok c s'" "contents (tc_outputBuffer (conns s' c)) = []" "wire (kern s') ?f = outgoing wire c s1"
        "contents b \<noteq> [] \<longrightarrow> el_pendingFunctors (loops s' (tc_loop (conns s c))) =
            el_pendingFunctors (loops s1 (tc_loop (conns s c))) @ completion c (conns s c) \<and>
          (tc_state (conns s c) = kDisconnecting \<longrightarrow> shutdown_succeeds os ?f \<longrightarrow> ?f \<in> shut (kern s'))"
      by (auto simp: completion_def)
    have "contents b = [] \<Longrightarrow> s' = s1" using m(1,2) by simp
    with m s1 shorter show ?thesis
      by (intro exI [of _ "Suc m"] exI [of _ s']) auto
  qed
qed

text \<open>
  C20: Output drains. If every write on the connection's descriptor takes at least one byte, then at
  most as many \<^verbatim>\<open>handleWrite\<close> calls as bytes wait empty the output buffer: the wire has the whole
  stream in order, the channel no longer asks for writability, the write-complete callback has
  been queued exactly once, and a connection in \<^verbatim>\<open>kDisconnecting\<close> has closed its sending direction.
\<close>

theorem output_drains:
  assumes "conn_ok c s" and "conn_live c s"
    and "write_contract os wire" and "wire_frame os wire" and "shutdown_contract os shut"
    and "\<forall>bs k. bs \<noteq> [] \<longrightarrow> 0 < fst (fst (sys_write os (tc_socket (conns s c)) bs k))"
    and "contents (tc_outputBuffer (conns s c)) \<noteq> []"
  shows "\<exists>m s'. m \<le> length (contents (tc_outputBuffer (conns s c))) \<and>
    iterate m (TcpConnection_handleWrite os c) s = Inr s' \<and>
    contents (tc_outputBuffer (conns s' c)) = [] \<and> \<not> Channel_isWriting (chan s' (ConnChannel c)) \<and>
    wire (kern s') (tc_socket (conns s c)) = outgoing wire c s \<and>
    el_pendingFunctors (loops s' (tc_loop (conns s c))) =
      el_pendingFunctors (loops s (tc_loop (conns s c))) @ completion c (conns s c) \<and>
    (tc_state (conns s c) = kDisconnecting \<longrightarrow> shutdown_succeeds os (tc_socket (conns s c)) \<longrightarrow>
       tc_socket (conns s c) \<in> shut (kern s'))"
proof -
  obtain m s' where "m \<le> length (contents (tc_outputBuffer (conns s c)))"
      "iterate m (TcpConnection_handleWrite os c) s = Inr s'" "conn_ok c s'"
      "contents (tc_outputBuffer (conns s' c)) = []" "wire (kern s') (tc_socket (conns s c)) = outgoing wire c s"
      "el_pendingFunctors (loops s' (tc_loop (conns s c))) =
        el_pendingFunctors (loops s (tc_loop (conns s c))) @ completion c (conns s c)"
      "tc_state (conns s c) = kDisconnecting \<longrightarrow> shutdown_succeeds os (tc_socket (conns s c)) \<longrightarrow>
        tc_socket (conns s c) \<in> shut (kern s')"
    using drain_steps [OF assms(1-6)] assms(7) by blast
  then show ?thesis by (intro exI [of _ m] exI [of _ s']) (simp add: conn_ok_def [of c s'])
qed

text \<open>A kernel that takes one byte per write.\<close>

definition trickle_os :: "sim os" where
  "trickle_os = sim_os\<lparr>sys_write := (\<lambda>f bs k.
     ((int (length (take 1 bs)), 0), k\<lparr>sim_wire := (sim_wire k)(f := sim_wire k f @ take 1 bs)\<rparr>))\<rparr>"

lemma take_one: "take (min (length xs) (Suc 0)) xs = take (Suc 0) xs"
  by (cases xs) auto

lemma trickle_contracts: "write_contract trickle_os sim_wire" "wire_frame trickle_os sim_wire"
  "shutdown_contract trickle_os (\<lambda>k. set (sim_shut k))"
  by (auto simp: write_contract_def wire_frame_def shutdown_contract_def trickle_os_def sim_os_def
      sim_ctl_def sim_readv_def Let_def take_one)

lemma trickle_progress: "\<forall>bs k. bs \<noteq> [] \<longrightarrow> 0 < fst (fst (sys_write trickle_os f bs k))"
  by (simp add: trickle_os_def)

theorem output_drains_witness:
  "\<exists>m s'. m \<le> 2 \<and> iterate m (TcpConnection_handleWrite trickle_os 2) sim_backlog = Inr s' \<and>
     sim_wire (kern s') 7 = [5, 6] \<and> el_pendingFunctors (loops s' 0) = [Bind_writeComplete 3 2]"
proof -
  have "contents (tc_outputBuffer (conns sim_backlog 2)) \<noteq> []" by (simp add: sim_backlog_ok)
  from output_drains [OF sim_backlog_ok(1,2) trickle_contracts trickle_progress this]
  obtain m s' where r: "m \<le> length (contents (tc_outputBuffer (conns sim_backlog 2)))"
      "iterate m (TcpConnection_handleWrite trickle_os 2) sim_backlog = Inr s'"
      "sim_wire (kern s') (tc_socket (conns sim_backlog 2)) = outgoing sim_wire 2 sim_backlog"
      "el_pendingFunctors (loops s' (tc_loop (conns sim_backlog 2))) =
        el_pendingFunctors (loops sim_backlog (tc_loop (conns sim_backlog 2))) @ completion 2 (conns sim_backlog 2)"
    by blast
  moreover have "m \<le> 2" using r(1) sim_backlog_ok(3) by simp
  ultimately show ?thesis
    by (intro exI [of _ m] exI [of _ s']) (simp add: sim_backlog_ok outgoing_def completion_def)
qed

text \<open>
  C11: \<^verbatim>\<open>send\<close> from the loop's own thread on a connected, idle connection delivers. The call and at
  most as many \<^verbatim>\<open>handleWrite\<close> calls as there are bytes put exactly the data on the wire behind what
  was sent before, if every write on the descriptor takes at least one byte.
\<close>

theorem send_reaches_wire:
  assumes "conn_ok c s" and "conn_live c s"
    and "write_contract os wire" and "wire_frame os wire" and "shutdown_contract os shut"
    and "\<forall>bs k. bs \<noteq> [] \<longrightarrow> 0 < fst (fst (sys_write os (tc_socket (conns s c)) bs k))"
    and "TcpConnection_connected c s" and "EventLoop_isInLoopThread (tc_loop (conns s c)) s"
    and "contents (tc_outputBuffer (conns s c)) = []" and "data \<noteq> []"
    and "length data < 2 ^ 63" and "room_for (length data) (tc_outputBuffer (conns s c))"
  shows "\<exists>s1 m s'. TcpConnection_send os c data s = Inr s1 \<and> m \<le> length data \<and>
    iterate m (TcpConnection_handleWrite os c) s1 = Inr s' \<and> conn_ok c s' \<and>
    contents (tc_outputBuffer (conns s' c)) = [] \<and>
    wire (kern s') (tc_socket (conns s c)) = wire (kern s) (tc_socket (conns s c)) @ data"
proof -
  obtain n e k' where wr: "sys_write os (tc_socket (conns s c)) data (kern s) = ((n, e), k')" by (metis surj_pair)
  with assms(6,10) have n: "0 < n" by (metis fst_conv)
  then have n0: "0 \<le> n" by simp
  obtain s1 b where s1: "TcpConnection_sendInLoop os c data s = Inr s1" "conn_ok c s1" "conn_live c s1"
      "conns s1 = (conns s)(c := (conns s c)\<lparr>tc_outputBuffer := b\<rparr>)" "contents b = drop (nat n) data"
      "wire (kern s1) (tc_socket (conns s c)) = wire (kern s) (tc_socket (conns s c)) @ take (nat n) data"
    using sendInLoop_accepts [OF assms(1-4,9,11,12) wr n0] by blast
  have "\<forall>bs k. bs \<noteq> [] \<longrightarrow> 0 < fst (fst (sys_write os (tc_socket (conns s1 c)) bs k))"
    using assms(6) s1(4) by simp
  from drain_steps [OF s1(2,3) assms(3-5) this] s1(4)
  obtain m s' where "m \<le> length (contents b)" "iterate m (TcpConnection_handleWrite os c) s1 = Inr s'"
      "conn_ok c s'" "contents (tc_outputBuffer (conns s' c)) = []"
      "wire (kern s') (tc_socket (conns s c)) = outgoing wire c s1" by auto
  moreover have "TcpConnection_send os c data s = Inr s1"
    using s1(1) assms(7,8) by (simp add: TcpConnection_send_def TcpConnection_connected_def)
  ultimately show ?thesis using s1
    by (intro exI [of _ s1] exI [of _ m] exI [of _ s']) (simp add: outgoing_def)
qed

theorem send_reaches_wire_witness:
  "\<exists>s1 m s'. TcpConnection_send trickle_os 2 [1, 2, 3] sim_net = Inr s1 \<and> m \<le> 3 \<and>
     iterate m (TcpConnection_handleWrite trickle_os 2) s1 = Inr s' \<and> sim_wire (kern s') 7 = [1, 2, 3]"
proof -
  have "TcpConnection_connected 2 sim_net" "EventLoop_isInLoopThread (tc_loop (conns sim_net 2)) sim_net"
      "contents (tc_outputBuffer (conns sim_net 2)) = []" "[1, 2, 3 :: byte] \<noteq> []"
      "length [1, 2, 3 :: byte] < 2 ^ 63"
      "room_for (length [1, 2, 3 :: byte]) (tc_outputBuffer (conns sim_net 2))"
    by (simp_all add: TcpConnection_connected_def EventLoop_isInLoopThread_def sim_conn_def room_for_def
        sim_buffer_def vector_max_size_def contents_def)
  from send_reaches_wire [OF sim_net_ok trickle_contracts trickle_progress this]
  obtain s1 m s' where "TcpConnection_send trickle_os 2 [1, 2, 3] sim_net = Inr s1" "m \<le> length [1, 2, 3 :: byte]"
      "iterate m (TcpConnection_handleWrite trickle_os 2) s1 = Inr s'"
      "sim_wire (kern s') (tc_socket (conns sim_net 2)) =
        sim_wire (kern sim_net) (tc_socket (conns sim_net 2)) @ [1, 2, 3]" by blast
  moreover from this have "m \<le> 3" by simp
  ultimately show ?thesis
    by (intro exI [of _ s1] exI [of _ m] exI [of _ s']) (simp add: sim_conn_def sim_init_def)
qed

end
