(* ===== verification/Acceptor.thy ===== *)
theory Acceptor
  imports TcpConnection
begin

text \<open>
  \<^verbatim>\<open>Acceptor.h\<close>, \<^verbatim>\<open>Acceptor.cpp\<close>: the listening socket of the server and its channel in the main
  loop. The state record is extended by the acceptor. The callback for new connections, which
  the server sets, is the parameter \<open>newConnection\<close>; the member \<^verbatim>\<open>NewConnectionCallback_\<close> only
  records whether it is set.
\<close>

section \<open>State and operations\<close>

record acceptor =
  ac_loop :: loop_ptr
  ac_socket :: fd
  ac_newConnectionCallback :: bool
  ac_listening :: bool

record 'k accnet = "'k net" +
  the_acceptor :: acceptor

definition upd_acceptor ::
  "(acceptor \<Rightarrow> acceptor) \<Rightarrow> ('k, 'z) accnet_scheme \<Rightarrow> ('k, 'z) accnet_scheme" where
  "upd_acceptor f s = s\<lparr>the_acceptor := f (the_acceptor s)\<rparr>"

definition createNonblocking :: "'k os \<Rightarrow> ('k, 'z) accnet_scheme \<Rightarrow> (fd \<times> ('k, 'z) accnet_scheme) result" where
  "createNonblocking os s =
     (let ((sockfd, e), k') = sys_socket os (kern s)
      in if sockfd < 0 then Inl (FatalExit ''listen socket create err'') else Inr (sockfd, s\<lparr>kern := k'\<rparr>))"

definition Acceptor_ctor ::
  "'k os \<Rightarrow> loop_ptr \<Rightarrow> inet_address \<Rightarrow> bool \<Rightarrow> ('k, 'z) accnet_scheme \<Rightarrow> ('k, 'z) accnet_scheme result" where
  "Acceptor_ctor os loop listenAddr reuseport s =
     and_then (createNonblocking os s) (\<lambda>(sockfd, s1).
       let s2 = s1\<lparr>the_acceptor := \<lparr>ac_loop = loop, ac_socket = sockfd, ac_newConnectionCallback = False,
                     ac_listening = False\<rparr>,
                   chan := (chan s1)(AcceptChannel := Channel_ctor loop sockfd)\<rparr>;
           s3 = Socket_setReusePort os sockfd True (Socket_setReuseAddr os sockfd True s2)
       in and_then (Socket_bindAddress os sockfd listenAddr s3) (\<lambda>s4.
            Inr (Channel_setReadCallback AcceptChannel Bind_Acceptor_handleRead s4)))"

text \<open>The destructor: its body, then the socket member.\<close>

definition Acceptor_dtor :: "'k os \<Rightarrow> ('k, 'z) accnet_scheme \<Rightarrow> ('k, 'z) accnet_scheme" where
  "Acceptor_dtor os s =
     Socket_dtor os (ac_socket (the_acceptor s))
       (Channel_remove os AcceptChannel (Channel_disbaleAll os AcceptChannel s))"

definition Acceptor_setNewConnectionCallback :: "('k, 'z) accnet_scheme \<Rightarrow> ('k, 'z) accnet_scheme" where
  "Acceptor_setNewConnectionCallback = upd_acceptor (\<lambda>a. a\<lparr>ac_newConnectionCallback := True\<rparr>)"

definition Acceptor_listenning :: "('k, 'z) accnet_scheme \<Rightarrow> bool" where
  "Acceptor_listenning s = ac_listening (the_acceptor s)"

definition Acceptor_listen :: "'k os \<Rightarrow> ('k, 'z) accnet_scheme \<Rightarrow> ('k, 'z) accnet_scheme result" where
  "Acceptor_listen os s =
     (let s1 = upd_acceptor (\<lambda>a. a\<lparr>ac_listening := True\<rparr>) s
      in and_then (Socket_listen os (ac_socket (the_acceptor s1)) s1) (\<lambda>s2.
           Inr (Channel_enableReading os AcceptChannel s2)))"

definition Acceptor_handleRead ::
  "'k os \<Rightarrow> (string \<Rightarrow> 32 word) \<Rightarrow>
     (fd \<Rightarrow> inet_address \<Rightarrow> ('k, 'z) accnet_scheme \<Rightarrow> ('k, 'z) accnet_scheme result) \<Rightarrow>
     ('k, 'z) accnet_scheme \<Rightarrow> ('k, 'z) accnet_scheme result" where
  "Acceptor_handleRead os inet_addr newConnection s =
     (let peerAddr0 = InetAddress_ctor inet_addr 0 ''127.0.0.1'';
          (connfd, e, peerAddr, s1) = Socket_accept os (ac_socket (the_acceptor s)) peerAddr0 s
      in if connfd \<ge> 0 then
           (if ac_newConnectionCallback (the_acceptor s1) then newConnection connfd peerAddr s1
            else Inr (s1\<lparr>kern := sys_close os connfd (kern s1)\<rparr>))
         else
           (let s2 = LOG_ERROR ''accept err'' e s1
            in Inr (if e = EMFILE then LOG_ERROR ''sockfd reached limit'' 0 s2 else s2)))"

section \<open>Facts\<close>

lemma acceptor_more: "reactor.more s' = reactor.more s \<Longrightarrow> the_acceptor s' = the_acceptor (s :: ('k, 'z) accnet_scheme)"
  by (cases s; cases s') simp

lemma upd_acceptor_sel [simp]:
  "kern (upd_acceptor f s) = kern s" "chan (upd_acceptor f s) = chan s" "loops (upd_acceptor f s) = loops s"
  "refs (upd_acceptor f s) = refs s" "errs (upd_acceptor f s) = errs s" "cur_tid (upd_acceptor f s) = cur_tid s"
  "conns (upd_acceptor f s) = conns s" "the_acceptor (upd_acceptor f s) = f (the_acceptor s)"
  by (simp_all add: upd_acceptor_def)

text \<open>Listening starts exactly when \<^verbatim>\<open>listen\<close> is called and succeeds: afterwards the accept channel
  is registered with the poller of its loop, the kernel watches the listening descriptor for
  input, and nothing was logged as an error.\<close>

lemma Acceptor_listen_watches:
  assumes "epoll_ctl_contract os interest" and "registry_ok interest l s" and "registrable l AcceptChannel s"
    and "\<forall>f n k. interest (snd (sys_listen os f n k)) = interest k"
    and "ch_index (chan s AcceptChannel) = kNew" and "ch_events (chan s AcceptChannel) = 0"
    and "Acceptor_listen os s = Inr s'"
  shows "Acceptor_listenning s' \<and> registry_ok interest l s' \<and> Poller_hasChannel l AcceptChannel s' \<and>
    interest (kern s') (pl_epollfd (el_poller (loops s' l))) (ch_fd (chan s' AcceptChannel)) =
      Some \<lparr>ev_events = EPOLLIN OR EPOLLPRI, ev_ptr = Some AcceptChannel\<rparr> \<and> errs s' = errs s"
proof -
  let ?s1 = "upd_acceptor (\<lambda>a. a\<lparr>ac_listening := True\<rparr>) s"
  obtain k' where "0 = fst (sys_listen os (ac_socket (the_acceptor ?s1)) 1024 (kern s))"
      and k': "k' = snd (sys_listen os (ac_socket (the_acceptor ?s1)) 1024 (kern s))"
      and s': "s' = Channel_enableReading os AcceptChannel (?s1\<lparr>kern := k'\<rparr>)"
    using assms(7) by (auto simp: Acceptor_listen_def Socket_listen_def Let_def split: prod.splits if_splits)
  let ?s2 = "?s1\<lparr>kern := k'\<rparr>"
  have i: "interest k' = interest (kern s)" using k' assms(4) by simp
  have reg: "registry_ok interest l ?s2" "registrable l AcceptChannel ?s2"
    using assms(2,3) i by (simp_all add: registry_ok_def map_ok_def registrable_def)
  note ch = change_interest_registry [OF assms(1) reg, of "\<lambda>e. e OR kReadEvent", folded Channel_enableReading_def]
  have idx: "ch_index (chan s' AcceptChannel) = kAdded"
    using assms(5) by (simp add: s' Channel_enableReading_def Channel_update_def EventLoop_updateChannel_def updateChannel_chan)
  have "ch_loop (chan s' AcceptChannel) = l" using ch(5) by (simp add: s' registrable_def)
  moreover have ok: "registry_ok interest l s'" using ch(1) by (simp add: s')
  ultimately have "pl_channels (el_poller (loops s' l)) (ch_fd (chan s' AcceptChannel)) = Some AcceptChannel"
    using map_okD(2) [of l s' AcceptChannel] idx by (simp add: registry_ok_def)
  moreover have "ch_events (chan s' AcceptChannel) = 3" using ch(3) assms(6) by (simp add: s' kReadEvent_eq)
  ultimately have "interest (kern s') (pl_epollfd (el_poller (loops s' l))) (ch_fd (chan s' AcceptChannel)) =
      Some \<lparr>ev_events = 3, ev_ptr = Some AcceptChannel\<rparr>"
    using ok idx by (simp add: registry_ok_def watched_def)
  moreover have "the_acceptor s' = the_acceptor ?s2"
    unfolding s' by (rule acceptor_more) (simp add: Channel_enableReading_def)
  ultimately show ?thesis
    using ok ch(2,4) by (simp add: s' Acceptor_listenning_def)
qed

text \<open>A server with a fresh listening socket on descriptor 5, not yet listening.\<close>

definition sim_acc :: "sim accnet" where
  "sim_acc = net.extend sim_net
     \<lparr>the_acceptor = \<lparr>ac_loop = 0, ac_socket = 5, ac_newConnectionCallback = True, ac_listening = False\<rparr>\<rparr>"

lemma sim_acc_sel [simp]:
  "kern sim_acc = sim_init" "cur_tid sim_acc = 100" "errs sim_acc = []" "refs sim_acc = (\<lambda>_. 1)"
  "chan sim_acc = chan sim_net" "loops sim_acc = loops sim_reactor" "conns sim_acc = (\<lambda>_. sim_conn)"
  "the_acceptor sim_acc = \<lparr>ac_loop = 0, ac_socket = 5, ac_newConnectionCallback = True, ac_listening = False\<rparr>"
  by (simp_all add: sim_acc_def net.defs sim_net_def sim_reactor_def reactor.defs)

lemma sim_net_accept [simp]: "chan sim_net AcceptChannel = Channel_ctor 0 5" "chan sim_net (WakeupChannel l) = Channel_ctor 0 5"
  by (simp_all add: sim_net_def sim_reactor_def reactor.defs)

lemma sim_acc_registry: "registry_ok sim_interest l sim_acc"
proof -
  have "ch_index (chan sim_net p) = kNew" for p
    by (cases p) (simp_all add: Channel_ctor_def kNew_def)
  then show ?thesis
    by (auto simp: registry_ok_def map_ok_def watched_def [abs_def] sim_reactor_def sim_init_def)
qed

end
