(* ===== verification/ThreadPool.thy ===== *)
theory ThreadPool
  imports EventLoop
begin

text \<open>
  \<^verbatim>\<open>CurrentThread\<close>, \<^verbatim>\<open>Thread\<close>, \<^verbatim>\<open>EventLoopThread::startLoop\<close> and \<^verbatim>\<open>EventLoopThreadPool\<close>, as the thread
  that calls them sees them. \<^verbatim>\<open>startLoop\<close> returns once the new thread has built its loop, run the
  initialisation callback and published the loop, so its effect is those three steps done with
  the new thread's id; that it waits for exactly this is the subject of \<open>LoopThread\<close>. The id of a
  new thread and the address of its loop are given by the system.
\<close>

section \<open>Thread ids and thread objects\<close>

text \<open>\<^verbatim>\<open>CurrentThread::cacheTid\<close> and \<^verbatim>\<open>tid\<close>: the cached id of the calling thread (0 if not cached
  yet), given what \<^verbatim>\<open>gettid\<close> returns.\<close>

definition cacheTid :: "int \<Rightarrow> int \<Rightarrow> int" where
  "cacheTid gettid t_cachedTid = (if t_cachedTid = 0 then gettid else t_cachedTid)"

definition CurrentThread_tid :: "int \<Rightarrow> int \<Rightarrow> int \<times> int" where
  "CurrentThread_tid gettid t_cachedTid =
     (let cached = (if t_cachedTid = 0 then cacheTid gettid t_cachedTid else t_cachedTid)
      in (cached, cached))"

record thread_obj =
  th_started :: bool
  th_joined :: bool
  th_tid :: int
  th_name :: string

text \<open>The constructor with \<^verbatim>\<open>setDefaultName\<close>: \<^verbatim>\<open>numCreated_\<close> is an atomic \<^verbatim>\<open>int\<close>, which wraps.\<close>

definition Thread_setDefaultName :: "32 word \<Rightarrow> string \<Rightarrow> string \<times> 32 word" where
  "Thread_setDefaultName created name =
     (let num = created + 1
      in (if name = [] then snprintf_buf 32 (''Thread '' @ show_int (sint num)) else name, num))"

definition Thread_ctor :: "32 word \<Rightarrow> string \<Rightarrow> thread_obj \<times> 32 word" where
  "Thread_ctor created name =
     (let (name', num) = Thread_setDefaultName created name
      in (\<lparr>th_started = False, th_joined = False, th_tid = 0, th_name = name'\<rparr>, num))"

text \<open>\<^verbatim>\<open>Thread::start\<close> returns after the semaphore was posted, when \<^verbatim>\<open>tid_\<close> holds the new thread's
  id. \<^verbatim>\<open>join\<close> sets its flag; the destructor detaches exactly when started and not joined.\<close>

definition Thread_start :: "int \<Rightarrow> thread_obj \<Rightarrow> thread_obj" where
  "Thread_start tid t = t\<lparr>th_started := True, th_tid := tid\<rparr>"

definition Thread_join :: "thread_obj \<Rightarrow> thread_obj" where
  "Thread_join t = t\<lparr>th_joined := True\<rparr>"

definition Thread_dtor_detaches :: "thread_obj \<Rightarrow> bool" where
  "Thread_dtor_detaches t \<longleftrightarrow> th_started t \<and> \<not> th_joined t"

section \<open>A thread with a loop\<close>

record loop_thread =
  lt_loop :: "loop_ptr option"
  lt_exiting :: bool
  lt_thread :: thread_obj

definition EventLoopThread_ctor ::
  "string \<Rightarrow> ('k, 'z) reactor_scheme \<Rightarrow> loop_thread \<times> ('k, 'z) reactor_scheme" where
  "EventLoopThread_ctor name s =
     (let (t, num) = Thread_ctor (numCreated s) name
      in (\<lparr>lt_loop = None, lt_exiting = False, lt_thread = t\<rparr>, s\<lparr>numCreated := num\<rparr>))"

definition EventLoopThread_startLoop ::
  "'k os \<Rightarrow> ('k \<Rightarrow> (poller \<times> 'k) result) \<Rightarrow>
     (loop_ptr \<Rightarrow> ('k, 'z) reactor_scheme \<Rightarrow> ('k, 'z) reactor_scheme result) option \<Rightarrow>
     int \<times> loop_ptr \<Rightarrow> loop_thread \<Rightarrow> ('k, 'z) reactor_scheme \<Rightarrow>
     (loop_ptr \<times> loop_thread \<times> ('k, 'z) reactor_scheme) result" where
  "EventLoopThread_startLoop os newDefaultPoller callback fresh lt s =
     (let (tid, l) = fresh in
      and_then (EventLoop_ctor os newDefaultPoller l (s\<lparr>cur_tid := tid\<rparr>)) (\<lambda>s1.
      and_then (case callback of None \<Rightarrow> Inr s1 | Some cb \<Rightarrow> cb l s1) (\<lambda>s2.
      Inr (l, lt\<lparr>lt_loop := Some l, lt_thread := Thread_start tid (lt_thread lt)\<rparr>,
           s2\<lparr>cur_tid := cur_tid s\<rparr>))))"

text \<open>The end of \<^verbatim>\<open>threadFunc\<close> in the thread \<^term>\<open>tid\<close>, from a wait in \<^verbatim>\<open>epoll_wait\<close> on: the iteration
  it is in, further iterations until \<^verbatim>\<open>quit_\<close> is seen, the end of \<^verbatim>\<open>loop()\<close>, and the destructor of the
  local \<^verbatim>\<open>EventLoop\<close>. \<^const>\<open>None\<close> if the loop does not end.\<close>

definition threadFunc_end ::
  "'k os \<Rightarrow> (event_callback \<Rightarrow> int \<Rightarrow> ('k, 'z) reactor_scheme \<Rightarrow> ('k, 'z) reactor_scheme result) \<Rightarrow>
     (task \<Rightarrow> ('k, 'z) reactor_scheme \<Rightarrow> ('k, 'z) reactor_scheme result) \<Rightarrow> int \<Rightarrow> loop_ptr \<Rightarrow>
     ('k, 'z) reactor_scheme \<Rightarrow> ('k, 'z) reactor_scheme result option" where
  "threadFunc_end os run call tid l s =
     (case EventLoop_loop_body os run call l (s\<lparr>cur_tid := tid\<rparr>) of
        Inl e \<Rightarrow> Some (Inl e)
      | Inr s1 \<Rightarrow>
          map_option (\<lambda>r. and_then r (\<lambda>s2.
              Inr ((EventLoop_dtor os l (upd_loop l (\<lambda>e. e\<lparr>el_looping := False\<rparr>) s2))\<lparr>cur_tid := cur_tid s\<rparr>)))
            (loop_while (\<lambda>s. el_quit (loops s l)) (EventLoop_loop_body os run call l) s1))"

text \<open>The destructor. \<^verbatim>\<open>join\<close> returns when the thread has ended, which has then reset \<^verbatim>\<open>loop_\<close>; the
  member \<^verbatim>\<open>thread_\<close> is detached if it was started and not joined, which has no effect here.\<close>

definition EventLoopThread_dtor ::
  "'k os \<Rightarrow> (event_callback \<Rightarrow> int \<Rightarrow> ('k, 'z) reactor_scheme \<Rightarrow> ('k, 'z) reactor_scheme result) \<Rightarrow>
     (task \<Rightarrow> ('k, 'z) reactor_scheme \<Rightarrow> ('k, 'z) reactor_scheme result) \<Rightarrow> loop_thread \<Rightarrow>
     ('k, 'z) reactor_scheme \<Rightarrow> (loop_thread \<times> ('k, 'z) reactor_scheme) result option" where
  "EventLoopThread_dtor os run call lt s =
     (let lt1 = lt\<lparr>lt_exiting := True\<rparr> in
      case lt_loop lt1 of
        None \<Rightarrow> Some (Inr (lt1, s))
      | Some l \<Rightarrow>
          map_option (\<lambda>r. and_then r (\<lambda>s1.
              Inr (lt1\<lparr>lt_loop := None, lt_thread := Thread_join (lt_thread lt1)\<rparr>, s1)))
            (threadFunc_end os run call (th_tid (lt_thread lt1)) l (EventLoop_quit os l s)))"

section \<open>The pool\<close>

record thread_pool =
  tp_baseloop :: loop_ptr
  tp_next :: int
  tp_numThreads :: int
  tp_started :: bool
  tp_name :: string
  tp_threads :: "loop_thread list"
  tp_loops :: "loop_ptr list"

definition EventLoopThreadPool_ctor :: "loop_ptr \<Rightarrow> string \<Rightarrow> thread_pool" where
  "EventLoopThreadPool_ctor baseloop nameArg =
     \<lparr>tp_baseloop = baseloop, tp_next = 0, tp_numThreads = 0, tp_started = False, tp_name = nameArg,
      tp_threads = [], tp_loops = []\<rparr>"

definition EventLoopThreadPool_setThreadNum :: "int \<Rightarrow> thread_pool \<Rightarrow> thread_pool" where
  "EventLoopThreadPool_setThreadNum n tp = tp\<lparr>tp_numThreads := n\<rparr>"

text \<open>One round of the loop in \<^verbatim>\<open>start\<close>.\<close>

definition start_thread ::
  "'k os \<Rightarrow> ('k \<Rightarrow> (poller \<times> 'k) result) \<Rightarrow> (nat \<Rightarrow> int \<times> loop_ptr) \<Rightarrow>
     (loop_ptr \<Rightarrow> ('k, 'z) reactor_scheme \<Rightarrow> ('k, 'z) reactor_scheme result) option \<Rightarrow>
     nat \<Rightarrow> thread_pool \<times> ('k, 'z) reactor_scheme \<Rightarrow> (thread_pool \<times> ('k, 'z) reactor_scheme) result" where
  "start_thread os newDefaultPoller fresh cb i ps =
     (let (tp, s) = ps;
          buf = snprintf_buf (length (tp_name tp) + 32) (tp_name tp @ show_int (int i));
          (t, s0) = EventLoopThread_ctor buf s
      in and_then (EventLoopThread_startLoop os newDefaultPoller cb (fresh i) t s0) (\<lambda>(l, t, s1).
           Inr (tp\<lparr>tp_threads := tp_threads tp @ [t], tp_loops := tp_loops tp @ [l]\<rparr>, s1)))"

definition EventLoopThreadPool_start ::
  "'k os \<Rightarrow> ('k \<Rightarrow> (poller \<times> 'k) result) \<Rightarrow> (nat \<Rightarrow> int \<times> loop_ptr) \<Rightarrow>
     (loop_ptr \<Rightarrow> ('k, 'z) reactor_scheme \<Rightarrow> ('k, 'z) reactor_scheme result) option \<Rightarrow>
     thread_pool \<Rightarrow> ('k, 'z) reactor_scheme \<Rightarrow> (thread_pool \<times> ('k, 'z) reactor_scheme) result" where
  "EventLoopThreadPool_start os newDefaultPoller fresh cb tp s =
     and_then (for_each (start_thread os newDefaultPoller fresh cb) [0..<nat (tp_numThreads tp)]
                (tp\<lparr>tp_started := True\<rparr>, s)) (\<lambda>(tp1, s1).
       if tp_numThreads tp = 0
       then (case cb of None \<Rightarrow> Inr (tp1, s1)
             | Some f \<Rightarrow> and_then (f (tp_baseloop tp1) s1) (\<lambda>s2. Inr (tp1, s2)))
       else Inr (tp1, s1))"

text \<open>\<^verbatim>\<open>getNextLoop\<close>: the comparison of the \<^verbatim>\<open>int\<close> index with the size is unsigned, so a negative
  index would count as too large.\<close>

definition EventLoopThreadPool_getNextLoop :: "thread_pool \<Rightarrow> (loop_ptr \<times> thread_pool) result" where
  "EventLoopThreadPool_getNextLoop tp =
     (if tp_loops tp \<noteq> [] then
        (if 0 \<le> tp_next tp \<and> nat (tp_next tp) < length (tp_loops tp) then
           (let loop = tp_loops tp ! nat (tp_next tp); next1 = tp_next tp + 1
            in Inr (loop, tp\<lparr>tp_next :=
                 (if next1 < 0 \<or> int (length (tp_loops tp)) \<le> next1 then 0 else next1)\<rparr>))
         else Inl OutOfBounds)
      else Inr (tp_baseloop tp, tp))"

text \<open>The destructor of the pool destroys the members, the threads from the first to the last.\<close>

primrec destroy_threads ::
  "'k os \<Rightarrow> (event_callback \<Rightarrow> int \<Rightarrow> ('k, 'z) reactor_scheme \<Rightarrow> ('k, 'z) reactor_scheme result) \<Rightarrow>
     (task \<Rightarrow> ('k, 'z) reactor_scheme \<Rightarrow> ('k, 'z) reactor_scheme result) \<Rightarrow> loop_thread list \<Rightarrow>
     ('k, 'z) reactor_scheme \<Rightarrow> ('k, 'z) reactor_scheme result option" where
  "destroy_threads os run call [] s = Some (Inr s)"
| "destroy_threads os run call (t # ts) s =
     (case EventLoopThread_dtor os run call t s of
        None \<Rightarrow> None
      | Some (Inl e) \<Rightarrow> Some (Inl e)
      | Some (Inr (_, s1)) \<Rightarrow> destroy_threads os run call ts s1)"

definition EventLoopThreadPool_dtor ::
  "'k os \<Rightarrow> (event_callback \<Rightarrow> int \<Rightarrow> ('k, 'z) reactor_scheme \<Rightarrow> ('k, 'z) reactor_scheme result) \<Rightarrow>
     (task \<Rightarrow> ('k, 'z) reactor_scheme \<Rightarrow> ('k, 'z) reactor_scheme result) \<Rightarrow> thread_pool \<Rightarrow>
     ('k, 'z) reactor_scheme \<Rightarrow> ('k, 'z) reactor_scheme result option" where
  "EventLoopThreadPool_dtor os run call tp s = destroy_threads os run call (tp_threads tp) s"

definition EventLoopThreadPool_getAllLoops :: "thread_pool \<Rightarrow> loop_ptr list" where
  "EventLoopThreadPool_getAllLoops tp = (if tp_loops tp = [] then [tp_baseloop tp] else tp_loops tp)"

section \<open>Round robin\<close>

text \<open>\<^term>\<open>k\<close> successive calls of \<^verbatim>\<open>getNextLoop\<close> and the loops they return.\<close>

primrec next_loops :: "nat \<Rightarrow> thread_pool \<Rightarrow> (loop_ptr list \<times> thread_pool) result" where
  "next_loops 0 tp = Inr ([], tp)"
| "next_loops (Suc k) tp = and_then (EventLoopThreadPool_getNextLoop tp) (\<lambda>(l, tp1).
     and_then (next_loops k tp1) (\<lambda>(ls, tp2). Inr (l # ls, tp2)))"

definition pool_ok :: "thread_pool \<Rightarrow> bool" where
  "pool_ok tp \<longleftrightarrow> 0 \<le> tp_next tp \<and> (tp_loops tp \<noteq> [] \<longrightarrow> nat (tp_next tp) < length (tp_loops tp))"

lemma getNextLoop_ok:
  assumes "pool_ok tp"
  shows "EventLoopThreadPool_getNextLoop tp =
    Inr (EventLoopThreadPool_getAllLoops tp ! (nat (tp_next tp) mod length (EventLoopThreadPool_getAllLoops tp)),
      if tp_loops tp = [] then tp
      else tp\<lparr>tp_next := int (Suc (nat (tp_next tp)) mod length (tp_loops tp))\<rparr>)"
proof -
  have "(if tp_next tp + 1 < 0 \<or> int (length (tp_loops tp)) \<le> tp_next tp + 1 then 0 else tp_next tp + 1) =
      int (Suc (nat (tp_next tp)) mod length (tp_loops tp))" if "tp_loops tp \<noteq> []"
  proof (cases "Suc (nat (tp_next tp)) = length (tp_loops tp)")
    case True
    with assms show ?thesis by (auto simp: pool_ok_def)
  next
    case False
    with assms that have "Suc (nat (tp_next tp)) < length (tp_loops tp)" "0 \<le> tp_next tp"
      by (auto simp: pool_ok_def)
    then show ?thesis by auto
  qed
  with assms show ?thesis
    by (simp add: EventLoopThreadPool_getNextLoop_def EventLoopThreadPool_getAllLoops_def pool_ok_def Let_def)
qed

lemma getNextLoop_keeps_ok:
  assumes "pool_ok tp" and "EventLoopThreadPool_getNextLoop tp = Inr (l, tp')"
  shows "pool_ok tp'" and "EventLoopThreadPool_getAllLoops tp' = EventLoopThreadPool_getAllLoops tp"
    and "l \<in> set (EventLoopThreadPool_getAllLoops tp)"
    and "tp_loops tp \<noteq> [] \<Longrightarrow> nat (tp_next tp') = Suc (nat (tp_next tp)) mod length (tp_loops tp)"
    and "tp_loops tp' = tp_loops tp" and "tp_loops tp = [] \<Longrightarrow> tp' = tp"
  using assms(2) getNextLoop_ok [OF assms(1)] assms(1)
  by (auto simp: pool_ok_def EventLoopThreadPool_getAllLoops_def split: if_splits)

text \<open>
  C32: The pool hands out its loops in turn. From any state that \<^verbatim>\<open>start\<close> and earlier calls can leave,
  the \<^term>\<open>i\<close>-th of \<^term>\<open>k\<close> further calls of \<^verbatim>\<open>getNextLoop\<close> returns the loop \<^term>\<open>i\<close> places further
  round the list, the index never leaves the vector, and without threads every call returns the
  base loop.
\<close>

theorem getNextLoop_round_robin:
  assumes "pool_ok tp"
  shows "\<exists>tp'. next_loops k tp = Inr (map (\<lambda>i. EventLoopThreadPool_getAllLoops tp !
      ((nat (tp_next tp) + i) mod length (EventLoopThreadPool_getAllLoops tp))) [0..<k], tp') \<and> pool_ok tp'"
  using assms
proof (induction k arbitrary: tp)
  case 0
  then show ?case by simp
next
  case (Suc k)
  let ?all = "EventLoopThreadPool_getAllLoops tp"
  obtain l tp1 where g: "EventLoopThreadPool_getNextLoop tp = Inr (l, tp1)"
    and l: "l = ?all ! (nat (tp_next tp) mod length ?all)"
    using getNextLoop_ok [OF Suc.prems] by blast
  note keep = getNextLoop_keeps_ok [OF Suc.prems g]
  obtain tp2 where IH: "next_loops k tp1 = Inr (map (\<lambda>i. ?all ! ((nat (tp_next tp1) + i) mod length ?all)) [0..<k], tp2)"
    "pool_ok tp2" using Suc.IH [OF keep(1)] keep(2) by auto
  have "(nat (tp_next tp1) + i) mod length ?all = (nat (tp_next tp) + Suc i) mod length ?all" for i
    using keep(4,6) by (cases "tp_loops tp = []") (simp_all add: EventLoopThreadPool_getAllLoops_def mod_simps)
  then have "map (\<lambda>i. ?all ! ((nat (tp_next tp) + i) mod length ?all)) [0..<Suc k] =
      l # map (\<lambda>i. ?all ! ((nat (tp_next tp1) + i) mod length ?all)) [0..<k]"
    using l unfolding map_upt_Suc by simp
  with g IH show ?case by auto
qed

text \<open>A thread that runs its loop, for examples.\<close>

definition running_thread :: "string \<Rightarrow> int \<Rightarrow> loop_ptr \<Rightarrow> loop_thread" where
  "running_thread name tid l = \<lparr>lt_loop = Some l, lt_exiting = False,
     lt_thread = \<lparr>th_started = True, th_joined = False, th_tid = tid, th_name = name\<rparr>\<rparr>"

theorem getNextLoop_round_robin_witness:
  "\<exists>tp'. next_loops 5 \<lparr>tp_baseloop = 0, tp_next = 2, tp_numThreads = 3, tp_started = True, tp_name = ''EchoServer'',
       tp_threads = [running_thread ''EchoServer0'' 101 4, running_thread ''EchoServer1'' 102 5,
       running_thread ''EchoServer2'' 103 6], tp_loops = [4, 5, 6]\<rparr>
     = Inr ([6, 4, 5, 6, 4], tp') \<and> pool_ok tp'"
  using getNextLoop_round_robin [of "\<lparr>tp_baseloop = 0, tp_next = 2, tp_numThreads = 3, tp_started = True,
       tp_name = ''EchoServer'', tp_threads = [running_thread ''EchoServer0'' 101 4, running_thread ''EchoServer1'' 102 5,
       running_thread ''EchoServer2'' 103 6],
       tp_loops = [4, 5, 6]\<rparr>" 5]
  by (simp add: pool_ok_def EventLoopThreadPool_getAllLoops_def upt_rec)

section \<open>One loop per thread\<close>

lemma EventLoop_ctor_spec:
  assumes "EventLoop_ctor os newDefaultPoller l s = Inr s'"
  shows "t_loopInThisThread s (cur_tid s) = None"
    and "t_loopInThisThread s' = (t_loopInThisThread s)(cur_tid s \<mapsto> l)"
    and "el_threadId (loops s' x) = (if x = l then cur_tid s else el_threadId (loops s x))"
    and "cur_tid s' = cur_tid s"
  using assms
  by (auto simp: EventLoop_ctor_def and_then_eq_Inr Let_def Channel_enableReading_def
      Channel_setReadCallback_def split: option.splits if_splits)

text \<open>What the initialisation callback of the application must leave alone: which thread it runs
  in and which thread each loop belongs to.\<close>

definition init_frame ::
  "(loop_ptr \<Rightarrow> ('k, 'z) reactor_scheme \<Rightarrow> ('k, 'z) reactor_scheme result) option \<Rightarrow> bool" where
  "init_frame cb \<longleftrightarrow> (\<forall>f l s s'. cb = Some f \<longrightarrow> f l s = Inr s' \<longrightarrow>
     t_loopInThisThread s' = t_loopInThisThread s \<and> cur_tid s' = cur_tid s \<and>
     (\<forall>x. el_threadId (loops s' x) = el_threadId (loops s x)))"

lemma startLoop_spec:
  assumes "EventLoopThread_startLoop os newDefaultPoller cb (tid, l) lt s = Inr (l', lt', s')" and "init_frame cb"
  shows "l' = l" and "lt_loop lt' = Some l" and "lt_thread lt' = Thread_start tid (lt_thread lt)" and "t_loopInThisThread s' = (t_loopInThisThread s)(tid \<mapsto> l)"
    and "el_threadId (loops s' x) = (if x = l then tid else el_threadId (loops s x))" and "cur_tid s' = cur_tid s"
proof -
  obtain s1 s2 where 1: "EventLoop_ctor os newDefaultPoller l (s\<lparr>cur_tid := tid\<rparr>) = Inr s1"
    and 2: "(case cb of None \<Rightarrow> Inr s1 | Some cb \<Rightarrow> cb l s1) = Inr s2"
    and 3: "l' = l" "lt' = lt\<lparr>lt_loop := Some l, lt_thread := Thread_start tid (lt_thread lt)\<rparr>" "s' = s2\<lparr>cur_tid := cur_tid s\<rparr>"
    using assms(1) by (auto simp: EventLoopThread_startLoop_def and_then_eq_Inr)
  have "t_loopInThisThread s2 = t_loopInThisThread s1" "\<And>x. el_threadId (loops s2 x) = el_threadId (loops s1 x)"
    using 2 assms(2) by (auto simp: init_frame_def split: option.splits)
  with EventLoop_ctor_spec [OF 1] 3
  show "l' = l" "lt_loop lt' = Some l" "lt_thread lt' = Thread_start tid (lt_thread lt)" "t_loopInThisThread s' = (t_loopInThisThread s)(tid \<mapsto> l)"
    "el_threadId (loops s' x) = (if x = l then tid else el_threadId (loops s x))" "cur_tid s' = cur_tid s"
    by simp_all
qed

lemma start_threads_spec:
  assumes "for_each (start_thread os newDefaultPoller fresh cb) [0..<n] (tp, s) = Inr (tp', s')"
    and "init_frame cb" and "inj_on (fst \<circ> fresh) {..<n}" and "inj_on (snd \<circ> fresh) {..<n}"
  shows "tp_loops tp' = tp_loops tp @ map (snd \<circ> fresh) [0..<n] \<and> map lt_loop (tp_threads tp') = map lt_loop (tp_threads tp) @ map (Some \<circ> snd \<circ> fresh) [0..<n] \<and>
    map (th_tid \<circ> lt_thread) (tp_threads tp') = map (th_tid \<circ> lt_thread) (tp_threads tp) @ map (fst \<circ> fresh) [0..<n] \<and>
    (\<forall>i < n. el_threadId (loops s' (snd (fresh i))) = fst (fresh i) \<and>
       t_loopInThisThread s' (fst (fresh i)) = Some (snd (fresh i))) \<and>
    cur_tid s' = cur_tid s \<and> tp_next tp' = tp_next tp \<and> tp_started tp' = tp_started tp"
  using assms
proof (induction n arbitrary: tp' s')
  case 0
  then show ?case by simp
next
  case (Suc n)
  from Suc.prems(1) obtain tp1 s1 where
      1: "for_each (start_thread os newDefaultPoller fresh cb) [0..<n] (tp, s) = Inr (tp1, s1)"
    and 2: "start_thread os newDefaultPoller fresh cb n (tp1, s1) = Inr (tp', s')"
    by (auto simp: for_each_append and_then_eq_Inr)
  have inj: "inj_on (fst \<circ> fresh) {..<n}" "inj_on (snd \<circ> fresh) {..<n}"
    using Suc.prems(3,4) by (simp_all add: inj_on_def)
  have new: "fst (fresh i) \<noteq> fst (fresh n)" "snd (fresh i) \<noteq> snd (fresh n)" if "i < n" for i
    using inj_onD [OF Suc.prems(3), of i n] inj_onD [OF Suc.prems(4), of i n] that by auto
  obtain l t t' s0 where st: "EventLoopThread_startLoop os newDefaultPoller cb (fst (fresh n), snd (fresh n)) t s0 = Inr (l, t', s')"
    and s0: "cur_tid s0 = cur_tid s1" "t_loopInThisThread s0 = t_loopInThisThread s1" "loops s0 = loops s1"
    and tp': "tp_loops tp' = tp_loops tp1 @ [l]" "tp_threads tp' = tp_threads tp1 @ [t']"
      "tp_next tp' = tp_next tp1" "tp_started tp' = tp_started tp1"
    using 2 by (auto simp: start_thread_def and_then_eq_Inr EventLoopThread_ctor_def Let_def split: prod.splits)
  note sl = startLoop_spec [OF st Suc.prems(2)]
  show ?case
    using Suc.IH [OF 1 Suc.prems(2) inj] tp' sl s0 new by (auto simp: less_Suc_eq Thread_start_def)
qed

text \<open>
  C29: One loop per thread. After a successful \<^verbatim>\<open>EventLoopThreadPool::start\<close> on a fresh pool of
  \<^term>\<open>n\<close> threads the pool has \<^term>\<open>n\<close> threads, which know their ids and loops, and those loops in the same order; each loop's \<^verbatim>\<open>threadId_\<close> is
  the id of the thread it was built in, that thread's \<^verbatim>\<open>t_loopInThisThread\<close> points to it, the
  caller continues in its own thread, and the pool is ready to hand the loops out.
\<close>

theorem pool_start_one_loop_per_thread:
  assumes "EventLoopThreadPool_start os newDefaultPoller fresh cb
      (EventLoopThreadPool_setThreadNum (int n) (EventLoopThreadPool_ctor base name)) s = Inr (tp', s')"
    and "0 < n" and "init_frame cb" and "inj_on (fst \<circ> fresh) {..<n}" and "inj_on (snd \<circ> fresh) {..<n}"
  shows "tp_loops tp' = map (snd \<circ> fresh) [0..<n] \<and> map lt_loop (tp_threads tp') = map Some (tp_loops tp') \<and>
    map (th_tid \<circ> lt_thread) (tp_threads tp') = map (fst \<circ> fresh) [0..<n] \<and> tp_started tp' \<and> pool_ok tp' \<and>
    (\<forall>i < n. el_threadId (loops s' (snd (fresh i))) = fst (fresh i) \<and>
       t_loopInThisThread s' (fst (fresh i)) = Some (snd (fresh i))) \<and> cur_tid s' = cur_tid s"
proof -
  let ?tp = "(EventLoopThreadPool_setThreadNum (int n) (EventLoopThreadPool_ctor base name))\<lparr>tp_started := True\<rparr>"
  have "for_each (start_thread os newDefaultPoller fresh cb) [0..<n] (?tp, s) = Inr (tp', s')"
    using assms(1,2)
    by (auto simp: EventLoopThreadPool_start_def and_then_eq_Inr EventLoopThreadPool_setThreadNum_def)
  from start_threads_spec [OF this assms(3-5)] assms(2) show ?thesis
    by (simp add: EventLoopThreadPool_setThreadNum_def EventLoopThreadPool_ctor_def pool_ok_def)
qed

theorem pool_start_one_loop_per_thread_witness:
  "\<exists>tp' s'. EventLoopThreadPool_start sim_os (EpollPoller_ctor sim_os) (\<lambda>i. (200 + int i, 20 + i)) None
      (EventLoopThreadPool_setThreadNum (int 2) (EventLoopThreadPool_ctor 0 ''EchoServer'')) sim_reactor = Inr (tp', s') \<and>
    tp_loops tp' = [20, 21] \<and> el_threadId (loops s' 21) = 201"
proof -
  let ?fresh = "\<lambda>i :: nat. (200 + int i, 20 + i)"
  obtain tp' and s' :: "sim reactor" where r: "EventLoopThreadPool_start sim_os (EpollPoller_ctor sim_os) ?fresh None
      (EventLoopThreadPool_setThreadNum (int 2) (EventLoopThreadPool_ctor 0 ''EchoServer'')) sim_reactor = Inr (tp', s')"
    by (simp add: EventLoopThreadPool_start_def start_thread_def EventLoopThread_startLoop_def EventLoop_ctor_def
        EventLoopThread_ctor_def Thread_ctor_def Thread_setDefaultName_def EpollPoller_ctor_def creatEventfd_def sim_new_fd_def sim_new_ep_def sim_reactor_def sim_init_def Let_def
        EventLoopThreadPool_setThreadNum_def EventLoopThreadPool_ctor_def upt_rec Channel_enableReading_def
        Channel_setReadCallback_def Channel_ctor_def Channel_update_def EventLoop_updateChannel_def
        EpollPoller_updateChannel_def EpollPoller_update_def sim_ctl_def kNew_def KIntEventListSize_def)
  have p: "tp_loops tp' = [20, 21]" "\<forall>i < 2. el_threadId (loops s' (20 + i)) = 200 + int i"
    using pool_start_one_loop_per_thread [OF r] by (simp_all add: init_frame_def inj_on_def upt_rec)
  from p(2) [rule_format, of 1] p(1) r show ?thesis by auto
qed

section \<open>Destroying a thread\<close>

text \<open>What a callback or functor may do to a loop: set \<^verbatim>\<open>quit_\<close>, but not clear it, and add to the
  queue, but not take from it. Only \<^verbatim>\<open>loop()\<close> and \<^verbatim>\<open>doPendingFunctors\<close> do those.\<close>

definition loop_grows :: "loop_ptr \<Rightarrow> ('k, 'z) reactor_scheme \<Rightarrow> ('k, 'z) reactor_scheme \<Rightarrow> bool" where
  "loop_grows l s s' \<longleftrightarrow> (el_quit (loops s l) \<longrightarrow> el_quit (loops s' l)) \<and>
     (\<exists>more. el_pendingFunctors (loops s' l) = el_pendingFunctors (loops s l) @ more)"

definition loop_frame :: "loop_ptr \<Rightarrow> (('k, 'z) reactor_scheme \<Rightarrow> ('k, 'z) reactor_scheme result) \<Rightarrow> bool" where
  "loop_frame l f \<longleftrightarrow> (\<forall>s s'. f s = Inr s' \<longrightarrow> loop_grows l s s')"

lemma loop_grows_refl [simp]: "loop_grows l s s"
  by (simp add: loop_grows_def)

lemma loop_grows_trans: "loop_grows l s t \<Longrightarrow> loop_grows l t u \<Longrightarrow> loop_grows l s u"
  by (auto simp: loop_grows_def)

lemma loop_frameD: "loop_frame l f \<Longrightarrow> f t = Inr u \<Longrightarrow> loop_grows l s t \<Longrightarrow> loop_grows l s u"
  unfolding loop_frame_def by (blast intro: loop_grows_trans)

lemma loop_grows_cong:
  "loops t = loops t' \<Longrightarrow> loop_grows l s t \<longleftrightarrow> loop_grows l s t'"
  by (simp add: loop_grows_def)

lemma handleEvent_grows:
  assumes "Channel_handleEvent os run t p u = Inr u'" and "\<And>cb t. loop_frame l (run cb t)" and "loop_grows l s u"
  shows "loop_grows l s u'"
proof -
  have call: "call_if_set run cb t v = Inr v' \<Longrightarrow> loop_grows l s v \<Longrightarrow> loop_grows l s v'" for cb v v'
    using loop_frameD [OF assms(2)] by (auto simp: call_if_set_def split: option.splits)
  have guard: "Channel_handleEventWithGuard run t p v = Inr v' \<Longrightarrow> loop_grows l s v \<Longrightarrow> loop_grows l s v'" for v v'
    unfolding Channel_handleEventWithGuard_def
    by (auto simp: and_then_eq_Inr split: if_splits dest: call)
  have own: "loop_grows l s (retain c v) \<longleftrightarrow> loop_grows l s v" "loop_grows l s (release os c v) \<longleftrightarrow> loop_grows l s v"
    for c v by (rule loop_grows_cong; simp)+
  show ?thesis
    using assms(1,3) unfolding Channel_handleEvent_def
    by (auto simp: and_then_eq_Inr own split: if_splits option.splits dest: guard)
qed

lemma fill_entries_loops: "fill_entries evs active s = Inr (active', s') \<Longrightarrow> loops s' = loops s"
  by (induction evs active s rule: fill_entries.induct) (auto simp: Channel_set_revents_def split: option.splits)

lemma poll_grows: "EpollPoller_poll os l t active s = Inr (now, active', s') \<Longrightarrow> loop_grows l s s'"
  unfolding EpollPoller_poll_def
  by (auto simp: Let_def and_then_eq_Inr loop_grows_def EpollPoller_fillActiveChannels_def
      dest!: fill_entries_loops split: prod.splits if_splits)

lemma loop_body_grows:
  assumes "EventLoop_loop_body os run call l s = Inr s'"
    and "\<And>cb t. loop_frame l (run cb t)" and "\<And>t. loop_frame l (call t)"
  shows "el_quit (loops s l) \<Longrightarrow> el_quit (loops s' l)"
    and "\<exists>more u v. for_each call (el_pendingFunctors (loops s l) @ more) u = Inr v \<and>
      s' = fold (release_task os) (el_pendingFunctors (loops s l) @ more)
        (upd_loop l (\<lambda>e. e\<lparr>el_callingPendingFunctors := False\<rparr>) v)"
proof -
  obtain now active s1 s2 where poll: "EpollPoller_poll os l kPollTimeMs [] s = Inr (now, active, s1)"
    and ev: "for_each (Channel_handleEvent os run now) active
      (upd_loop l (\<lambda>e. e\<lparr>el_pollReturnTime := now, el_activeChannels := active\<rparr>) s1) = Inr s2"
    and fs: "EventLoop_doPendingFunctors os call l s2 = Inr s'"
    using assms(1) by (auto simp: EventLoop_loop_body_def and_then_eq_Inr Let_def)
  have "loop_grows l s s2"
  proof (rule for_each_invariant [OF ev])
    show "loop_grows l s (upd_loop l (\<lambda>e. e\<lparr>el_pollReturnTime := now, el_activeChannels := active\<rparr>) s1)"
      using poll_grows [OF poll] by (simp add: loop_grows_def)
  qed (rule handleEvent_grows [of os run now _ _ _ l s], rule_tac [2] assms(2))
  then obtain more where m: "el_pendingFunctors (loops s2 l) = el_pendingFunctors (loops s l) @ more"
    and q: "el_quit (loops s l) \<Longrightarrow> el_quit (loops s2 l)" by (auto simp: loop_grows_def)
  let ?u = "upd_loop l (\<lambda>e. e\<lparr>el_callingPendingFunctors := True, el_pendingFunctors := []\<rparr>) s2"
  obtain v where v: "for_each call (el_pendingFunctors (loops s l) @ more) ?u = Inr v"
    and s': "s' = fold (release_task os) (el_pendingFunctors (loops s l) @ more)
      (upd_loop l (\<lambda>e. e\<lparr>el_callingPendingFunctors := False\<rparr>) v)"
    using fs m by (auto simp: EventLoop_doPendingFunctors_def Let_def and_then_eq_Inr)
  have "loop_grows l ?u v"
    by (rule for_each_invariant [OF v]) (auto intro: loop_frameD assms(3))
  then show "el_quit (loops s l) \<Longrightarrow> el_quit (loops s' l)" using q by (simp add: s' loop_grows_def)
  from v s' show "\<exists>more u v. for_each call (el_pendingFunctors (loops s l) @ more) u = Inr v \<and>
      s' = fold (release_task os) (el_pendingFunctors (loops s l) @ more)
        (upd_loop l (\<lambda>e. e\<lparr>el_callingPendingFunctors := False\<rparr>) v)" by blast
qed


lemma fold_release_thread [simp]: "t_loopInThisThread (fold (release_task os) ts s) = t_loopInThisThread s"
  by (induction ts arbitrary: s) simp_all

lemma EventLoop_dtor_pending:
  "el_pendingFunctors (loops (EventLoop_dtor os l s) x) = el_pendingFunctors (loops s x)"
  by (simp add: EventLoop_dtor_def EpollPoller_dtor_def Let_def Channel_disbaleAll_def)

lemma EventLoop_dtor_gone: "t_loopInThisThread (EventLoop_dtor os l s) (cur_tid s) = None"
  by (simp add: EventLoop_dtor_def EpollPoller_dtor_def Let_def Channel_disbaleAll_def)

text \<open>
  C30: Destroying an \<^verbatim>\<open>EventLoopThread\<close> ends its loop and waits for it. If callbacks and functors do not
  clear \<^verbatim>\<open>quit_\<close> and the iteration the loop is in comes to its end, the destructor returns, with
  that iteration as the last one: it runs every functor that was pending when the destructor was
  called, and those queued by the events it handles. Afterwards the thread is joined and not detached,
  and no loop is left in the thread; the caller continues in its own thread.
\<close>

theorem thread_dtor_ends_loop:
  assumes "lt_loop lt = Some l" and "\<And>cb t. loop_frame l (run cb t)" and "\<And>t. loop_frame l (call t)"
    and "EventLoop_loop_body os run call l ((EventLoop_quit os l s)\<lparr>cur_tid := th_tid (lt_thread lt)\<rparr>) = Inr s1"
  shows "\<exists>lt' s' more u v. EventLoopThread_dtor os run call lt s = Some (Inr (lt', s')) \<and>
    lt_loop lt' = None \<and> lt_exiting lt' \<and> \<not> Thread_dtor_detaches (lt_thread lt') \<and>
    for_each call (el_pendingFunctors (loops s l) @ more) u = Inr v \<and>
    s1 = fold (release_task os) (el_pendingFunctors (loops s l) @ more)
      (upd_loop l (\<lambda>e. e\<lparr>el_callingPendingFunctors := False\<rparr>) v) \<and>
    s' = (EventLoop_dtor os l (upd_loop l (\<lambda>e. e\<lparr>el_looping := False\<rparr>) s1))\<lparr>cur_tid := cur_tid s\<rparr> \<and>
    t_loopInThisThread s' (cur_tid s1) = None"
proof -
  let ?q = "(EventLoop_quit os l s)\<lparr>cur_tid := th_tid (lt_thread lt)\<rparr>"
  let ?final = "(EventLoop_dtor os l (upd_loop l (\<lambda>e. e\<lparr>el_looping := False\<rparr>) s1))\<lparr>cur_tid := cur_tid s\<rparr>"
  note body = loop_body_grows [OF assms(4,2,3)]
  have pend: "el_pendingFunctors (loops ?q l) = el_pendingFunctors (loops s l)" by simp
  have "el_quit (loops ?q l)" by simp
  then have "el_quit (loops s1 l)" by (rule body(1))
  then have "loop_while (\<lambda>s. el_quit (loops s l)) (EventLoop_loop_body os run call l) s1 = Some (Inr s1)"
    by (simp add: loop_while.simps)
  then have run: "EventLoopThread_dtor os run call lt s = Some (Inr
      (lt\<lparr>lt_exiting := True, lt_loop := None, lt_thread := Thread_join (lt_thread lt)\<rparr>, ?final))"
    using assms(1,4) by (simp add: EventLoopThread_dtor_def threadFunc_end_def Let_def)
  moreover have "t_loopInThisThread ?final (cur_tid s1) = None"
    using EventLoop_dtor_gone [of os l "upd_loop l (\<lambda>e. e\<lparr>el_looping := False\<rparr>) s1"] by simp
  moreover obtain more u v where "for_each call (el_pendingFunctors (loops s l) @ more) u = Inr v"
    "s1 = fold (release_task os) (el_pendingFunctors (loops s l) @ more)
      (upd_loop l (\<lambda>e. e\<lparr>el_callingPendingFunctors := False\<rparr>) v)"
    using body(2) unfolding pend by blast
  ultimately show ?thesis
    by (intro exI conjI) (assumption | simp add: Thread_join_def Thread_dtor_detaches_def)+
qed

lemma sim_poll_idle:
  assumes "sim_ready (kern s) = []" and "length (pl_events (el_poller (loops s l))) = 16"
  shows "EpollPoller_poll sim_os l t active s = Inr (sim_clock (kern s), active, s)"
  using assms by (auto simp: EpollPoller_poll_def sim_wait_def size_as_int_small Let_def)

theorem thread_dtor_ends_loop_witness:
  "\<exists>lt' (s' :: sim reactor) more. EventLoopThread_dtor sim_os (\<lambda>_ _. Inr)
      (\<lambda>t s. Inr (if t = Bind_user 2 then EventLoop_queueInLoop sim_os 9 (Bind_user 7) s else s)) (running_thread ''loop'' 101 0)
      (upd_loop 0 (\<lambda>e. e\<lparr>el_threadId := 101, el_pendingFunctors := [Bind_user 2]\<rparr>) sim_reactor) = Some (Inr (lt', s')) \<and>
    lt_loop lt' = None \<and> \<not> Thread_dtor_detaches (lt_thread lt') \<and>
    el_pendingFunctors (loops s' 9) = [Bind_user 7]"
proof -
  let ?call = "\<lambda>t (s :: sim reactor). Inr (if t = Bind_user 2 then EventLoop_queueInLoop sim_os 9 (Bind_user 7) s else s)"
  let ?run = "\<lambda>_ _ (s :: sim reactor). Inr s :: sim reactor result"
  let ?lt = "running_thread ''loop'' 101 0"
  let ?s = "upd_loop 0 (\<lambda>e. e\<lparr>el_threadId := 101, el_pendingFunctors := [Bind_user 2]\<rparr>) sim_reactor"
  let ?quitting = "(EventLoop_quit sim_os 0 ?s)\<lparr>cur_tid := th_tid (lt_thread ?lt)\<rparr>"
  have frames: "loop_frame 0 (?run cb t)" "loop_frame 0 (?call task)" for cb t task
    by (auto simp: loop_frame_def loop_grows_def)
  have idle: "sim_ready (kern ?quitting) = []" "length (pl_events (el_poller (loops ?quitting 0))) = 16"
    by (simp_all add: EventLoop_quit_def EventLoop_wakeup_def sim_write_def sim_reactor_def sim_init_def Let_def split: prod.splits)
  from sim_poll_idle [OF this] obtain s1 where s1: "EventLoop_loop_body sim_os ?run ?call 0 ?quitting = Inr s1"
    "el_pendingFunctors (loops s1 9) = [Bind_user 7]"
    by (auto simp: EventLoop_loop_body_def EventLoop_doPendingFunctors_def Let_def sim_reactor_def)
  obtain lt' s' where "EventLoopThread_dtor sim_os ?run ?call ?lt ?s = Some (Inr (lt', s'))"
    "lt_loop lt' = None" "\<not> Thread_dtor_detaches (lt_thread lt')"
    "s' = (EventLoop_dtor sim_os 0 (upd_loop 0 (\<lambda>e. e\<lparr>el_looping := False\<rparr>) s1))\<lparr>cur_tid := cur_tid ?s\<rparr>"
    using thread_dtor_ends_loop [of ?lt 0 ?run ?call sim_os ?s s1, OF _ frames s1(1)] by (auto simp: running_thread_def)
  with s1 show ?thesis by (auto simp: EventLoop_dtor_pending)
qed

end
