(* ===== verification/TcpServer.thy ===== *)
theory TcpServer
  imports Acceptor ThreadPool
begin

text \<open>
  \<^verbatim>\<open>TcpServer.h\<close>, \<^verbatim>\<open>TcpServer.cpp\<close>: the server object, and the interpretation of every callback and
  functor of the program, which ties the components together. The state record is extended by
  the members of the server. A connection allocated with \<^verbatim>\<open>new\<close> gets the next unused address;
  addresses are not reused, so an address names one connection for good.
\<close>

section \<open>State\<close>

datatype server_option = kNoReusePort | kReusePort

record 'k server = "'k accnet" +
  sv_loop :: loop_ptr
  sv_ipPort :: string
  sv_name :: string
  sv_threadPool :: thread_pool
  sv_connectionCallback :: "user_fn option"
  sv_messageCallback :: "user_fn option"
  sv_writeCompleteCallback :: "user_fn option"
  sv_threadInitCallback :: "user_fn option"
  sv_started :: "32 word"
  sv_nextConnId :: int
  sv_connections :: "string \<rightharpoonup> conn_ptr"
  next_conn :: conn_ptr

section \<open>Construction and set-up\<close>

definition TcpServer_ctor ::
  "'k os \<Rightarrow> loop_ptr option \<Rightarrow> inet_address \<Rightarrow> string \<Rightarrow> server_option \<Rightarrow> ('k, 'z) server_scheme \<Rightarrow>
     ('k, 'z) server_scheme result" where
  "TcpServer_ctor os loop listenAddr nameArg option s =
     and_then (CheckLoopNotNull loop) (\<lambda>l.
     and_then (InetAddress_toIpPort listenAddr) (\<lambda>ipPort.
     and_then (Acceptor_ctor os l listenAddr (option = kReusePort) s) (\<lambda>s1.
       Inr (Acceptor_setNewConnectionCallback
         (s1\<lparr>sv_loop := l, sv_ipPort := ipPort, sv_name := nameArg,
             sv_threadPool := EventLoopThreadPool_ctor l nameArg, sv_connectionCallback := None,
             sv_messageCallback := None, sv_writeCompleteCallback := None, sv_threadInitCallback := None,
             sv_nextConnId := 1, sv_started := 0, sv_connections := Map.empty\<rparr>)))))"

definition TcpServer_setThreadInitCallback :: "user_fn option \<Rightarrow> ('k, 'z) server_scheme \<Rightarrow> ('k, 'z) server_scheme" where
  "TcpServer_setThreadInitCallback cb s = s\<lparr>sv_threadInitCallback := cb\<rparr>"

definition TcpServer_setConnectionCallback :: "user_fn option \<Rightarrow> ('k, 'z) server_scheme \<Rightarrow> ('k, 'z) server_scheme" where
  "TcpServer_setConnectionCallback cb s = s\<lparr>sv_connectionCallback := cb\<rparr>"

definition TcpServer_setMessageCallback :: "user_fn option \<Rightarrow> ('k, 'z) server_scheme \<Rightarrow> ('k, 'z) server_scheme" where
  "TcpServer_setMessageCallback cb s = s\<lparr>sv_messageCallback := cb\<rparr>"

definition TcpServer_setWriteCompleteCallback :: "user_fn option \<Rightarrow> ('k, 'z) server_scheme \<Rightarrow> ('k, 'z) server_scheme" where
  "TcpServer_setWriteCompleteCallback cb s = s\<lparr>sv_writeCompleteCallback := cb\<rparr>"

definition TcpServer_setThreadNum :: "int \<Rightarrow> ('k, 'z) server_scheme \<Rightarrow> ('k, 'z) server_scheme" where
  "TcpServer_setThreadNum numThreads s =
     s\<lparr>sv_threadPool := EventLoopThreadPool_setThreadNum numThreads (sv_threadPool s)\<rparr>"

text \<open>\<^verbatim>\<open>start\<close>: \<^verbatim>\<open>started_\<close> is an atomic \<^verbatim>\<open>int\<close>. What the initialisation callback does is the parameter
  \<^term>\<open>app_init\<close>; thread ids and loop addresses are given by \<^term>\<open>fresh\<close>.\<close>

definition TcpServer_start ::
  "'k os \<Rightarrow> ('k \<Rightarrow> (poller \<times> 'k) result) \<Rightarrow> (nat \<Rightarrow> int \<times> loop_ptr) \<Rightarrow>
     (user_fn \<Rightarrow> loop_ptr \<Rightarrow> ('k, 'z) server_scheme \<Rightarrow> ('k, 'z) server_scheme result) \<Rightarrow>
     ('k, 'z) server_scheme \<Rightarrow> ('k, 'z) server_scheme result" where
  "TcpServer_start os newDefaultPoller fresh app_init s =
     (let s0 = s\<lparr>sv_started := sv_started s + 1\<rparr> in
      if sv_started s = 0 then
        and_then (EventLoopThreadPool_start os newDefaultPoller fresh
                    (map_option app_init (sv_threadInitCallback s0)) (sv_threadPool s0) s0) (\<lambda>(tp, s1).
          let s2 = s1\<lparr>sv_threadPool := tp\<rparr>
          in EventLoop_runInLoop os (sv_loop s2) Bind_listen (Acceptor_listen os) s2)
      else Inr s0)"

section \<open>Connections\<close>

definition connName :: "string \<Rightarrow> string \<Rightarrow> int \<Rightarrow> string" where
  "connName name ipPort nextConnId = name @ snprintf_buf 64 (''-'' @ ipPort @ ''#'' @ show_int nextConnId)"

text \<open>\<^verbatim>\<open>connections_[name] = conn\<close> and \<^verbatim>\<open>connections_.erase(name)\<close>: the map owns its entries.\<close>

definition map_assign :: "'k os \<Rightarrow> string \<Rightarrow> conn_ptr \<Rightarrow> ('k, 'z) server_scheme \<Rightarrow> ('k, 'z) server_scheme" where
  "map_assign os name c s =
     (let s1 = retain c (s\<lparr>sv_connections := (sv_connections s)(name \<mapsto> c)\<rparr>)
      in case sv_connections s name of None \<Rightarrow> s1 | Some old \<Rightarrow> release os old s1)"

definition map_erase :: "'k os \<Rightarrow> string \<Rightarrow> ('k, 'z) server_scheme \<Rightarrow> ('k, 'z) server_scheme" where
  "map_erase os name s =
     (let s1 = s\<lparr>sv_connections := (sv_connections s)(name := None)\<rparr>
      in case sv_connections s name of None \<Rightarrow> s1 | Some old \<Rightarrow> release os old s1)"

definition zero_addr :: inet_address where
  "zero_addr = \<lparr>sin_family = 0, sin_port = 0, sin_addr = 0\<rparr>"

definition TcpServer_newConnection ::
  "'k os \<Rightarrow> ('k, 'z) server_scheme app \<Rightarrow> fd \<Rightarrow> inet_address \<Rightarrow> ('k, 'z) server_scheme \<Rightarrow>
     ('k, 'z) server_scheme result" where
  "TcpServer_newConnection os app sockfd peerAddr s =
     and_then (EventLoopThreadPool_getNextLoop (sv_threadPool s)) (\<lambda>(ioLoop, tp).
     if sv_nextConnId s = 2147483647 then Inl SignedOverflow
     else
       let name = connName (sv_name s) (sv_ipPort s) (sv_nextConnId s);
           c = next_conn s;
           s1 = s\<lparr>sv_threadPool := tp, sv_nextConnId := sv_nextConnId s + 1, next_conn := Suc c\<rparr>;
           ((r, local), k') = sys_getsockname os sockfd (kern s1);
           s2 = (if r < 0 then LOG_ERROR ''sockets::getLocalAddr'' 0 (s1\<lparr>kern := k'\<rparr>) else s1\<lparr>kern := k'\<rparr>);
           localAddr = (if r < 0 then zero_addr else local)
       in and_then (TcpConnection_ctor os c (Some ioLoop) name sockfd localAddr peerAddr s2) (\<lambda>s3.
            let s4 = s3\<lparr>refs := (refs s3)(c := 1)\<rparr>;
                s5 = map_assign os name c s4;
                s6 = TcpConnection_setConnectionCallback c (sv_connectionCallback s5) s5;
                s7 = TcpConnection_setMessageCallback c (sv_messageCallback s6) s6;
                s8 = TcpConnection_setWriteCompleteCallback c (sv_writeCompleteCallback s7) s7;
                s9 = TcpConnection_setCloseCallback c (Some Bind_TcpServer_removeConnection) s8
            in and_then (EventLoop_runInLoop os ioLoop (Bind_connectEstablished c)
                           (TcpConnection_connectEstablished os app c) s9) (\<lambda>s10.
                 Inr (release os c s10))))"

definition TcpServer_removeConnectionInLoop ::
  "'k os \<Rightarrow> conn_ptr \<Rightarrow> ('k, 'z) server_scheme \<Rightarrow> ('k, 'z) server_scheme" where
  "TcpServer_removeConnectionInLoop os c s =
     (let s1 = map_erase os (tc_name (conns s c)) s
      in EventLoop_queueInLoop os (tc_loop (conns s1 c)) (Bind_connectDestroyed c) s1)"

definition TcpServer_removeConnection ::
  "'k os \<Rightarrow> conn_ptr \<Rightarrow> ('k, 'z) server_scheme \<Rightarrow> ('k, 'z) server_scheme result" where
  "TcpServer_removeConnection os c s =
     EventLoop_runInLoop os (sv_loop s) (Bind_removeConnectionInLoop c)
       (\<lambda>s. Inr (TcpServer_removeConnectionInLoop os c s)) s"

text \<open>One round of the loop in the destructor. The entry is reset to a null pointer, which is a name
  without a connection here.\<close>

definition TcpServer_dtor_entry ::
  "'k os \<Rightarrow> ('k, 'z) server_scheme app \<Rightarrow> string \<Rightarrow> ('k, 'z) server_scheme \<Rightarrow> ('k, 'z) server_scheme result" where
  "TcpServer_dtor_entry os app name s =
     (case sv_connections s name of
        None \<Rightarrow> Inl NullPointer
      | Some c \<Rightarrow>
          let s1 = release os c (retain c (s\<lparr>sv_connections := (sv_connections s)(name := None)\<rparr>))
          in and_then (EventLoop_runInLoop os (tc_loop (conns s1 c)) (Bind_connectDestroyed c)
                         (TcpConnection_connectDestroyed os app c) s1) (\<lambda>s2.
               Inr (release os c s2)))"

section \<open>Running callbacks and functors\<close>

text \<open>The application with the server's own close callback filled in.\<close>

definition server_app :: "'k os \<Rightarrow> ('k, 'z) server_scheme app \<Rightarrow> ('k, 'z) server_scheme app" where
  "server_app os usr = usr\<lparr>app_close := (\<lambda>f c s. case f of
      Bind_TcpServer_removeConnection \<Rightarrow> TcpServer_removeConnection os c s
    | User_close u \<Rightarrow> app_close usr f c s)\<rparr>"

text \<open>A call through a raw \<^verbatim>\<open>this\<close> needs the connection to be alive.\<close>

definition on_live :: "conn_ptr \<Rightarrow> (('k, 'z) server_scheme \<Rightarrow> 'a result) \<Rightarrow> ('k, 'z) server_scheme \<Rightarrow> 'a result" where
  "on_live c f s = (if refs s c = 0 then Inl NullPointer else f s)"

fun run_callback ::
  "'k os \<Rightarrow> (string \<Rightarrow> 32 word) \<Rightarrow> ('k, 'z) server_scheme app \<Rightarrow> event_callback \<Rightarrow> int \<Rightarrow>
     ('k, 'z) server_scheme \<Rightarrow> ('k, 'z) server_scheme result" where
  "run_callback os inet app (Bind_EventLoop_handleRead l) t s = Inr (EventLoop_handleRead os l s)"
| "run_callback os inet app Bind_Acceptor_handleRead t s =
     Acceptor_handleRead os inet (TcpServer_newConnection os app) s"
| "run_callback os inet app (Bind_TcpConnection_handleRead c) t s =
     on_live c (TcpConnection_handleRead os app t c) s"
| "run_callback os inet app (Bind_TcpConnection_handleWrite c) t s = on_live c (TcpConnection_handleWrite os c) s"
| "run_callback os inet app (Bind_TcpConnection_handleClose c) t s = on_live c (TcpConnection_handleClose os app c) s"
| "run_callback os inet app (Bind_TcpConnection_handleError c) t s =
     on_live c (\<lambda>s. Inr (TcpConnection_handleError os c s)) s"

fun exec_task ::
  "'k os \<Rightarrow> ('k, 'z) server_scheme app \<Rightarrow> task \<Rightarrow> ('k, 'z) server_scheme \<Rightarrow> ('k, 'z) server_scheme result" where
  "exec_task os app (Bind_connectEstablished c) s = TcpConnection_connectEstablished os app c s"
| "exec_task os app (Bind_connectDestroyed c) s = TcpConnection_connectDestroyed os app c s"
| "exec_task os app (Bind_sendInLoop c data) s = on_live c (TcpConnection_sendInLoop os c data) s"
| "exec_task os app (Bind_shutdownInLoop c) s = on_live c (\<lambda>s. Inr (TcpConnection_shutdownInLoop os c s)) s"
| "exec_task os app (Bind_writeComplete u c) s = app_writeComplete app u c s"
| "exec_task os app (Bind_highWaterMark u c n) s = app_highWaterMark app u c n s"
| "exec_task os app Bind_listen s = Acceptor_listen os s"
| "exec_task os app (Bind_removeConnectionInLoop c) s = Inr (TcpServer_removeConnectionInLoop os c s)"
| "exec_task os app (Bind_user n) s = app_user app n s"

definition server_loop ::
  "'k os \<Rightarrow> (string \<Rightarrow> 32 word) \<Rightarrow> ('k, 'z) server_scheme app \<Rightarrow> loop_ptr \<Rightarrow>
     ('k, 'z) server_scheme \<Rightarrow> ('k, 'z) server_scheme result option" where
  "server_loop os inet usr l =
     EventLoop_loop os (run_callback os inet (server_app os usr)) (exec_task os (server_app os usr)) l"

text \<open>The destructor: its body, with the unspecified \<^term>\<open>order\<close> in which the hash map yields its entries,
  then the members in reverse order of declaration: the map, the thread pool, the acceptor.\<close>

definition TcpServer_dtor ::
  "'k os \<Rightarrow> (string \<Rightarrow> 32 word) \<Rightarrow> ('k, 'z) server_scheme app \<Rightarrow> string list \<Rightarrow> ('k, 'z) server_scheme \<Rightarrow>
     ('k, 'z) server_scheme result option" where
  "TcpServer_dtor os inet usr order s =
     (let app = server_app os usr in
      case for_each (TcpServer_dtor_entry os app) order s of
        Inl e \<Rightarrow> Some (Inl e)
      | Inr s1 \<Rightarrow>
          map_option (\<lambda>r. and_then r (\<lambda>s2. Inr (Acceptor_dtor os s2)))
            (EventLoopThreadPool_dtor os (run_callback os inet app) (exec_task os app) (sv_threadPool s1)
              (s1\<lparr>sv_connections := Map.empty\<rparr>)))"

section \<open>Frame facts\<close>

lemma server_more:
  fixes s s' :: "('k, 'z) server_scheme"
  assumes "reactor.more s' = reactor.more s"
  shows "sv_loop s' = sv_loop s" "sv_ipPort s' = sv_ipPort s" "sv_name s' = sv_name s"
    "sv_threadPool s' = sv_threadPool s" "sv_connectionCallback s' = sv_connectionCallback s"
    "sv_messageCallback s' = sv_messageCallback s" "sv_writeCompleteCallback s' = sv_writeCompleteCallback s"
    "sv_nextConnId s' = sv_nextConnId s" "sv_connections s' = sv_connections s" "next_conn s' = next_conn s"
    "the_acceptor s' = the_acceptor s"
  using assms by (cases s; cases s'; simp)+

lemmas sv_of_more = server_more [of "LOG_ERROR m n s" s for m n s, OF LOG_ERROR_sel(8)]
  server_more [of "retain c s" s for c s, OF retain_sel(8)]
  server_more [of "release os c s" s for os c s, OF release_sel(7)]
  server_more [of "Channel_update os p s" s for os p s, OF Channel_update_sel(4)]
  server_more [of "Channel_remove os p s" s for os p s, OF Channel_remove_sel(4)]
  server_more [of "Channel_set_events g p s" s for g p s, OF Channel_set_events_more(1)]
  server_more [of "upd_chan p f s" s for p f s, OF upd_chan_sel(8)]
  server_more [of "upd_loop l f s" s for l f s, OF upd_loop_sel(8)]
  server_more [of "Socket_setKeepAlive os f b s" s for os f b s, OF setKeepAlive_sel(7)]

lemma queueInLoop_more: "reactor.more (EventLoop_queueInLoop os l t s) = reactor.more s"
  by simp

lemmas sv_of_queue = server_more [of "EventLoop_queueInLoop os l t s" s for os l t s, OF queueInLoop_more]

lemma upd_conn_server [simp]:
  fixes s :: "('k, 'z) server_scheme"
  shows "sv_loop (upd_conn c f s) = sv_loop s" "sv_ipPort (upd_conn c f s) = sv_ipPort s"
    "sv_name (upd_conn c f s) = sv_name s" "sv_threadPool (upd_conn c f s) = sv_threadPool s"
    "sv_connectionCallback (upd_conn c f s) = sv_connectionCallback s"
    "sv_messageCallback (upd_conn c f s) = sv_messageCallback s"
    "sv_writeCompleteCallback (upd_conn c f s) = sv_writeCompleteCallback s"
    "sv_nextConnId (upd_conn c f s) = sv_nextConnId s" "sv_connections (upd_conn c f s) = sv_connections s"
    "next_conn (upd_conn c f s) = next_conn s"
  by (simp_all add: upd_conn_def)

declare sv_of_more [simp] sv_of_queue [simp]

section \<open>Connection names\<close>

lemma show_int_nonneg: "0 \<le> i \<Longrightarrow> show_int i = show_nat (nat i)"
  by (simp add: show_int_def)

lemma connName_whole:
  assumes "length ipPort \<le> 21" and "0 \<le> i" and "i < 2147483648"
  shows "connName name ipPort i = name @ ''-'' @ ipPort @ ''#'' @ show_nat (nat i)"
proof -
  have "length (show_nat (nat i)) \<le> 10" using length_show_nat [of "nat i" 9] assms by simp
  with assms show ?thesis by (simp add: connName_def snprintf_buf_def show_int_nonneg)
qed

lemma no_hash: "CHR ''#'' \<notin> set (show_nat n)"
  by (rule show_nat_no) simp

lemma connName_inject:
  assumes "length ipPort \<le> 21" and "0 \<le> i" and "i < 2147483648" and "0 \<le> j" and "j < 2147483648"
  shows "connName name ipPort i = connName name ipPort j \<longleftrightarrow> i = j"
  using assms by (simp add: connName_whole eq_nat_nat_iff)

text \<open>Every entry of the map is filed under the name built from an id that was used, and is a
  connection with that name.\<close>

definition names_ok :: "('k, 'z) server_scheme \<Rightarrow> bool" where
  "names_ok s \<longleftrightarrow> length (sv_ipPort s) \<le> 21 \<and> 1 \<le> sv_nextConnId s \<and> sv_nextConnId s \<le> 2147483647 \<and>
     (\<forall>nm c. sv_connections s nm = Some c \<longrightarrow> c < next_conn s \<and> tc_name (conns s c) = nm \<and>
        (\<exists>i. 1 \<le> i \<and> i < sv_nextConnId s \<and> nm = connName (sv_name s) (sv_ipPort s) i))"

lemma new_name_free:
  assumes "names_ok s"
  shows "sv_connections s (connName (sv_name s) (sv_ipPort s) (sv_nextConnId s)) = None"
proof (rule ccontr)
  assume "\<not> ?thesis"
  then obtain i where "1 \<le> i" "i < sv_nextConnId s"
      "connName (sv_name s) (sv_ipPort s) (sv_nextConnId s) = connName (sv_name s) (sv_ipPort s) i"
    using assms by (auto simp: names_ok_def)
  with assms show False by (simp add: names_ok_def connName_inject)
qed

section \<open>New connections\<close>

definition fresh_buffer :: buffer where
  "fresh_buffer = \<lparr>buf = replicate 1032 0, readerIndex = 8, writerIndex = 8\<rparr>"

lemma Buffer_ctor_initial: "Buffer_ctor kInitialSize = Inr fresh_buffer"
  "buffer_ok fresh_buffer" "contents fresh_buffer = []"
  by (simp_all add: Buffer_ctor_def kInitialSize_def kCheapPrepend_def fresh_buffer_def vector_max_size_def
      buffer_ok_def contents_def)

text \<open>The members a new connection has.\<close>

definition new_conn :: "loop_ptr \<Rightarrow> string \<Rightarrow> fd \<Rightarrow> inet_address \<Rightarrow> inet_address \<Rightarrow> tcp_connection" where
  "new_conn l name sockfd localAddr peerAddr =
     \<lparr>tc_loop = l, tc_name = name, tc_state = kConnecting, tc_reading = True, tc_socket = sockfd,
      tc_localAddr = localAddr, tc_peerAddr = peerAddr, tc_connectionCallback = None, tc_messageCallback = None,
      tc_writeCompleteCallback = None, tc_highWaterMarkCallback = None, tc_closeCallback = None,
      tc_highWaterMark = 67108864, tc_inputBuffer = fresh_buffer, tc_outputBuffer = fresh_buffer\<rparr>"

lemma TcpConnection_ctor_run:
  fixes s :: "('k, 'z) server_scheme"
  shows "\<exists>s'. TcpConnection_ctor os c (Some l) name sockfd localAddr peerAddr s = Inr s' \<and>
    conns s' = (conns s)(c := new_conn l name sockfd localAddr peerAddr) \<and>
    chan s' = (chan s)(ConnChannel c := (Channel_ctor l sockfd)\<lparr>
      ch_readCallback := Some (Bind_TcpConnection_handleRead c), ch_writeCallback := Some (Bind_TcpConnection_handleWrite c),
      ch_closeCallback := Some (Bind_TcpConnection_handleClose c), ch_errorCallback := Some (Bind_TcpConnection_handleError c)\<rparr>) \<and>
    loops s' = loops s \<and> refs s' = refs s \<and> cur_tid s' = cur_tid s \<and> errs s' = errs s \<and>
    accnet.more s' = accnet.more s \<and> the_acceptor s' = the_acceptor s \<and>
    kern s' = sys_setsockopt os sockfd SO_KEEPALIVE (optval True) (kern s)"
  by (simp add: TcpConnection_ctor_def CheckLoopNotNull_def Buffer_ctor_initial Let_def new_conn_def
      Channel_setReadCallback_def Channel_setWriteCallback_def Channel_setCloseCallback_def
      Channel_setErrorCallback_def Socket_setKeepAlive_def upd_chan_def Channel_ctor_def)

lemma server_accnet_more:
  fixes s s' :: "('k, 'z) server_scheme"
  assumes "accnet.more s' = accnet.more s"
  shows "sv_loop s' = sv_loop s" "sv_ipPort s' = sv_ipPort s" "sv_name s' = sv_name s"
    "sv_threadPool s' = sv_threadPool s" "sv_connectionCallback s' = sv_connectionCallback s"
    "sv_messageCallback s' = sv_messageCallback s" "sv_writeCompleteCallback s' = sv_writeCompleteCallback s"
    "sv_nextConnId s' = sv_nextConnId s" "sv_connections s' = sv_connections s" "next_conn s' = next_conn s"
  using assms by (cases s; cases s'; simp)+

lemma map_assign_free:
  "sv_connections s name = None \<Longrightarrow>
   map_assign os name c s = retain c (s\<lparr>sv_connections := (sv_connections s)(name \<mapsto> c)\<rparr>)"
  by (simp add: map_assign_def)

lemma names_ok_insert:
  assumes ok: "names_ok s" and id: "sv_nextConnId s < 2147483647"
    and cs: "sv_connections s' = (sv_connections s)(connName (sv_name s) (sv_ipPort s) (sv_nextConnId s) \<mapsto> next_conn s)"
    and co: "conns s' = (conns s)(next_conn s := tc)"
    and tc: "tc_name tc = connName (sv_name s) (sv_ipPort s) (sv_nextConnId s)"
    and fr: "sv_nextConnId s' = sv_nextConnId s + 1" "next_conn s' = Suc (next_conn s)" "sv_name s' = sv_name s"
      "sv_ipPort s' = sv_ipPort s"
  shows "names_ok s'"
proof -
  have old: "c < next_conn s \<and> tc_name (conns s c) = nm \<and>
      (\<exists>i. 1 \<le> i \<and> i < sv_nextConnId s \<and> nm = connName (sv_name s) (sv_ipPort s) i)"
    if "sv_connections s nm = Some c" for nm c
    using ok that by (simp add: names_ok_def)
  have "c < next_conn s' \<and> tc_name (conns s' c) = nm \<and>
      (\<exists>i. 1 \<le> i \<and> i < sv_nextConnId s' \<and> nm = connName (sv_name s') (sv_ipPort s') i)"
    if e: "sv_connections s' nm = Some c" for nm c
  proof (cases "nm = connName (sv_name s) (sv_ipPort s) (sv_nextConnId s)")
    case True
    moreover have "1 \<le> sv_nextConnId s" using ok by (simp add: names_ok_def)
    ultimately show ?thesis using e tc by (auto simp: cs co fr)
  next
    case False
    with e old [of nm c] show ?thesis by (auto simp: cs co fr)
  qed
  with ok id show ?thesis by (simp add: names_ok_def fr)
qed

text \<open>The members once the server has set its callbacks.\<close>

definition server_conn ::
  "('k, 'z) server_scheme \<Rightarrow> loop_ptr \<Rightarrow> string \<Rightarrow> fd \<Rightarrow> inet_address \<Rightarrow> inet_address \<Rightarrow> tcp_connection" where
  "server_conn s l name sockfd localAddr peerAddr =
     (new_conn l name sockfd localAddr peerAddr)\<lparr>
      tc_connectionCallback := sv_connectionCallback s, tc_messageCallback := sv_messageCallback s,
      tc_writeCompleteCallback := sv_writeCompleteCallback s,
      tc_closeCallback := Some Bind_TcpServer_removeConnection\<rparr>"

text \<open>The state that has the new connection, wired and owned twice, and has moved on the counter and the pool.\<close>

definition server_channel :: "loop_ptr \<Rightarrow> fd \<Rightarrow> conn_ptr \<Rightarrow> channel" where
  "server_channel l sockfd c = (Channel_ctor l sockfd)\<lparr>ch_readCallback := Some (Bind_TcpConnection_handleRead c),
      ch_writeCallback := Some (Bind_TcpConnection_handleWrite c), ch_closeCallback := Some (Bind_TcpConnection_handleClose c),
      ch_errorCallback := Some (Bind_TcpConnection_handleError c)\<rparr>"

definition created ::
  "('k, 'z) server_scheme \<Rightarrow> loop_ptr \<Rightarrow> thread_pool \<Rightarrow> fd \<Rightarrow> inet_address \<Rightarrow> inet_address \<Rightarrow> ('k, 'z) server_scheme \<Rightarrow> bool" where
  "created s l tp sockfd loc peerAddr s9 \<longleftrightarrow> (let c = next_conn s; nm = connName (sv_name s) (sv_ipPort s) (sv_nextConnId s) in
     conns s9 = (conns s)(c := server_conn s l nm sockfd loc peerAddr) \<and>
     chan s9 = (chan s)(ConnChannel c := server_channel l sockfd c) \<and>
     loops s9 = loops s \<and> refs s9 = (refs s)(c := 2) \<and> cur_tid s9 = cur_tid s \<and>
     sv_connections s9 = (sv_connections s)(nm \<mapsto> c) \<and> sv_nextConnId s9 = sv_nextConnId s + 1 \<and> next_conn s9 = Suc c \<and>
     sv_name s9 = sv_name s \<and> sv_ipPort s9 = sv_ipPort s \<and> sv_threadPool s9 = tp \<and> sv_loop s9 = sv_loop s \<and>
     sv_connectionCallback s9 = sv_connectionCallback s \<and> sv_messageCallback s9 = sv_messageCallback s)"

lemma createdD:
  assumes "created s l tp sockfd loc peerAddr s9"
  shows "conns s9 = (conns s)(next_conn s := server_conn s l (connName (sv_name s) (sv_ipPort s) (sv_nextConnId s)) sockfd loc peerAddr)"
    "chan s9 = (chan s)(ConnChannel (next_conn s) := server_channel l sockfd (next_conn s))"
    "loops s9 = loops s" "refs s9 = (refs s)(next_conn s := 2)" "cur_tid s9 = cur_tid s"
    "sv_connections s9 = (sv_connections s)(connName (sv_name s) (sv_ipPort s) (sv_nextConnId s) \<mapsto> next_conn s)"
    "sv_nextConnId s9 = sv_nextConnId s + 1" "next_conn s9 = Suc (next_conn s)" "sv_name s9 = sv_name s" "sv_ipPort s9 = sv_ipPort s"
    "sv_threadPool s9 = tp" "sv_loop s9 = sv_loop s" "sv_connectionCallback s9 = sv_connectionCallback s"
    "sv_messageCallback s9 = sv_messageCallback s"
  using assms by (simp_all add: created_def Let_def)

text \<open>The parts of the new channel and connection.\<close>

lemmas new_object_defs = server_channel_def Channel_ctor_def kNew_def server_conn_def new_conn_def

lemmas conn_setters = TcpConnection_setCloseCallback_def TcpConnection_setWriteCompleteCallback_def
  TcpConnection_setMessageCallback_def TcpConnection_setConnectionCallback_def

text \<open>\<^verbatim>\<open>newConnection\<close> up to the call of \<^verbatim>\<open>runInLoop\<close>: the connection is built, filed and owned twice,
  by the map and by the local pointer.\<close>

lemma newConnection_run:
  assumes "names_ok s" and "sv_nextConnId s < 2147483647"
    and "EventLoopThreadPool_getNextLoop (sv_threadPool s) = Inr (ioLoop, tp)"
  shows "\<exists>s9 loc. TcpServer_newConnection os app sockfd peerAddr s =
      and_then (EventLoop_runInLoop os ioLoop (Bind_connectEstablished (next_conn s))
         (TcpConnection_connectEstablished os app (next_conn s)) s9) (\<lambda>s10. Inr (release os (next_conn s) s10)) \<and>
    created s ioLoop tp sockfd loc peerAddr s9 \<and>
    kern s9 = sys_setsockopt os sockfd SO_KEEPALIVE (optval True) (snd (sys_getsockname os sockfd (kern s)))"
proof -
  let ?c = "next_conn s" and ?nm = "connName (sv_name s) (sv_ipPort s) (sv_nextConnId s)"
  have free: "sv_connections s ?nm = None" using assms(1) by (rule new_name_free)
  obtain r loc k' where gs: "sys_getsockname os sockfd (kern s) = ((r, loc), k')" by (metis surj_pair)
  let ?s1 = "s\<lparr>sv_threadPool := tp, sv_nextConnId := sv_nextConnId s + 1, next_conn := Suc ?c\<rparr>"
  let ?s2 = "if r < 0 then LOG_ERROR ''sockets::getLocalAddr'' 0 (?s1\<lparr>kern := k'\<rparr>) else ?s1\<lparr>kern := k'\<rparr>"
  let ?loc = "if r < 0 then zero_addr else loc"
  obtain s3 where s3: "TcpConnection_ctor os ?c (Some ioLoop) ?nm sockfd ?loc peerAddr ?s2 = Inr s3"
    and co: "conns s3 = (conns s)(?c := new_conn ioLoop ?nm sockfd ?loc peerAddr)"
    and ch: "chan s3 = (chan s)(ConnChannel ?c := (Channel_ctor ioLoop sockfd)\<lparr>
      ch_readCallback := Some (Bind_TcpConnection_handleRead ?c), ch_writeCallback := Some (Bind_TcpConnection_handleWrite ?c),
      ch_closeCallback := Some (Bind_TcpConnection_handleClose ?c), ch_errorCallback := Some (Bind_TcpConnection_handleError ?c)\<rparr>)"
    and fr: "loops s3 = loops s" "refs s3 = refs s" "cur_tid s3 = cur_tid s" "accnet.more s3 = accnet.more ?s2"
    and k: "kern s3 = sys_setsockopt os sockfd SO_KEEPALIVE (optval True) k'"
    using TcpConnection_ctor_run [of os ?c ioLoop ?nm sockfd ?loc peerAddr ?s2] by auto
  note sv = server_accnet_more [OF fr(4)]
  let ?s5 = "retain ?c (s3\<lparr>refs := (refs s3)(?c := 1), sv_connections := (sv_connections s)(?nm \<mapsto> ?c)\<rparr>)"
  let ?s9 = "TcpConnection_setCloseCallback ?c (Some Bind_TcpServer_removeConnection)
    (TcpConnection_setWriteCompleteCallback ?c (sv_writeCompleteCallback s)
      (TcpConnection_setMessageCallback ?c (sv_messageCallback s)
        (TcpConnection_setConnectionCallback ?c (sv_connectionCallback s) ?s5)))"
  have run: "TcpServer_newConnection os app sockfd peerAddr s =
      and_then (EventLoop_runInLoop os ioLoop (Bind_connectEstablished ?c)
         (TcpConnection_connectEstablished os app ?c) ?s9) (\<lambda>s10. Inr (release os ?c s10))"
    using assms(2,3) gs s3 free sv
    by (simp add: TcpServer_newConnection_def Let_def map_assign_free conn_setters)
  moreover have "refs ?s9 = (refs s)(?c := 2)"
    by (simp add: conn_setters fr numeral_2_eq_2)
  ultimately show ?thesis
    using co ch fr sv k gs
    by (intro exI [of _ ?s9] exI [of _ ?loc]) (simp add: created_def Let_def conn_setters server_conn_def server_channel_def)
qed


text \<open>An application that reacts to nothing.\<close>

definition quiet_app :: "'s app" where
  "quiet_app = \<lparr>app_connection = (\<lambda>_ _. Inr), app_message = (\<lambda>_ _ _. Inr), app_writeComplete = (\<lambda>_ _. Inr),
     app_highWaterMark = (\<lambda>_ _ _. Inr), app_close = (\<lambda>_ _. Inr), app_user = (\<lambda>_. Inr)\<rparr>"

text \<open>A server with no connection yet, whose pool has loops 6 and 8.\<close>

definition sim_server :: "sim server" where
  "sim_server = accnet.extend sim_acc
     \<lparr>sv_loop = 0, sv_ipPort = ''127.0.0.1:8002'', sv_name = ''EchoServer'',
      sv_threadPool = \<lparr>tp_baseloop = 0, tp_next = 0, tp_numThreads = 2, tp_started = True, tp_name = ''EchoServer'',
        tp_threads = [running_thread ''EchoServer0'' 101 6, running_thread ''EchoServer1'' 102 8],
        tp_loops = [6, 8]\<rparr>,
      sv_connectionCallback = Some 0, sv_messageCallback = Some 0, sv_writeCompleteCallback = None,
      sv_threadInitCallback = None, sv_started = 1, sv_nextConnId = 1, sv_connections = Map.empty,
      next_conn = 2\<rparr>"

lemma sim_server_sel [simp]:
  "kern sim_server = sim_init" "cur_tid sim_server = 100" "errs sim_server = []" "refs sim_server = (\<lambda>_. 1)"
  "chan sim_server = chan sim_net" "loops sim_server = loops sim_reactor" "conns sim_server = (\<lambda>_. sim_conn)"
  "sv_loop sim_server = 0" "sv_ipPort sim_server = ''127.0.0.1:8002''" "sv_name sim_server = ''EchoServer''"
  "sv_nextConnId sim_server = 1" "sv_connections sim_server = Map.empty" "next_conn sim_server = 2"
  "sv_connectionCallback sim_server = Some 0" "sv_messageCallback sim_server = Some 0"
  by (simp_all add: sim_server_def accnet.defs sim_acc_def net.defs sim_net_def sim_reactor_def reactor.defs)


section \<open>The end of a connection\<close>

text \<open>An application whose connection callback only looks.\<close>

definition quiet_connection :: "('k, 'z) server_scheme app \<Rightarrow> bool" where
  "quiet_connection usr \<longleftrightarrow> (\<forall>f c s. app_connection usr f c s = Inr s)"

lemma handleClose_quiet:
  assumes "quiet_connection usr" and "refs s c \<noteq> 0" and "tc_connectionCallback (conns s c) \<noteq> None"
    and "tc_closeCallback (conns s c) = Some Bind_TcpServer_removeConnection"
    and "EventLoop_isInLoopThread (sv_loop s) s"
  shows "TcpConnection_handleClose os (server_app os usr) c s =
    Inr (release os c (TcpServer_removeConnectionInLoop os c (retain c
      (Channel_disbaleAll os (ConnChannel c) (TcpConnection_setState c kDisconnected s)))))"
  using assms
  by (auto simp: TcpConnection_handleClose_def with_shared_def call_fn_def server_app_def quiet_connection_def
      TcpServer_removeConnection_def EventLoop_runInLoop_def EventLoop_isInLoopThread_def
      TcpConnection_setState_def Channel_disbaleAll_def)

text \<open>Erasing the map's entry while other owners remain destroys nothing.\<close>

lemma removeConnectionInLoop_spec:
  fixes s :: "('k, 'z) server_scheme" and os :: "'k os"
  assumes "sv_connections s (tc_name (conns s c)) = Some c" and "2 \<le> refs s c"
    and "EventLoop_isInLoopThread (tc_loop (conns s c)) s"
    and "\<not> el_callingPendingFunctors (loops s (tc_loop (conns s c)))"
  defines "l \<equiv> tc_loop (conns s c)"
  defines "s' \<equiv> TcpServer_removeConnectionInLoop os c s"
  shows "kern s' = kern s" and "chan s' = chan s" and "conns s' = conns s" and "refs s' c = refs s c"
    and "loops s' = (loops s)(l := (loops s l)\<lparr>el_pendingFunctors := el_pendingFunctors (loops s l) @ [Bind_connectDestroyed c]\<rparr>)"
    and "sv_connections s' = (sv_connections s)(tc_name (conns s c) := None)" and "cur_tid s' = cur_tid s"
proof -
  let ?s1 = "map_erase os (tc_name (conns s c)) s"
  have s1: "?s1 = s\<lparr>sv_connections := (sv_connections s)(tc_name (conns s c) := None),
      refs := (refs s)(c := refs s c - 1)\<rparr>"
    using assms(1,2) by (simp add: map_erase_def release_def Let_def)
  have q: "EventLoop_queueInLoop os l (Bind_connectDestroyed c) ?s1 = retain c
      (upd_loop l (\<lambda>e. e\<lparr>el_pendingFunctors := el_pendingFunctors e @ [Bind_connectDestroyed c]\<rparr>) ?s1)"
    using assms(3,4) unfolding s1
    by (simp add: EventLoop_queueInLoop_def Let_def EventLoop_isInLoopThread_def retain_task_def l_def)
  have s': "s' = retain c
      (upd_loop l (\<lambda>e. e\<lparr>el_pendingFunctors := el_pendingFunctors e @ [Bind_connectDestroyed c]\<rparr>) ?s1)"
    using q by (simp add: s'_def TcpServer_removeConnectionInLoop_def Let_def l_def s1)
  show "kern s' = kern s" "chan s' = chan s" "conns s' = conns s" "refs s' c = refs s c"
    "loops s' = (loops s)(l := (loops s l)\<lparr>el_pendingFunctors := el_pendingFunctors (loops s l) @ [Bind_connectDestroyed c]\<rparr>)"
    "sv_connections s' = (sv_connections s)(tc_name (conns s c) := None)" "cur_tid s' = cur_tid s"
    using assms(2) by (simp_all add: s' s1)
qed

lemma removeConnectionInLoop_errs:
  assumes "sv_connections s (tc_name (conns s c)) = Some c" and "2 \<le> refs s c"
    and "EventLoop_isInLoopThread (tc_loop (conns s c)) s"
    and "\<not> el_callingPendingFunctors (loops s (tc_loop (conns s c)))"
  shows "errs (TcpServer_removeConnectionInLoop os c s) = errs s"
  using assms by (simp add: TcpServer_removeConnectionInLoop_def map_erase_def Let_def EventLoop_queueInLoop_def
      EventLoop_isInLoopThread_def)

lemma release_kern: "2 \<le> refs s c \<Longrightarrow> kern (release os c s) = kern s"
  by (simp add: release_def Let_def)

text \<open>A channel that was removed is neither in the poller's map nor watched by the kernel.\<close>

lemma remove_unwatched:
  fixes s :: "('k, 'z) reactor_scheme"
  assumes ct: "epoll_ctl_contract os interest" and reg: "registry_ok interest l s" "registrable l p s"
  defines "s' \<equiv> Channel_remove os p s"
  shows "interest (kern s') (pl_epollfd (el_poller (loops s l))) (ch_fd (chan s p)) = None"
    and "\<not> Poller_hasChannel l p s'" and "errs s' = errs s"
    and "loops s' = (loops s)(l := (loops s l)\<lparr>el_poller := (el_poller (loops s l))\<lparr>pl_channels :=
      (pl_channels (el_poller (loops s l)))(ch_fd (chan s p) := None)\<rparr>\<rparr>)"
proof -
  note rm = remove_registry [OF ct reg, folded s'_def]
  have "ch_loop (chan s p) = l" using reg(2) by (simp add: registrable_def)
  then show lo: "loops s' = (loops s)(l := (loops s l)\<lparr>el_poller := (el_poller (loops s l))\<lparr>pl_channels :=
      (pl_channels (el_poller (loops s l)))(ch_fd (chan s p) := None)\<rparr>\<rparr>)"
    by (simp add: s'_def Channel_remove_def EventLoop_removeChannel_def removeChannel_loops)
  show "interest (kern s') (pl_epollfd (el_poller (loops s l))) (ch_fd (chan s p)) = None"
    using rm(1) by (simp add: registry_ok_def watched_def lo)
  show "\<not> Poller_hasChannel l p s'" "errs s' = errs s" using rm(4,2) by simp_all
qed

text \<open>Running the queued \<^verbatim>\<open>connectDestroyed\<close> of a connection that nothing else owns.\<close>

lemma destroy_spec:
  assumes pend: "el_pendingFunctors (loops s l) = [Bind_connectDestroyed c]"
    and st: "tc_state (conns s c) \<noteq> kConnected" and own: "refs s c = 1"
    and reg: "registry_ok interest l s" "registrable l (ConnChannel c) s" and ct: "epoll_ctl_contract os interest"
  shows "\<exists>s' k. EventLoop_doPendingFunctors os (exec_task os app) l s = Inr s' \<and> refs s' c = 0 \<and>
    kern s' = sys_close os (ch_fd (chan s (ConnChannel c))) k \<and>
    interest k (pl_epollfd (el_poller (loops s l))) (ch_fd (chan s (ConnChannel c))) = None \<and>
    \<not> Poller_hasChannel l (ConnChannel c) s' \<and> el_pendingFunctors (loops s' l) = [] \<and>
    sv_connections s' = sv_connections s \<and> errs s' = errs s"
proof -
  let ?p = "ConnChannel c" and ?ep = "pl_epollfd (el_poller (loops s l))"
  let ?s1 = "upd_loop l (\<lambda>e. e\<lparr>el_callingPendingFunctors := True, el_pendingFunctors := []\<rparr>) s"
  have reg1: "registry_ok interest l ?s1" "registrable l ?p ?s1"
    using reg by (simp_all add: registry_ok_def map_ok_def registrable_def)
  let ?s2 = "Channel_remove os ?p ?s1"
  note rm = remove_unwatched [OF ct reg1]
  have none: "interest (kern ?s2) ?ep (ch_fd (chan s ?p)) = None" using rm(1) by simp
  let ?s3 = "upd_loop l (\<lambda>e. e\<lparr>el_callingPendingFunctors := False\<rparr>) ?s2"
  let ?s' = "release os c ?s3"
  have "EventLoop_doPendingFunctors os (exec_task os app) l s = Inr ?s'"
    using pend st by (simp add: EventLoop_doPendingFunctors_def Let_def TcpConnection_connectDestroyed_def release_task_def)
  moreover have "kern ?s' = sys_close os (ch_fd (chan s ?p)) (kern ?s2)"
    using own by (simp add: release_def Let_def TcpConnection_dtor_def Socket_dtor_def)
  moreover have "refs ?s' c = 0" "sv_connections ?s' = sv_connections s" "errs ?s' = errs s"
    using own rm(3) by simp_all
  moreover have "\<not> Poller_hasChannel l ?p ?s'" "el_pendingFunctors (loops ?s' l) = []"
    using rm(2) by (simp_all add: Poller_hasChannel_def rm(4))
  ultimately show ?thesis using none by (intro exI [of _ ?s'] exI [of _ "kern ?s2"]) blast
qed

text \<open>
  C8: The end of a connection, on the loop that also runs the server. When the peer closes (a read of
  length 0, or a hang-up) \<^verbatim>\<open>handleClose\<close>, called while \<^verbatim>\<open>handleEvent\<close> holds its guard on a connection
  that only the server's map owns, returns with the connection still alive and out of the map;
  the functors of the same iteration then take its channel out of the poller and, the kernel no
  longer watching the descriptor, drop the last owner, which closes the descriptor.
\<close>

theorem peer_close_destroys_connection:
  assumes "quiet_connection usr" and "refs s c = 1" and "tc_connectionCallback (conns s c) \<noteq> None"
    and "tc_closeCallback (conns s c) = Some Bind_TcpServer_removeConnection"
    and "sv_connections s (tc_name (conns s c)) = Some c"
    and "tc_loop (conns s c) = sv_loop s" and "EventLoop_isInLoopThread (sv_loop s) s"
    and "\<not> el_callingPendingFunctors (loops s (sv_loop s))" and "el_pendingFunctors (loops s (sv_loop s)) = []"
    and "registry_ok interest (sv_loop s) s" and "registrable (sv_loop s) (ConnChannel c) s"
    and "epoll_ctl_contract os interest"
  shows "\<exists>s1 s2 k. TcpConnection_handleClose os (server_app os usr) c (retain c s) = Inr s1 \<and>
    refs s1 c = 2 \<and> sv_connections s1 = (sv_connections s)(tc_name (conns s c) := None) \<and>
    EventLoop_doPendingFunctors os (exec_task os (server_app os usr)) (sv_loop s) (release os c s1) = Inr s2 \<and>
    refs s2 c = 0 \<and> \<not> Poller_hasChannel (sv_loop s) (ConnChannel c) s2 \<and>
    kern s2 = sys_close os (ch_fd (chan s (ConnChannel c))) k \<and>
    interest k (pl_epollfd (el_poller (loops s (sv_loop s)))) (ch_fd (chan s (ConnChannel c))) = None \<and>
    errs s2 = errs s"
proof -
  let ?l = "sv_loop s" and ?p = "ConnChannel c"
  let ?s0 = "retain c s"
  let ?sd = "TcpConnection_setState c kDisconnected ?s0"
  let ?sa = "Channel_disbaleAll os ?p ?sd"
  have fd: "registry_ok interest ?l ?sd" "registrable ?l ?p ?sd"
    using assms(10,11) by (simp_all add: TcpConnection_setState_def registry_ok_def map_ok_def registrable_def)
  note dis = change_interest_registry [OF assms(12) fd, of "\<lambda>e. e AND NOT kNoneEvent", folded Channel_disbaleAll_def]
  have fr: "conns ?sa = (conns s)(c := (conns s c)\<lparr>tc_state := kDisconnected\<rparr>)" "refs ?sa = (refs s)(c := 2)"
      "sv_connections ?sa = sv_connections s" "cur_tid ?sa = cur_tid s"
      "\<And>x. el_threadId (loops ?sa x) = el_threadId (loops s x)"
      "\<And>x. el_callingPendingFunctors (loops ?sa x) = el_callingPendingFunctors (loops s x)"
      "\<And>x. el_pendingFunctors (loops ?sa x) = el_pendingFunctors (loops s x)"
      "ch_fd (chan ?sa ?p) = ch_fd (chan s ?p)"
    using assms(2) by (simp_all add: TcpConnection_setState_def Channel_disbaleAll_def numeral_2_eq_2)
  have ep: "pl_epollfd (el_poller (loops ?sa ?l)) = pl_epollfd (el_poller (loops s ?l))"
    by (simp add: Channel_disbaleAll_def Channel_update_def EventLoop_updateChannel_def updateChannel_loops
        TcpConnection_setState_def)
  let ?sb = "TcpServer_removeConnectionInLoop os c (retain c ?sa)"
  let ?s1 = "release os c ?sb" and ?s2 = "release os c (release os c ?sb)"
  have pre: "sv_connections (retain c ?sa) (tc_name (conns (retain c ?sa) c)) = Some c" "2 \<le> refs (retain c ?sa) c"
      "EventLoop_isInLoopThread (tc_loop (conns (retain c ?sa) c)) (retain c ?sa)"
      "\<not> el_callingPendingFunctors (loops (retain c ?sa) (tc_loop (conns (retain c ?sa) c)))"
    using assms fr by (simp_all add: EventLoop_isInLoopThread_def)
  note rm = removeConnectionInLoop_spec [OF pre, of os]
  have close: "TcpConnection_handleClose os (server_app os usr) c ?s0 = Inr ?s1"
    by (rule handleClose_quiet) (use assms in \<open>simp_all add: EventLoop_isInLoopThread_def\<close>)
  have cnt: "refs ?sb c = 3" "refs ?s1 c = 2" using rm(4) fr(2) by simp_all
  have k2: "kern ?s2 = kern ?sa" using rm(1) cnt by (simp add: release_kern)
  have s2: "chan ?s2 = chan ?sa" "tc_state (conns ?s2 c) \<noteq> kConnected" "refs ?s2 c = 1"
      "el_pendingFunctors (loops ?s2 ?l) = [Bind_connectDestroyed c]" "errs ?s2 = errs s"
      "el_poller (loops ?s2 ?l) = el_poller (loops ?sa ?l)"
    using rm(2,3,5) cnt fr assms(6,9) dis(2) removeConnectionInLoop_errs [OF pre, of os]
    by (simp_all add: TcpConnection_setState_def)
  have "registry_ok interest ?l ?s2"
    by (rule iffD2 [OF registry_ok_cong dis(1)]) (simp_all only: s2 k2)
  moreover have "registrable ?l (ConnChannel c) ?s2"
    using dis(5) unfolding registrable_def s2 .
  ultimately obtain s' k where "EventLoop_doPendingFunctors os (exec_task os (server_app os usr)) ?l ?s2 = Inr s'"
      "refs s' c = 0" "kern s' = sys_close os (ch_fd (chan s ?p)) k"
      "interest k (pl_epollfd (el_poller (loops s ?l))) (ch_fd (chan s ?p)) = None"
      "\<not> Poller_hasChannel ?l ?p s'" "errs s' = errs s"
    using destroy_spec [OF s2(4,2,3) _ _ assms(12), where app = "server_app os usr"] unfolding s2 ep fr by blast
  moreover have "sv_connections ?s1 = (sv_connections s)(tc_name (conns s c) := None)"
    using rm(6) fr by simp
  ultimately show ?thesis
    using close cnt(2) by (intro exI [of _ ?s1] exI [of _ s'] exI [of _ k]) blast
qed

text \<open>The server with connection 2 in its map, watched for input by loop 0.\<close>

definition sim_connected :: "sim server" where
  "sim_connected = Channel_enableReading sim_os (ConnChannel 2)
     (sim_server\<lparr>conns := (\<lambda>_. sim_conn\<lparr>tc_closeCallback := Some Bind_TcpServer_removeConnection\<rparr>),
        sv_connections := [tc_name sim_conn \<mapsto> 2]\<rparr>)"

lemma sim_server_registry: "registry_ok sim_interest l sim_server" "registrable 0 (ConnChannel c) sim_server"
  using sim_acc_registry [of l]
  by (simp_all add: registry_ok_def map_ok_def registrable_def Channel_ctor_def sim_reactor_def)

lemma sim_connected_registry:
  "registry_ok sim_interest 0 sim_connected" "registrable 0 (ConnChannel 2) sim_connected"
proof -
  let ?s = "sim_server\<lparr>conns := (\<lambda>_. sim_conn\<lparr>tc_closeCallback := Some Bind_TcpServer_removeConnection\<rparr>),
        sv_connections := [tc_name sim_conn \<mapsto> 2]\<rparr>"
  have "registry_ok sim_interest 0 ?s" "registrable 0 (ConnChannel 2) ?s"
    using sim_server_registry [of 0] sim_server_registry(2) [of 2]
    by (simp_all add: registry_ok_def map_ok_def registrable_def)
  from change_interest_registry(1,5) [OF sim_epoll_ctl_contract this]
  show "registry_ok sim_interest 0 sim_connected" "registrable 0 (ConnChannel 2) sim_connected"
    by (simp_all add: sim_connected_def Channel_enableReading_def)
qed

lemma sim_connected_sel [simp]:
  "refs sim_connected c = 1" "conns sim_connected = (\<lambda>_. sim_conn\<lparr>tc_closeCallback := Some Bind_TcpServer_removeConnection\<rparr>)"
  "sv_connections sim_connected = [tc_name sim_conn \<mapsto> 2]" "sv_loop sim_connected = 0" "cur_tid sim_connected = 100"
  "el_threadId (loops sim_connected l) = 100" "el_callingPendingFunctors (loops sim_connected l) = False"
  "el_pendingFunctors (loops sim_connected l) = []" "ch_fd (chan sim_connected (ConnChannel c)) = 7"
  by (simp_all add: sim_connected_def Channel_enableReading_def sim_reactor_def Channel_ctor_def)

theorem peer_close_destroys_connection_witness:
  "\<exists>s1 s2 k. TcpConnection_handleClose sim_os (server_app sim_os quiet_app) 2 (retain 2 sim_connected) = Inr s1 \<and>
     refs s1 2 = 2 \<and> sv_connections s1 = Map.empty \<and>
     EventLoop_doPendingFunctors sim_os (exec_task sim_os (server_app sim_os quiet_app)) 0 (release sim_os 2 s1) = Inr s2 \<and>
     refs s2 2 = 0 \<and> kern s2 = sys_close sim_os 7 k"
proof -
  have "quiet_connection quiet_app" by (simp add: quiet_connection_def quiet_app_def)
  from peer_close_destroys_connection [OF this, of sim_connected 2 sim_interest sim_os]
  show ?thesis
    by (simp add: EventLoop_isInLoopThread_def sim_connected_registry sim_epoll_ctl_contract sim_conn_def) blast
qed

section \<open>Closing on another loop\<close>

lemma wakeup_interest:
  "quiet_calls os interest \<Longrightarrow> interest (kern (EventLoop_wakeup os l s)) = interest (kern s)"
  by (simp add: quiet_calls_def EventLoop_wakeup_def Let_def split: prod.split) (metis snd_conv)

lemma queueInLoop_interest:
  "quiet_calls os interest \<Longrightarrow> interest (kern (EventLoop_queueInLoop os l t s)) = interest (kern s)"
  by (simp add: EventLoop_queueInLoop_def Let_def wakeup_interest)

text \<open>\<^verbatim>\<open>handleClose\<close> when the server's loop belongs to another thread: the removal is only queued there.\<close>

lemma handleClose_remote:
  assumes "quiet_connection usr" and live: "refs s c \<noteq> 0" and "tc_connectionCallback (conns s c) \<noteq> None"
    and "tc_closeCallback (conns s c) = Some Bind_TcpServer_removeConnection"
    and far: "\<not> EventLoop_isInLoopThread (sv_loop s) s" and other: "sv_loop s \<noteq> l"
    and reg: "registry_ok interest l s" "registrable l (ConnChannel c) s"
    and on: "ch_index (chan s (ConnChannel c)) = kAdded" "ch_events (chan s (ConnChannel c)) \<noteq> 0"
    and ct: "epoll_ctl_contract os interest" "quiet_calls os interest"
  shows "\<exists>s1. TcpConnection_handleClose os (server_app os usr) c s = Inr s1 \<and> refs s1 c = Suc (refs s c) \<and>
    conns s1 = (conns s)(c := (conns s c)\<lparr>tc_state := kDisconnected\<rparr>) \<and> sv_loop s1 = sv_loop s \<and>
    \<not> EventLoop_isInLoopThread (sv_loop s1) s1 \<and> registry_ok interest l s1 \<and> registrable l (ConnChannel c) s1 \<and>
    chan s1 = chan s \<and> el_poller (loops s1 l) = el_poller (loops s l) \<and>
    el_pendingFunctors (loops s1 (sv_loop s)) = el_pendingFunctors (loops s (sv_loop s)) @ [Bind_removeConnectionInLoop c]"
proof -
  let ?p = "ConnChannel c"
  let ?sd = "TcpConnection_setState c kDisconnected s"
  let ?sa = "Channel_disbaleAll os ?p ?sd"
  have "registry_ok interest l ?sd" "registrable l ?p ?sd"
    using reg by (simp_all add: TcpConnection_setState_def registry_ok_def map_ok_def registrable_def)
  note dis = change_interest_registry [OF ct(1) this, of "\<lambda>e. e AND NOT kNoneEvent", folded Channel_disbaleAll_def]
  have lp: "ch_loop (chan s ?p) = l" using reg(2) by (simp add: registrable_def)
  have same: "(chan s ?p)\<lparr>ch_index := kAdded\<rparr> = chan s ?p" using on(1) by (cases "chan s ?p") simp
  have fr: "chan ?sa = chan s" "loops ?sa = loops s"
    using on lp by (simp_all add: same fun_upd_idem TcpConnection_setState_def Channel_disbaleAll_def Channel_update_def
        EventLoop_updateChannel_def updateChannel_chan updateChannel_loops Channel_isNoneEvent_def kNoneEvent_def)
  have fr2: "conns ?sa = (conns s)(c := (conns s c)\<lparr>tc_state := kDisconnected\<rparr>)" "refs ?sa = refs s"
      "sv_loop ?sa = sv_loop s" "cur_tid ?sa = cur_tid s"
    by (simp_all add: TcpConnection_setState_def Channel_disbaleAll_def)
  let ?q = "EventLoop_queueInLoop os (sv_loop s) (Bind_removeConnectionInLoop c) (retain c ?sa)"
  let ?s1 = "release os c ?q"
  have run: "TcpConnection_handleClose os (server_app os usr) c s = Inr ?s1"
    using assms(1,3,4) live far fr fr2
    by (auto simp: TcpConnection_handleClose_def with_shared_def call_fn_def server_app_def quiet_connection_def
        TcpServer_removeConnection_def EventLoop_runInLoop_def EventLoop_isInLoopThread_def)
  have cnt: "refs ?q c = Suc (Suc (refs s c))" using fr2 by (simp add: retain_task_def)
  have s1: "chan ?s1 = chan ?sa" "el_poller (loops ?s1 l) = el_poller (loops ?sa l)" using other fr by simp_all
  have "interest (kern ?s1) = interest (kern ?sa)"
    using cnt ct(2) by (simp add: release_kern queueInLoop_interest)
  then have reg1: "registry_ok interest l ?s1" "registrable l ?p ?s1"
    using dis(1,5) unfolding registry_ok_def map_ok_def registrable_def s1 by simp_all
  show ?thesis
    using run cnt fr fr2 far reg1 s1
    by (intro exI [of _ ?s1]) (simp add: EventLoop_isInLoopThread_def)
qed



section \<open>Destroying the server\<close>

lemma release_retain: "refs s c \<noteq> 0 \<Longrightarrow> release os c (retain c s) = s"
  by (simp add: release_def retain_def Let_def)

lemma connectDestroyed_connected:
  assumes "quiet_connection usr" and "refs s c \<noteq> 0" and "tc_connectionCallback (conns s c) \<noteq> None"
    and "tc_state (conns s c) = kConnected"
  shows "TcpConnection_connectDestroyed os (server_app os usr) c s =
    Inr (Channel_remove os (ConnChannel c)
      (Channel_disbaleAll os (ConnChannel c) (TcpConnection_setState c kDisconnected s)))"
  using assms
  by (auto simp: TcpConnection_connectDestroyed_def with_shared_def call_fn_def server_app_def quiet_connection_def
      TcpConnection_setState_def Channel_disbaleAll_def release_retain)



end
