(* ===== verification/Streams.thy ===== *)
theory Streams
  imports TcpServer "HOL-Library.Sublist"
begin

text \<open>
  What a connection has received, has buffered and has sent, as one sequence. The relation
  \<open>in_order\<close> says that nothing is duplicated, invented or reordered between the bytes taken from a
  descriptor and the bytes put on it, and that nothing is missing if writes take all they are given.
\<close>

section \<open>Observed streams\<close>

text \<open>The streams of each descriptor, and whether a write may take less than it is given.\<close>

record 'k streams =
  st_wire :: "'k \<Rightarrow> fd \<Rightarrow> byte list"
  st_recv :: "'k \<Rightarrow> fd \<Rightarrow> byte list"
  st_short :: bool

definition streams_ok :: "'k os \<Rightarrow> 'k streams \<Rightarrow> bool" where
  "streams_ok os st \<longleftrightarrow> stream_contract os (st_wire st) (st_recv st) \<and> (\<not> st_short st \<longrightarrow> full_writes os)"

text \<open>The streams outside a set of descriptors are left alone.\<close>

definition kept :: "'k streams \<Rightarrow> fd set \<Rightarrow> 'k \<Rightarrow> 'k \<Rightarrow> bool" where
  "kept st G k k' \<longleftrightarrow> (\<forall>f. f \<notin> G \<longrightarrow> st_wire st k' f = st_wire st k f \<and> st_recv st k' f = st_recv st k f)"

lemma kept_refl [simp]: "kept st G k k"
  by (simp add: kept_def)

lemma kept_trans: "kept st G k k1 \<Longrightarrow> kept st G k1 k2 \<Longrightarrow> kept st G k k2"
  by (simp add: kept_def)

lemma kept_mono: "kept st G k k' \<Longrightarrow> G \<subseteq> H \<Longrightarrow> kept st H k k'"
  by (auto simp: kept_def)

lemma streams_quiet:
  assumes "streams_ok os st"
  shows "sys_time os k = (t, k') \<Longrightarrow> kept st {} k k'" "sys_shutdown_wr os f k = (t, k') \<Longrightarrow> kept st {} k k'"
    "sys_so_error os f k = (e, k') \<Longrightarrow> kept st {} k k'" "sys_listen os f n k = (t, k') \<Longrightarrow> kept st {} k k'"
    "sys_getsockname os f k = (g, k') \<Longrightarrow> kept st {} k k'" "kept st {} k (sys_setsockopt os f opt x k)"
    "sys_epoll_ctl os ep opn f ev k = (r, k') \<Longrightarrow> kept st {} k k'" "sys_epoll_wait os ep m tm k = (w, k') \<Longrightarrow> kept st {} k k'"
  using assms unfolding streams_ok_def stream_contract_def kept_def Let_def by (metis prod.inject snd_conv)+

lemma streams_local:
  assumes "streams_ok os st"
  shows "sys_read os f n k = (r, k') \<Longrightarrow> kept st {f} k k'" "sys_readv os f lens k = (rd, k') \<Longrightarrow> kept st {f} k k'"
    "sys_write os f bs k = (r, k') \<Longrightarrow> kept st {f} k k'" "kept st {f} k (sys_close os f k)"
proof -
  have c: "stream_contract os (st_wire st) (st_recv st)" using assms by (simp add: streams_ok_def)
  show "sys_read os f n k = (r, k') \<Longrightarrow> kept st {f} k k'" "kept st {f} k (sys_close os f k)"
    using c unfolding stream_contract_def kept_def Let_def by (metis prod.inject singletonI snd_conv)+
  show "kept st {f} k k'" if r: "sys_readv os f lens k = (rd, k')"
  proof -
    obtain n e d where "rd = (n, e, d)" by (metis prod_cases3)
    with c r have "st_wire st k' = st_wire st k \<and>
        st_recv st k' = (if 0 \<le> n then (st_recv st k)(f := st_recv st k f @ d) else st_recv st k)"
      unfolding stream_contract_def by blast
    then show ?thesis by (simp add: kept_def)
  qed
  show "kept st {f} k k'" if r: "sys_write os f bs k = (r, k')"
  proof -
    obtain n e where w: "sys_write os f bs k = ((n, e), k')" using r by (metis surj_pair)
    have "write_contract os (st_wire st)" using c by (simp add: stream_contract_def)
    with w have "if 0 \<le> n then st_wire st k' = (st_wire st k)(f := st_wire st k f @ take (nat n) bs) else st_wire st k' = st_wire st k"
      unfolding write_contract_def by blast
    moreover have "st_recv st k' = st_recv st k" using c w unfolding stream_contract_def by (metis snd_conv)
    ultimately show ?thesis by (simp add: kept_def split: if_splits)
  qed
qed

lemma streams_accept:
  assumes "streams_ok os st" and "sys_accept4 os f k = ((g, e, a), k')"
  shows "kept st {h. h = g \<and> 0 \<le> g} k k'" and "0 \<le> g \<Longrightarrow> st_wire st k' g = [] \<and> st_recv st k' g = []"
proof -
  have "st_wire st k' = (if 0 \<le> g then (st_wire st k)(g := []) else st_wire st k) \<and>
      st_recv st k' = (if 0 \<le> g then (st_recv st k)(g := []) else st_recv st k)"
    using assms unfolding streams_ok_def stream_contract_def by blast
  then show "kept st {h. h = g \<and> 0 \<le> g} k k'" and "0 \<le> g \<Longrightarrow> st_wire st k' g = [] \<and> st_recv st k' g = []"
    by (simp_all add: kept_def)
qed

lemma streams_read:
  assumes "streams_ok os st" and "sys_readv os f lens k = ((n, e, d), k')"
  shows "st_wire st k' f = st_wire st k f" and "st_recv st k' f = st_recv st k f @ (if 0 \<le> n then d else [])"
proof -
  have "st_wire st k' = st_wire st k \<and> st_recv st k' = (if 0 \<le> n then (st_recv st k)(f := st_recv st k f @ d) else st_recv st k)"
    using assms unfolding streams_ok_def stream_contract_def by blast
  then show "st_wire st k' f = st_wire st k f" and "st_recv st k' f = st_recv st k f @ (if 0 \<le> n then d else [])" by simp_all
qed

lemma streams_write:
  assumes "streams_ok os st" and w: "sys_write os f bs k = ((n, e), k')"
  shows "st_wire st k' f = st_wire st k f @ take (nat n) bs" and "st_recv st k' f = st_recv st k f"
    and "\<not> st_short st \<Longrightarrow> n = int (length bs)"
proof -
  have c: "write_contract os (st_wire st)" "\<forall>f bs k. st_recv st (snd (sys_write os f bs k)) = st_recv st k"
    using assms(1) by (simp_all add: streams_ok_def stream_contract_def)
  have "if 0 \<le> n then st_wire st k' = (st_wire st k)(f := st_wire st k f @ take (nat n) bs) else st_wire st k' = st_wire st k"
    using c(1) w unfolding write_contract_def by blast
  then show "st_wire st k' f = st_wire st k f @ take (nat n) bs" by (simp split: if_splits)
  show "st_recv st k' f = st_recv st k f" using c(2) w by (metis snd_conv)
  show "\<not> st_short st \<Longrightarrow> n = int (length bs)" using assms by (auto simp: streams_ok_def full_writes_def) (metis fst_conv)
qed

section \<open>One sequence\<close>

definition in_order :: "bool \<Rightarrow> bool \<Rightarrow> byte list \<Rightarrow> byte list \<Rightarrow> byte list \<Rightarrow> byte list \<Rightarrow> bool" where
  "in_order short writing sent out rest rcvd \<longleftrightarrow> subseq (sent @ out @ rest) rcvd \<and>
     (\<not> short \<longrightarrow> out = [] \<and> \<not> writing \<and> sent @ rest = rcvd)"

lemma in_order_init: "\<not> wr \<Longrightarrow> in_order short wr [] [] [] []"
  by (simp add: in_order_def)

lemma in_order_read: "in_order short wr s out rest r \<Longrightarrow> in_order short wr s out (rest @ d) (r @ d)"
  by (auto simp: in_order_def simp flip: append_assoc intro: list_emb_append_mono)

lemma in_order_write_rest:
  "in_order short wr s [] (m @ i) r \<Longrightarrow> in_order short wr (s @ take n m) [] (drop n m @ i) r"
proof -
  have *: "take n m @ drop n m @ i = m @ i" by (metis append.assoc append_take_drop_id)
  show "in_order short wr s [] (m @ i) r \<Longrightarrow> in_order short wr (s @ take n m) [] (drop n m @ i) r"
    unfolding in_order_def append_assoc append_Nil * by auto
qed

lemma in_order_write_out: "in_order short wr s out rest r \<Longrightarrow> in_order short wr (s @ take n out) (drop n out) rest r"
proof -
  have *: "take n out @ drop n out @ rest = out @ rest" by (metis append.assoc append_take_drop_id)
  show "in_order short wr s out rest r \<Longrightarrow> in_order short wr (s @ take n out) (drop n out) rest r"
    unfolding in_order_def append_assoc * by auto
qed

lemma in_order_buffer: "in_order True wr s out (m @ i) r \<Longrightarrow> in_order True wr' s (out @ m) i r"
  by (simp add: in_order_def)

lemma in_order_drop: "in_order True wr s out (m @ i) r \<Longrightarrow> in_order True wr s out i r"
proof -
  have "subseq (s @ out @ i) (s @ out @ m @ i)" by (intro list_emb_append_mono) auto
  then show "in_order True wr s out (m @ i) r \<Longrightarrow> in_order True wr s out i r"
    by (auto simp: in_order_def elim: subseq_order.order_trans)
qed

lemma in_order_mask: "in_order short wr s out rest r \<Longrightarrow> wr' \<longrightarrow> wr \<or> short \<Longrightarrow> in_order short wr' s out rest r"
  by (auto simp: in_order_def)

section \<open>The connections of a server\<close>

text \<open>The members that the loops of a server share out among them, as a thread finds them when it starts a step.\<close>

record snapshot =
  sn_conns :: "conn_ptr \<Rightarrow> tcp_connection"
  sn_chan :: "chan_ptr \<Rightarrow> channel"
  sn_loops :: "loop_ptr \<Rightarrow> eventloop"
  sn_acceptor :: acceptor
  sn_connections :: "string \<rightharpoonup> conn_ptr"
  sn_nextConnId :: int
  sn_threadPool :: thread_pool
  sn_next_conn :: conn_ptr

text \<open>What is observed: the kernel, the loops, the thread of each, the thread that runs, the connection whose events it handles,
  the connections a loop still has in its list of active channels, and the streams, if any. Of the connection in focus, a
  message that is being handled is in the input buffer or, once the message callback has taken it out, in its hand. Last come
  the counters of the loops' \<^verbatim>\<open>eventfd\<close>s, if they are observed, the loops that have yet to take their queue in the
  iteration they are in, the loop of the server, and the state in which the running thread started, if it is remembered.\<close>

record 'k view =
  v_interest :: "'k \<Rightarrow> fd \<Rightarrow> fd \<rightharpoonup> epoll_event"
  v_open :: "'k \<Rightarrow> fd set"
  v_loops :: "loop_ptr set"
  v_tid :: "loop_ptr \<Rightarrow> int"
  v_me :: int
  v_focus :: "conn_ptr option"
  v_pin :: "conn_ptr \<rightharpoonup> loop_ptr"
  v_streams :: "'k streams option"
  v_hand :: "byte list option"
  v_wake :: "('k \<Rightarrow> fd \<Rightarrow> nat) option"
  v_busy :: "loop_ptr set"
  v_main :: loop_ptr
  v_start :: "snapshot option"

definition may_lose :: "'k view \<Rightarrow> bool" where
  "may_lose v \<longleftrightarrow> (\<forall>st. v_streams v = Some st \<longrightarrow> st_short st)"

text \<open>Between two messages the input buffer is empty.\<close>

definition conn_flow :: "'k view \<Rightarrow> byte list option \<Rightarrow> conn_ptr \<Rightarrow> ('k, 'z) net_scheme \<Rightarrow> bool" where
  "conn_flow v h c s \<longleftrightarrow> (let tc = conns s c; ch = chan s (ConnChannel c); i = contents (tc_inputBuffer tc) in
     \<forall>st. v_streams v = Some st \<longrightarrow> in_order (st_short st) (Channel_isWriting ch) (st_wire st (kern s) (ch_fd ch))
         (contents (tc_outputBuffer tc)) (case h of None \<Rightarrow> [] | Some m \<Rightarrow> m @ i) (st_recv st (kern s) (ch_fd ch)) \<and>
       (h = None \<longrightarrow> i = []))"

definition hand_of :: "'k view \<Rightarrow> conn_ptr \<Rightarrow> byte list option" where
  "hand_of v c = (if v_focus v = Some c then v_hand v else None)"

definition flows :: "'k view \<Rightarrow> ('k, 'z) server_scheme \<Rightarrow> bool" where
  "flows v s \<longleftrightarrow> (v_focus v = None \<longrightarrow> v_hand v = None) \<and>
     (\<forall>c < next_conn s. refs s c \<noteq> 0 \<longrightarrow> conn_flow v (hand_of v c) c s)"

lemma conn_flow_view [simp]:
  "conn_flow (v\<lparr>v_hand := h'\<rparr>) h c s = conn_flow v h c s" "conn_flow (v\<lparr>v_focus := f\<rparr>) h c s = conn_flow v h c s"
  "conn_flow (v\<lparr>v_me := t\<rparr>) h c s = conn_flow v h c s" "conn_flow (v\<lparr>v_pin := m\<rparr>) h c s = conn_flow v h c s"
  "conn_flow (v\<lparr>v_wake := wk\<rparr>) h c s = conn_flow v h c s" "conn_flow (v\<lparr>v_busy := B\<rparr>) h c s = conn_flow v h c s"
  "conn_flow (v\<lparr>v_start := sn\<rparr>) h c s = conn_flow v h c s"
  by (simp_all add: conn_flow_def)

lemma conn_flow_cong:
  assumes "conn_flow v h c s" and "tc_inputBuffer (conns s' c) = tc_inputBuffer (conns s c)"
    and "tc_outputBuffer (conns s' c) = tc_outputBuffer (conns s c)"
    and "ch_fd (chan s' (ConnChannel c)) = ch_fd (chan s (ConnChannel c))"
    and "Channel_isWriting (chan s' (ConnChannel c)) \<Longrightarrow> Channel_isWriting (chan s (ConnChannel c)) \<or> may_lose v"
    and "\<And>st. v_streams v = Some st \<Longrightarrow> kept st G (kern s) (kern s')" and "ch_fd (chan s (ConnChannel c)) \<notin> G"
  shows "conn_flow v h c s'"
proof -
  have "st_wire st (kern s') (ch_fd (chan s (ConnChannel c))) = st_wire st (kern s) (ch_fd (chan s (ConnChannel c)))"
    "st_recv st (kern s') (ch_fd (chan s (ConnChannel c))) = st_recv st (kern s) (ch_fd (chan s (ConnChannel c)))"
    if "v_streams v = Some st" for st
    using assms(6) [OF that] assms(7) by (simp_all add: kept_def)
  with assms(1,5) show ?thesis
    by (cases h) (auto simp: conn_flow_def Let_def may_lose_def assms(2-4) elim!: in_order_mask)
qed

text \<open>What leaves the streams of the living connections alone.\<close>

lemma flows_cong:
  fixes s s' :: "('k, 'z) server_scheme"
  assumes ok: "flows v s" and n: "next_conn s' = next_conn s"
    and live: "\<And>c. c < next_conn s \<Longrightarrow> refs s' c \<noteq> 0 \<Longrightarrow> refs s c \<noteq> 0"
    and eq: "\<And>c. tc_inputBuffer (conns s' c) = tc_inputBuffer (conns s c)"
      "\<And>c. tc_outputBuffer (conns s' c) = tc_outputBuffer (conns s c)"
      "\<And>c. ch_fd (chan s' (ConnChannel c)) = ch_fd (chan s (ConnChannel c))"
      "\<And>c. Channel_isWriting (chan s' (ConnChannel c)) \<Longrightarrow> Channel_isWriting (chan s (ConnChannel c)) \<or> may_lose v"
    and k: "\<And>st. v_streams v = Some st \<Longrightarrow> kept st G (kern s) (kern s')"
      "\<And>c. c < next_conn s \<Longrightarrow> refs s' c \<noteq> 0 \<Longrightarrow> ch_fd (chan s (ConnChannel c)) \<notin> G"
  shows "flows v s'"
  unfolding flows_def n
proof (intro conjI allI impI)
  fix c assume c: "c < next_conn s" "refs s' c \<noteq> 0"
  with ok live have "conn_flow v (hand_of v c) c s" by (simp add: flows_def)
  then show "conn_flow v (hand_of v c) c s'" by (rule conn_flow_cong [where G = G]) (use eq k c in auto)
qed (use ok in \<open>simp add: flows_def\<close>)

lemma flows_eq:
  fixes s s' :: "('k, 'z) server_scheme"
  assumes "next_conn s' = next_conn s" "\<And>c. refs s' c = 0 \<longleftrightarrow> refs s c = 0"
    and "\<And>c. tc_inputBuffer (conns s' c) = tc_inputBuffer (conns s c)"
      "\<And>c. tc_outputBuffer (conns s' c) = tc_outputBuffer (conns s c)"
      "\<And>c. ch_fd (chan s' (ConnChannel c)) = ch_fd (chan s (ConnChannel c))"
      "\<And>c. ch_events (chan s' (ConnChannel c)) = ch_events (chan s (ConnChannel c))"
    and k: "\<And>st. v_streams v = Some st \<Longrightarrow> kept st {} (kern s) (kern s')"
  shows "flows v s' = flows v s"
proof
  have sym: "v_streams v = Some st \<Longrightarrow> kept st {} (kern s') (kern s)" for st using k by (auto simp: kept_def)
  show "flows v s" if "flows v s'" by (rule flows_cong [OF that, where G = "{}"]) (simp_all add: assms sym Channel_isWriting_def)
  show "flows v s'" if "flows v s" by (rule flows_cong [OF that, where G = "{}"]) (simp_all add: assms Channel_isWriting_def)
qed

lemma flows_view [simp]:
  "flows (v\<lparr>v_me := t\<rparr>) s = flows v s" "flows (v\<lparr>v_pin := m\<rparr>) s = flows v s"
  "flows (v\<lparr>v_wake := wk\<rparr>) s = flows v s" "flows (v\<lparr>v_busy := B\<rparr>) s = flows v s"
  "flows (v\<lparr>v_start := sn\<rparr>) s = flows v s"
  by (simp_all add: flows_def hand_of_def)

lemma hand_of_simps [simp]:
  "v_focus v = Some c \<Longrightarrow> hand_of v c = v_hand v" "v_focus v = Some c \<Longrightarrow> d \<noteq> c \<Longrightarrow> hand_of v d = None"
  "v_focus v = None \<Longrightarrow> hand_of v d = None" "v_hand v = None \<Longrightarrow> hand_of v d = None"
  by (simp_all add: hand_of_def)

lemma flows_hand: "flows v s \<Longrightarrow> v_focus v = Some c \<Longrightarrow> conn_flow v h c s \<Longrightarrow> flows (v\<lparr>v_hand := h\<rparr>) s"
  unfolding flows_def by (metis (no_types, lifting) conn_flow_view(1) hand_of_simps(1,2) option.distinct(1) view.select_convs(6,9) view.surjective view.update_convs(9))

lemma flows_focus: "flows v s \<Longrightarrow> v_hand v = None \<Longrightarrow> flows (v\<lparr>v_focus := f\<rparr>) s"
  by (simp add: flows_def)

text \<open>The connection in focus moves bytes from one place to the next; the others wait.\<close>

lemma flows_step:
  fixes s s' :: "('k, 'z) server_scheme"
  assumes ok: "flows v s" and c: "v_focus v = Some c" and n: "next_conn s' = next_conn s" "refs s' = refs s"
    and eq: "\<And>d. d \<noteq> c \<Longrightarrow> conns s' d = conns s d" "\<And>d. chan s' (ConnChannel d) = chan s (ConnChannel d)"
    and k: "\<And>st. v_streams v = Some st \<Longrightarrow> kept st {ch_fd (chan s (ConnChannel c))} (kern s) (kern s')"
      "\<And>d. d < next_conn s \<Longrightarrow> refs s d \<noteq> 0 \<Longrightarrow> d \<noteq> c \<Longrightarrow> ch_fd (chan s (ConnChannel d)) \<noteq> ch_fd (chan s (ConnChannel c))"
    and fl: "conn_flow v h c s'"
  shows "flows (v\<lparr>v_hand := h\<rparr>) s'"
  unfolding flows_def n
proof (intro conjI allI impI)
  fix d assume d: "d < next_conn s" "refs s d \<noteq> 0"
  have "conn_flow v (hand_of (v\<lparr>v_hand := h\<rparr>) d) d s'"
  proof (cases "d = c")
    case False
    then have "hand_of (v\<lparr>v_hand := h\<rparr>) d = hand_of v d" using c by (simp add: hand_of_def)
    moreover have "conn_flow v (hand_of v d) d s" using ok d by (simp add: flows_def)
    ultimately show ?thesis using k d False eq by (auto intro: conn_flow_cong)
  qed (use c fl in \<open>simp add: hand_of_def\<close>)
  then show "conn_flow (v\<lparr>v_hand := h\<rparr>) (hand_of (v\<lparr>v_hand := h\<rparr>) d) d s'" by simp
qed (use c in simp)

text \<open>What the message callback leaves in its hand is lost.\<close>

lemma conn_flow_drop: "may_lose v \<or> m = [] \<Longrightarrow> conn_flow v (Some m) c s \<Longrightarrow> conn_flow v (Some []) c s"
  by (auto simp: conn_flow_def Let_def may_lose_def elim: in_order_drop)

lemma conn_flow_done: "conn_flow v (Some []) c s \<Longrightarrow> contents (tc_inputBuffer (conns s c)) = [] \<Longrightarrow> conn_flow v None c s"
  by (simp add: conn_flow_def Let_def)

lemma conn_flow_begin: "conn_flow v None c s \<Longrightarrow> conn_flow v (Some []) c s"
  by (simp add: conn_flow_def Let_def)

text \<open>Registering and removing channels concern no stream.\<close>

lemma poller_update_kept: "streams_ok os st \<Longrightarrow> kept st {} (kern s) (kern (EpollPoller_update os l opn p s))"
  by (auto simp: EpollPoller_update_def Let_def dest: streams_quiet(7) split: prod.split)

lemma channel_kept:
  fixes s :: "('k, 'z) reactor_scheme"
  assumes "streams_ok os st"
  shows "kept st {} (kern s) (kern (Channel_update os p s))" "kept st {} (kern s) (kern (Channel_remove os p s))"
proof -
  have "kept st {} (kern s) (kern (EpollPoller_update os l opn p t))" if "kern t = kern s" for t :: "('k, 'z) reactor_scheme" and l opn
    using poller_update_kept [OF assms, of t l opn p] that by simp
  then show "kept st {} (kern s) (kern (Channel_update os p s))" "kept st {} (kern s) (kern (Channel_remove os p s))"
    by (simp_all add: Channel_update_def EventLoop_updateChannel_def EpollPoller_updateChannel_def Channel_remove_def
        EventLoop_removeChannel_def EpollPoller_removeChannel_def Let_def)
qed

text \<open>A new mask of a connection's channel asks for writing only if the old one did, or if writes may be short.\<close>

definition keeps_writing :: "'k view \<Rightarrow> (32 word \<Rightarrow> 32 word) \<Rightarrow> bool" where
  "keeps_writing v g \<longleftrightarrow> (\<forall>e. g e AND kWriteEvent \<noteq> 0 \<longrightarrow> e AND kWriteEvent \<noteq> 0 \<or> may_lose v)"

lemma keeps_writing_lossy: "may_lose v \<Longrightarrow> keeps_writing v g"
  by (simp add: keeps_writing_def)

lemma keeps_writing_masks:
  "keeps_writing v (\<lambda>e. e OR kReadEvent)" "keeps_writing v (\<lambda>e. e AND NOT kWriteEvent)" "keeps_writing v (\<lambda>e. e AND NOT kNoneEvent)"
proof -
  have *: "(e OR 3) AND 4 = e AND 4" "e AND NOT 4 AND 4 = 0" for e :: "32 word"
    by (simp_all add: bit.conj_disj_distrib2 and.assoc)
  show "keeps_writing v (\<lambda>e. e OR kReadEvent)" "keeps_writing v (\<lambda>e. e AND NOT kWriteEvent)" "keeps_writing v (\<lambda>e. e AND NOT kNoneEvent)"
    by (simp_all add: keeps_writing_def kReadEvent_eq kWriteEvent_def kNoneEvent_def * and.assoc)
qed

lemma flows_update:
  fixes s :: "('k, 'z) server_scheme" and g :: "32 word \<Rightarrow> 32 word"
  assumes k: "\<And>st. v_streams v = Some st \<Longrightarrow> streams_ok os st" and ok: "flows v s"
    and g: "\<And>c. p = ConnChannel c \<Longrightarrow> keeps_writing v g"
  shows "flows v (Channel_update os p (Channel_set_events g p s))"
proof (rule flows_cong [where G = "{}", OF ok])
  let ?s = "Channel_update os p (Channel_set_events g p s)"
  show "Channel_isWriting (chan ?s (ConnChannel c)) \<Longrightarrow> Channel_isWriting (chan s (ConnChannel c)) \<or> may_lose v" for c
    using g [of c] by (cases "p = ConnChannel c") (auto simp: Channel_isWriting_def keeps_writing_def)
  show "kept st {} (kern s) (kern ?s)" if "v_streams v = Some st" for st
    using channel_kept(1) [OF k [OF that], of "Channel_set_events g p s" p] by simp
qed simp_all

lemma flows_remove:
  fixes s :: "('k, 'z) server_scheme"
  assumes "\<And>st. v_streams v = Some st \<Longrightarrow> streams_ok os st"
  shows "flows v (Channel_remove os p s) = flows v s"
  using channel_kept(2) [OF assms, of _ s p] by (intro flows_eq) simp_all

end
