(* ===== verification/Waking.thy ===== *)
theory Waking
  imports Streams
begin

text \<open>
  No lost wakeup, for all loops of a server at once. A loop that is not in the first part of an iteration and has functors
  in its queue has a positive \<^verbatim>\<open>eventfd\<close> counter, so its next poll does not block. \<open>Wakeup\<close> shows this of one loop and
  its callers, step by step; here the invariant is over the states of a whole server.
\<close>

section \<open>The invariant\<close>

text \<open>A loop that is not busy and has queued functors has been woken.\<close>

definition alerted :: "'k view \<Rightarrow> ('k, 'z) reactor_scheme \<Rightarrow> bool" where
  "alerted v s \<longleftrightarrow> (\<forall>counter. v_wake v = Some counter \<longrightarrow> (\<forall>l \<in> v_loops v. l \<notin> v_busy v \<longrightarrow>
     el_pendingFunctors (loops s l) \<noteq> [] \<longrightarrow> 0 < counter (kern s) (el_wakeupFd (loops s l))))"

text \<open>While a thread runs, a functor that it queues in its own loop wakes that loop if the loop is running its batch, and is
  in the batch to come if the loop is busy.\<close>

definition woken :: "'k view \<Rightarrow> ('k, 'z) reactor_scheme \<Rightarrow> bool" where
  "woken v s \<longleftrightarrow> alerted v s \<and> (v_wake v \<noteq> None \<longrightarrow>
     (\<forall>l \<in> v_loops v. l \<notin> v_busy v \<longrightarrow> v_tid v l = v_me v \<longrightarrow> el_callingPendingFunctors (loops s l)))"

lemma alerted_view [simp]:
  "alerted (v\<lparr>v_focus := f\<rparr>) s = alerted v s" "alerted (v\<lparr>v_pin := m\<rparr>) s = alerted v s" "alerted (v\<lparr>v_hand := h\<rparr>) s = alerted v s"
  "alerted (v\<lparr>v_me := t\<rparr>) s = alerted v s" "alerted (v\<lparr>v_start := sn\<rparr>) s = alerted v s"
  by (simp_all add: alerted_def)

lemma woken_view [simp]:
  "woken (v\<lparr>v_focus := f\<rparr>) s = woken v s" "woken (v\<lparr>v_pin := m\<rparr>) s = woken v s" "woken (v\<lparr>v_hand := h\<rparr>) s = woken v s"
  "woken (v\<lparr>v_start := sn\<rparr>) s = woken v s"
  by (simp_all add: woken_def)

text \<open>The thread of a busy loop may run.\<close>

lemma woken_start:
  assumes "alerted v s" and "v_wake v \<noteq> None \<Longrightarrow> inj_on (v_tid v) (v_loops v)" and "l \<in> v_loops v" and "l \<in> v_busy v"
  shows "woken (v\<lparr>v_me := v_tid v l\<rparr>) s"
  using assms by (auto simp: woken_def dest: inj_onD)

text \<open>It takes the queue of its loop.\<close>

lemma woken_take:
  assumes "woken v s"
  shows "woken (v\<lparr>v_busy := v_busy v - {l}\<rparr>) (upd_loop l (\<lambda>e. e\<lparr>el_callingPendingFunctors := True, el_pendingFunctors := []\<rparr>) s)"
  using assms by (auto simp: woken_def alerted_def)

text \<open>The counters outside a set of descriptors are left alone.\<close>

definition counters_kept :: "'k view \<Rightarrow> fd set \<Rightarrow> 'k \<Rightarrow> 'k \<Rightarrow> bool" where
  "counters_kept v G k k' \<longleftrightarrow> (\<forall>counter f. v_wake v = Some counter \<and> f \<notin> G \<longrightarrow> counter k' f = counter k f)"

lemma counters_refl [simp]: "counters_kept v G k k"
  by (simp add: counters_kept_def)

lemma counters_view [simp]: "counters_kept (v\<lparr>v_hand := h\<rparr>) G k k' = counters_kept v G k k'"
  by (simp add: counters_kept_def)

lemma counters_trans: "counters_kept v G k k1 \<Longrightarrow> counters_kept v G k1 k2 \<Longrightarrow> counters_kept v G k k2"
  by (auto simp: counters_kept_def)

lemma counters_mono: "counters_kept v G k k' \<Longrightarrow> G \<subseteq> H \<Longrightarrow> counters_kept v H k k'"
  by (auto simp: counters_kept_def)

lemma woken_cong:
  assumes ok: "woken v s"
    and eq: "\<And>l. el_callingPendingFunctors (loops s' l) = el_callingPendingFunctors (loops s l)"
      "\<And>l. el_pendingFunctors (loops s' l) = el_pendingFunctors (loops s l)" "\<And>l. el_wakeupFd (loops s' l) = el_wakeupFd (loops s l)"
    and k: "counters_kept v G (kern s) (kern s')" "\<And>l. l \<in> v_loops v \<Longrightarrow> el_wakeupFd (loops s l) \<notin> G"
  shows "woken v s'"
  using ok k by (auto simp: woken_def alerted_def eq counters_kept_def)

lemma alerted_eq:
  assumes "\<And>l. el_pendingFunctors (loops s' l) = el_pendingFunctors (loops s l)" "\<And>l. el_wakeupFd (loops s' l) = el_wakeupFd (loops s l)"
    and "counters_kept v {} (kern s) (kern s')"
  shows "alerted v s' = alerted v s"
  using assms by (auto simp: alerted_def counters_kept_def)

lemma woken_eq:
  assumes "\<And>l. el_callingPendingFunctors (loops s' l) = el_callingPendingFunctors (loops s l)"
      "\<And>l. el_pendingFunctors (loops s' l) = el_pendingFunctors (loops s l)" "\<And>l. el_wakeupFd (loops s' l) = el_wakeupFd (loops s l)"
    and "counters_kept v {} (kern s) (kern s')"
  shows "woken v s' = woken v s"
  using assms alerted_eq [of s' s v] by (simp add: woken_def)

section \<open>What the kernel keeps\<close>

definition counters_ok :: "'k os \<Rightarrow> 'k view \<Rightarrow> bool" where
  "counters_ok os v \<longleftrightarrow> (\<forall>counter. v_wake v = Some counter \<longrightarrow> eventfd_contract os counter)"

lemma counters_quiet:
  assumes "counters_ok os v"
  shows "sys_time os k = (t, k') \<Longrightarrow> counters_kept v {} k k'" "sys_readv os f lens k = (rd, k') \<Longrightarrow> counters_kept v {} k k'"
    "sys_shutdown_wr os f k = (t, k') \<Longrightarrow> counters_kept v {} k k'"
    "sys_so_error os f k = (e, k') \<Longrightarrow> counters_kept v {} k k'" "sys_listen os f n k = (t, k') \<Longrightarrow> counters_kept v {} k k'"
    "sys_getsockname os f k = (g, k') \<Longrightarrow> counters_kept v {} k k'" "counters_kept v {} k (sys_setsockopt os f opt x k)"
    "sys_epoll_ctl os ep opn f ev k = (r, k') \<Longrightarrow> counters_kept v {} k k'" "sys_epoll_wait os ep m tm k = (w, k') \<Longrightarrow> counters_kept v {} k k'"
  using assms unfolding counters_ok_def eventfd_contract_def counters_kept_def by (metis snd_conv)+

lemma counters_local:
  assumes "counters_ok os v"
  shows "sys_read os f n k = (r, k') \<Longrightarrow> counters_kept v {f} k k'" "sys_write os f bs k = (r, k') \<Longrightarrow> counters_kept v {f} k k'"
    "counters_kept v {f} k (sys_close os f k)" "sys_accept4 os f k = ((g, e, a), k') \<Longrightarrow> counters_kept v {h. h = g \<and> 0 \<le> g} k k'"
proof -
  show "sys_read os f n k = (r, k') \<Longrightarrow> counters_kept v {f} k k'" "sys_write os f bs k = (r, k') \<Longrightarrow> counters_kept v {f} k k'"
    "counters_kept v {f} k (sys_close os f k)"
    using assms unfolding counters_ok_def eventfd_contract_def counters_kept_def by (metis snd_conv singletonI)+
  show "counters_kept v {h. h = g \<and> 0 \<le> g} k k'" if r: "sys_accept4 os f k = ((g, e, a), k')"
    unfolding counters_kept_def
  proof (intro allI impI)
    fix counter h assume "v_wake v = Some counter \<and> h \<notin> {h. h = g \<and> 0 \<le> g}"
    then have "eventfd_contract os counter" "g < 0 \<or> h \<noteq> g" using assms by (auto simp: counters_ok_def)
    with r show "counter k' h = counter k h" unfolding eventfd_contract_def by blast
  qed
qed

lemma counters_woken:
  assumes "counters_ok os v" and "v_wake v = Some counter" and "sys_write os f one_bytes k = (r, k')"
  shows "0 < counter k' f"
proof -
  have "length one_bytes = 8 \<and> (\<exists>b \<in> set one_bytes. b \<noteq> 0)" by (simp add: one_bytes_def)
  with assms show ?thesis unfolding counters_ok_def eventfd_contract_def by (metis snd_conv)
qed

section \<open>Queueing and registering\<close>

text \<open>Either the caller wakes the loop, or it is the loop's own thread and the loop has its queue yet to take.\<close>

lemma queue_counters:
  assumes "counters_ok os v"
  shows "counters_kept v {el_wakeupFd (loops s l)} (kern s) (kern (EventLoop_queueInLoop os l t s))"
  using counters_local(2) [OF assms]
  by (auto simp: EventLoop_queueInLoop_def EventLoop_wakeup_def Let_def retain_task_def split: prod.split option.split)

lemma queue_wakes:
  assumes "counters_ok os v" and "v_wake v = Some counter" and "\<not> EventLoop_isInLoopThread l s \<or> el_callingPendingFunctors (loops s l)"
  shows "0 < counter (kern (EventLoop_queueInLoop os l t s)) (el_wakeupFd (loops s l))"
proof -
  obtain n e k' where w: "sys_write os (el_wakeupFd (loops s l)) one_bytes (kern s) = ((n, e), k')" by (metis surj_pair)
  have "kern (EventLoop_queueInLoop os l t s) = k'"
    using assms(3) w
    by (cases "task_owns t"; simp add: EventLoop_queueInLoop_def EventLoop_wakeup_def EventLoop_isInLoopThread_def Let_def retain_task_def; blast)
  with counters_woken [OF assms(1,2) w] show ?thesis by simp
qed

lemma woken_queue:
  fixes s :: "('k, 'z) reactor_scheme"
  assumes k: "counters_ok os v" and ok: "woken v s" and l: "l \<in> v_loops v"
    and tid: "el_threadId (loops s l) = v_tid v l" "cur_tid s = v_me v"
    and fd: "\<And>x. x \<in> v_loops v \<Longrightarrow> x \<noteq> l \<Longrightarrow> el_wakeupFd (loops s x) \<noteq> el_wakeupFd (loops s l)"
  shows "woken v (EventLoop_queueInLoop os l t s)"
proof -
  let ?s = "EventLoop_queueInLoop os l t s"
  have calling: "el_callingPendingFunctors (loops s x)" if "v_wake v \<noteq> None" "x \<in> v_loops v" "x \<notin> v_busy v" "v_tid v x = v_me v" for x
    using ok that by (simp add: woken_def)
  have "0 < counter (kern ?s) (el_wakeupFd (loops ?s x))"
    if c: "v_wake v = Some counter" and x: "x \<in> v_loops v" "x \<notin> v_busy v" and q: "el_pendingFunctors (loops ?s x) \<noteq> []" for counter x
  proof (cases "x = l")
    case True
    with calling [OF _ x] c tid have "\<not> EventLoop_isInLoopThread l s \<or> el_callingPendingFunctors (loops s l)" by (auto simp: EventLoop_isInLoopThread_def)
    with queue_wakes [OF k c this] True show ?thesis by simp
  next
    case False
    then have "0 < counter (kern s) (el_wakeupFd (loops s x))" using ok c x q by (simp add: woken_def alerted_def)
    with False queue_counters [OF k, of s l t] fd [OF x(1)] c show ?thesis by (simp add: counters_kept_def)
  qed
  with calling show ?thesis by (auto simp: woken_def alerted_def)
qed

text \<open>A busy loop may read its own counter.\<close>

lemma woken_read:
  assumes k: "counters_ok os v" and ok: "woken v s" and l: "l \<in> v_loops v" "l \<in> v_busy v"
    and r: "sys_read os (el_wakeupFd (loops s l)) n (kern s) = (r, k')"
    and fd: "\<And>x. x \<in> v_loops v \<Longrightarrow> x \<noteq> l \<Longrightarrow> el_wakeupFd (loops s x) \<noteq> el_wakeupFd (loops s l)"
  shows "woken v (s\<lparr>kern := k'\<rparr>)"
proof -
  have "0 < counter k' (el_wakeupFd (loops s x))"
    if x: "v_wake v = Some counter" "x \<in> v_loops v" "x \<notin> v_busy v" "el_pendingFunctors (loops s x) \<noteq> []" for counter x
  proof -
    have "counter k' (el_wakeupFd (loops s x)) = counter (kern s) (el_wakeupFd (loops s x))"
      using counters_local(1) [OF k r] fd x l(2) by (auto simp: counters_kept_def)
    with ok x show ?thesis by (simp add: woken_def alerted_def)
  qed
  with ok show ?thesis by (simp add: woken_def alerted_def)
qed

lemma poller_update_counters: "counters_ok os v \<Longrightarrow> counters_kept v {} (kern s) (kern (EpollPoller_update os l opn p s))"
  by (auto simp: EpollPoller_update_def Let_def dest: counters_quiet(8) split: prod.split)

lemma channel_counters:
  fixes s :: "('k, 'z) reactor_scheme"
  assumes "counters_ok os v"
  shows "counters_kept v {} (kern s) (kern (Channel_update os p s))" "counters_kept v {} (kern s) (kern (Channel_remove os p s))"
proof -
  have "counters_kept v {} (kern s) (kern (EpollPoller_update os l opn p t))" if "kern t = kern s" for t :: "('k, 'z) reactor_scheme" and l opn
    using poller_update_counters [OF assms, of t l opn p] that by simp
  then show "counters_kept v {} (kern s) (kern (Channel_update os p s))" "counters_kept v {} (kern s) (kern (Channel_remove os p s))"
    by (simp_all add: Channel_update_def EventLoop_updateChannel_def EpollPoller_updateChannel_def Channel_remove_def
        EventLoop_removeChannel_def EpollPoller_removeChannel_def Let_def)
qed

lemma woken_channel:
  assumes "counters_ok os v"
  shows "woken v (Channel_update os p s) = woken v s" "woken v (Channel_remove os p s) = woken v s"
    "woken v (Channel_set_events g p s) = woken v s"
  by (rule woken_eq; simp add: channel_counters [OF assms])+

end
