(* ===== verification/Confinement.thy ===== *)
theory Confinement
  imports Waking
begin

text \<open>
  One loop per thread: what a thread writes belongs to its own loop. The connections of other loops, their channels, the
  wakeup channels and pollers of other loops and, but for the thread of the server's own loop, the acceptor and the members
  of the server are as the thread found them; to the queue of another loop it appends.
\<close>

section \<open>What a step may change\<close>

definition snapshot_of :: "('k, 'z) server_scheme \<Rightarrow> snapshot" where
  "snapshot_of s = \<lparr>sn_conns = conns s, sn_chan = chan s, sn_loops = loops s, sn_acceptor = the_acceptor s,
     sn_connections = sv_connections s, sn_nextConnId = sv_nextConnId s, sn_threadPool = sv_threadPool s, sn_next_conn = next_conn s\<rparr>"

text \<open>A connection never moves to another loop. \<^term>\<open>mine\<close> are the loops of the running thread, \<^term>\<open>main\<close> is the loop of the server.\<close>

definition conns_stay :: "(loop_ptr \<Rightarrow> bool) \<Rightarrow> snapshot \<Rightarrow> snapshot \<Rightarrow> bool" where
  "conns_stay mine a b \<longleftrightarrow> sn_next_conn a \<le> sn_next_conn b \<and> (\<forall>c < sn_next_conn a. tc_loop (sn_conns b c) = tc_loop (sn_conns a c) \<and>
     (\<not> mine (tc_loop (sn_conns a c)) \<longrightarrow> sn_conns b c = sn_conns a c \<and> sn_chan b (ConnChannel c) = sn_chan a (ConnChannel c)))"

definition loop_stays :: "snapshot \<Rightarrow> snapshot \<Rightarrow> loop_ptr \<Rightarrow> bool" where
  "loop_stays a b x \<longleftrightarrow> sn_chan b (WakeupChannel x) = sn_chan a (WakeupChannel x) \<and>
     (\<exists>ts. sn_loops b x = (sn_loops a x)\<lparr>el_pendingFunctors := el_pendingFunctors (sn_loops a x) @ ts\<rparr>)"

definition server_stays :: "snapshot \<Rightarrow> snapshot \<Rightarrow> bool" where
  "server_stays a b \<longleftrightarrow> sn_chan b AcceptChannel = sn_chan a AcceptChannel \<and> sn_acceptor b = sn_acceptor a \<and>
     sn_connections b = sn_connections a \<and> sn_nextConnId b = sn_nextConnId a \<and> sn_threadPool b = sn_threadPool a \<and>
     sn_next_conn b = sn_next_conn a"

definition stays :: "(loop_ptr \<Rightarrow> bool) \<Rightarrow> loop_ptr set \<Rightarrow> loop_ptr \<Rightarrow> snapshot \<Rightarrow> snapshot \<Rightarrow> bool" where
  "stays mine L main a b \<longleftrightarrow> conns_stay mine a b \<and> (\<forall>x \<in> L. \<not> mine x \<longrightarrow> loop_stays a b x) \<and> (\<not> mine main \<longrightarrow> server_stays a b)"

lemma nothing_queued [simp]: "\<exists>ts. e = e\<lparr>el_pendingFunctors := el_pendingFunctors e @ ts\<rparr>"
  by (rule exI [of _ "[]"]) simp

lemma loop_stays_refl [simp]: "loop_stays a a x"
  by (simp add: loop_stays_def)

lemma stays_refl [simp]: "stays mine L main a a"
  by (simp add: stays_def conns_stay_def server_stays_def)

lemma loop_stays_trans: "loop_stays a b x \<Longrightarrow> loop_stays b c x \<Longrightarrow> loop_stays a c x"
  unfolding loop_stays_def by fastforce

lemma stays_trans: "stays mine L main a b \<Longrightarrow> stays mine L main b c \<Longrightarrow> stays mine L main a c"
  unfolding stays_def conns_stay_def server_stays_def
  by (auto intro: loop_stays_trans)

lemma snapshot_sel [simp]:
  "sn_conns (snapshot_of s) = conns s" "sn_chan (snapshot_of s) = chan s" "sn_loops (snapshot_of s) = loops s"
  "sn_acceptor (snapshot_of s) = the_acceptor s" "sn_connections (snapshot_of s) = sv_connections s"
  "sn_nextConnId (snapshot_of s) = sv_nextConnId s" "sn_threadPool (snapshot_of s) = sv_threadPool s" "sn_next_conn (snapshot_of s) = next_conn s"
  by (simp_all add: snapshot_of_def)

lemma snapshot_frame [simp]:
  "snapshot_of (s\<lparr>kern := k\<rparr>) = snapshot_of s" "snapshot_of (s\<lparr>cur_tid := t\<rparr>) = snapshot_of s"
  "snapshot_of (LOG_ERROR m n s) = snapshot_of s" "snapshot_of (retain c s) = snapshot_of s" "snapshot_of (release os c s) = snapshot_of s"
  by (simp_all add: snapshot_of_def server_more(11) [of "LOG_ERROR m n s"] server_more(11) [of "retain c s"] server_more(11) [of "release os c s"])

section \<open>The invariant\<close>

definition confined :: "'k view \<Rightarrow> ('k, 'z) server_scheme \<Rightarrow> bool" where
  "confined v s \<longleftrightarrow> (\<forall>a. v_start v = Some a \<longrightarrow> stays (\<lambda>x. v_tid v x = v_me v) (v_loops v) (v_main v) a (snapshot_of s))"

lemma confined_view [simp]:
  "confined (v\<lparr>v_focus := f\<rparr>) s = confined v s" "confined (v\<lparr>v_pin := m\<rparr>) s = confined v s" "confined (v\<lparr>v_hand := h\<rparr>) s = confined v s"
  "confined (v\<lparr>v_wake := wk\<rparr>) s = confined v s" "confined (v\<lparr>v_busy := B\<rparr>) s = confined v s"
  by (simp_all add: confined_def)

lemma confined_eq: "snapshot_of s' = snapshot_of s \<Longrightarrow> confined v s' = confined v s"
  by (simp add: confined_def)

lemma confined_unobserved [simp]: "v_start v = None \<Longrightarrow> confined v s"
  by (simp add: confined_def)

lemma confined_step:
  assumes "confined v s" and "v_start v \<noteq> None \<Longrightarrow> stays (\<lambda>x. v_tid v x = v_me v) (v_loops v) (v_main v) (snapshot_of s) (snapshot_of s')"
  shows "confined v s'"
  using assms by (auto simp: confined_def intro: stays_trans)

text \<open>The loops of the running thread.\<close>

definition runs_in :: "'k view \<Rightarrow> loop_ptr \<Rightarrow> bool" where
  "runs_in v l \<longleftrightarrow> (v_start v \<noteq> None \<longrightarrow> v_tid v l = v_me v)"

lemma runs_in_view [simp]:
  "runs_in (v\<lparr>v_focus := f\<rparr>) l = runs_in v l" "runs_in (v\<lparr>v_pin := m\<rparr>) l = runs_in v l" "runs_in (v\<lparr>v_hand := h\<rparr>) l = runs_in v l"
  "runs_in (v\<lparr>v_wake := wk\<rparr>) l = runs_in v l" "runs_in (v\<lparr>v_busy := B\<rparr>) l = runs_in v l"
  by (simp_all add: runs_in_def)

text \<open>A connection that was there at the start, in a loop of the running thread. It still is.\<close>

definition homed :: "'k view \<Rightarrow> conn_ptr \<Rightarrow> bool" where
  "homed v c \<longleftrightarrow> (\<forall>a. v_start v = Some a \<longrightarrow> c < sn_next_conn a \<and> v_tid v (tc_loop (sn_conns a c)) = v_me v)"

lemma homed_view [simp]: "homed (v\<lparr>v_busy := B\<rparr>) c = homed v c"
  by (simp add: homed_def)

lemma homed_runs:
  fixes s :: "('k, 'z) server_scheme"
  shows "homed v c \<Longrightarrow> confined v s \<Longrightarrow> runs_in v (tc_loop (conns s c))"
  by (auto simp: homed_def confined_def runs_in_def stays_def conns_stay_def)

lemma runs_in_me: "v_me v = v_tid v l \<Longrightarrow> runs_in v l"
  by (simp add: runs_in_def)

text \<open>A step at a connection of the thread's own loop, or at the server from the server's own loop.\<close>

lemma confined_conn:
  fixes s s' :: "('k, 'z) server_scheme"
  assumes "confined v s" and "runs_in v (tc_loop (conns s c))" and "tc_loop (conns s' c) = tc_loop (conns s c)"
    and "\<And>d. d \<noteq> c \<Longrightarrow> conns s' d = conns s d" "\<And>p. p \<noteq> ConnChannel c \<Longrightarrow> chan s' p = chan s p"
    and "\<And>x. v_start v \<noteq> None \<Longrightarrow> v_tid v x \<noteq> v_me v \<Longrightarrow> loops s' x = loops s x"
    and "the_acceptor s' = the_acceptor s" "sv_connections s' = sv_connections s" "sv_nextConnId s' = sv_nextConnId s"
      "sv_threadPool s' = sv_threadPool s" "next_conn s' = next_conn s"
  shows "confined v s'"
proof (rule confined_step [OF assms(1)])
  assume v: "v_start v \<noteq> None"
  have "conns s' d = conns s d \<and> chan s' (ConnChannel d) = chan s (ConnChannel d)" if "v_tid v (tc_loop (conns s d)) \<noteq> v_me v" for d
    using assms(2,4,5) that v by (cases "d = c") (auto simp: runs_in_def)
  moreover have "tc_loop (conns s' d) = tc_loop (conns s d)" for d using assms(3,4) by (cases "d = c") simp_all
  ultimately show "stays (\<lambda>x. v_tid v x = v_me v) (v_loops v) (v_main v) (snapshot_of s) (snapshot_of s')"
    using assms(5-) v by (simp add: stays_def conns_stay_def server_stays_def loop_stays_def) 
qed

lemma confined_server:
  fixes s s' :: "('k, 'z) server_scheme"
  assumes "confined v s" and "runs_in v (v_main v)" and "next_conn s \<le> next_conn s'"
    and "\<And>c. c < next_conn s \<Longrightarrow> conns s' c = conns s c \<and> chan s' (ConnChannel c) = chan s (ConnChannel c)"
    and "\<And>x. chan s' (WakeupChannel x) = chan s (WakeupChannel x)"
    and "\<And>x. v_start v \<noteq> None \<Longrightarrow> v_tid v x \<noteq> v_me v \<Longrightarrow> loops s' x = loops s x"
  shows "confined v s'"
proof (rule confined_step [OF assms(1)])
  assume v: "v_start v \<noteq> None"
  have "loop_stays (snapshot_of s) (snapshot_of s') x" if "v_tid v x \<noteq> v_me v" for x
    using assms(5) assms(6) [OF v that] by (simp add: loop_stays_def)
  with assms(2-4) v show "stays (\<lambda>x. v_tid v x = v_me v) (v_loops v) (v_main v) (snapshot_of s) (snapshot_of s')"
    by (simp add: stays_def conns_stay_def runs_in_def)
qed

lemma confined_upd_loop:
  fixes s :: "('k, 'z) server_scheme"
  assumes "confined v s" and "runs_in v l"
  shows "confined v (upd_loop l f s)"
proof (rule confined_step [OF assms(1)])
  assume "v_start v \<noteq> None"
  with assms(2) show "stays (\<lambda>x. v_tid v x = v_me v) (v_loops v) (v_main v) (snapshot_of s) (snapshot_of (upd_loop l f s))"
    by (auto simp: stays_def conns_stay_def server_stays_def loop_stays_def runs_in_def upd_loop_def)
qed

lemma confined_queue:
  fixes s :: "('k, 'z) server_scheme"
  assumes "confined v s"
  shows "confined v (EventLoop_queueInLoop os l t s)"
proof (rule confined_step [OF assms])
  have "loop_stays (snapshot_of s) (snapshot_of (EventLoop_queueInLoop os l t s)) x" for x
    by (auto simp: loop_stays_def)
  then show "stays (\<lambda>x. v_tid v x = v_me v) (v_loops v) (v_main v) (snapshot_of s) (snapshot_of (EventLoop_queueInLoop os l t s))"
    by (simp add: stays_def conns_stay_def server_stays_def server_more(11) [of "EventLoop_queueInLoop os l t s" s] conns_more [of "EventLoop_queueInLoop os l t s" s])
qed

text \<open>A channel is registered in the poller of its own loop.\<close>

lemma channel_loops:
  assumes "x \<noteq> ch_loop (chan s p)"
  shows "loops (Channel_update os p s) x = loops s x" "loops (Channel_remove os p s) x = loops s x"
  using assms by (simp_all add: Channel_update_def EventLoop_updateChannel_def updateChannel_loops Channel_remove_def
      EventLoop_removeChannel_def removeChannel_loops)

lemma channel_others:
  assumes "q \<noteq> p"
  shows "chan (Channel_update os p s) q = chan s q" "chan (Channel_remove os p s) q = chan s q"
  using assms by (simp_all add: Channel_update_def EventLoop_updateChannel_def updateChannel_chan Channel_remove_def
      EventLoop_removeChannel_def removeChannel_chan)

lemma confined_channel:
  fixes s :: "('k, 'z) server_scheme" and g :: "32 word \<Rightarrow> 32 word"
  assumes ok: "confined v s" "runs_in v (tc_loop (conns s c))" and l: "ch_loop (chan s (ConnChannel c)) = tc_loop (conns s c)"
  shows "confined v (Channel_update os (ConnChannel c) (Channel_set_events g (ConnChannel c) s))"
    and "confined v (Channel_remove os (ConnChannel c) s)"
proof -
  have other: "x \<noteq> ch_loop (chan s (ConnChannel c))" if "v_start v \<noteq> None" "v_tid v x \<noteq> v_me v" for x
    using ok(2) l that by (auto simp: runs_in_def)
  show "confined v (Channel_update os (ConnChannel c) (Channel_set_events g (ConnChannel c) s))"
    by (rule confined_conn [OF ok]) (use other in \<open>simp_all add: channel_loops channel_others server_more(11) [OF Channel_update_sel(4)] server_more(11) [OF Channel_set_events_more(1)]\<close>)
  show "confined v (Channel_remove os (ConnChannel c) s)"
    by (rule confined_conn [OF ok]) (use other in \<open>simp_all add: channel_loops channel_others server_more(11) [OF Channel_remove_sel(4)]\<close>)
qed

lemma confined_accept_channel:
  fixes s :: "('k, 'z) server_scheme" and g :: "32 word \<Rightarrow> 32 word"
  assumes ok: "confined v s" "runs_in v (v_main v)" and l: "ch_loop (chan s AcceptChannel) = v_main v"
  shows "confined v (Channel_update os AcceptChannel (Channel_set_events g AcceptChannel s))"
proof -
  have "x \<noteq> ch_loop (chan s AcceptChannel)" if "v_start v \<noteq> None" "v_tid v x \<noteq> v_me v" for x
    using ok(2) l that by (auto simp: runs_in_def)
  then show ?thesis by (intro confined_server [OF ok]) (simp_all add: channel_loops channel_others)
qed

end
