(* ===== verification/Ownership.thy ===== *)
theory Ownership
  imports Callbacks "HOL-Library.Multiset"
begin

text \<open>
  Who keeps a connection alive. A \<^verbatim>\<open>TcpConnection\<close> is owned by the server's map, by functors that
  wait in the queues of the loops, and by pointers on the stack; its channel, once in a poller, is
  reached by a raw pointer. The theory has the abstract machine of these owners and the invariant
  that a channel in a poller always has an owner that will take it out again: the map, a queued
  \<^verbatim>\<open>removeConnectionInLoop\<close> or a queued \<^verbatim>\<open>connectDestroyed\<close>. The theory \<open>Lifetime\<close> shows that the
  handlers of the server are moves of this machine.
\<close>

section \<open>States\<close>

record ownership =
  o_refs :: "conn_ptr \<Rightarrow> nat"
  o_map :: "string \<rightharpoonup> conn_ptr"
  o_tasks :: "task multiset"
  o_reg :: "conn_ptr \<Rightarrow> bool"
  o_next :: conn_ptr
  o_name :: "conn_ptr \<Rightarrow> string"

text \<open>A functor bound to a raw \<^verbatim>\<open>this\<close> owns nothing and may outlive its object.\<close>

fun raw_task :: "task \<Rightarrow> bool" where
  "raw_task (Bind_sendInLoop c bs) = True"
| "raw_task (Bind_shutdownInLoop c) = True"
| "raw_task _ = False"

definition held_by :: "conn_ptr \<Rightarrow> task multiset \<Rightarrow> nat" where
  "held_by c T = size {#t \<in># T. task_owns t = Some c#}"

definition owners :: "task multiset \<Rightarrow> conn_ptr multiset" where
  "owners T = image_mset (the \<circ> task_owns) {#t \<in># T. task_owns t \<noteq> None#}"

text \<open>The functors that lead to the removal of the channel.\<close>

definition leaving :: "conn_ptr \<Rightarrow> task multiset \<Rightarrow> bool" where
  "leaving c T \<longleftrightarrow> Bind_removeConnectionInLoop c \<in># T \<or> Bind_connectDestroyed c \<in># T"

section \<open>The invariant\<close>

text \<open>Besides the state there are the pointers on the stack, \<^term>\<open>held\<close>, and the functors that were taken
  from a queue and are still to be run, \<^term>\<open>rest\<close>, whose pointers are among those held.\<close>

definition counts_ok :: "conn_ptr multiset \<Rightarrow> ownership \<Rightarrow> bool" where
  "counts_ok held ow \<longleftrightarrow>
     (\<forall>c. o_refs ow c = of_bool (c \<in> ran (o_map ow)) + held_by c (o_tasks ow) + count held c)"

definition entries_ok :: "ownership \<Rightarrow> bool" where
  "entries_ok ow \<longleftrightarrow> (\<forall>nm c. o_map ow nm = Some c \<longrightarrow> c < o_next ow \<and> o_name ow c = nm) \<and>
     inj_on (o_name ow) {..<o_next ow}"

definition anchors_ok :: "task multiset \<Rightarrow> ownership \<Rightarrow> bool" where
  "anchors_ok rest ow \<longleftrightarrow>
     (\<forall>c < o_next ow. o_reg ow c \<longrightarrow> c \<in> ran (o_map ow) \<or> leaving c (o_tasks ow + rest))"

definition establish_ok :: "task multiset \<Rightarrow> ownership \<Rightarrow> bool" where
  "establish_ok rest ow \<longleftrightarrow> (\<forall>c. count (o_tasks ow + rest) (Bind_connectEstablished c) \<le> 1 \<and>
     (Bind_connectEstablished c \<in># o_tasks ow + rest \<longrightarrow>
        c \<in> ran (o_map ow) \<and> \<not> o_reg ow c \<and> \<not> leaving c (o_tasks ow + rest)))"

definition tasks_ok :: "task multiset \<Rightarrow> ownership \<Rightarrow> bool" where
  "tasks_ok rest ow \<longleftrightarrow> (\<forall>t \<in># o_tasks ow + rest. \<not> raw_task t \<and> (\<forall>c. task_owns t = Some c \<longrightarrow> c < o_next ow))"

definition held_ok :: "conn_ptr multiset \<Rightarrow> task multiset \<Rightarrow> ownership \<Rightarrow> bool" where
  "held_ok held rest ow \<longleftrightarrow> (\<forall>c \<in># held. c < o_next ow) \<and>
     (\<forall>t \<in># rest. \<forall>c. task_owns t = Some c \<longrightarrow> c \<in># held)"

definition own_ok :: "conn_ptr multiset \<Rightarrow> task multiset \<Rightarrow> ownership \<Rightarrow> bool" where
  "own_ok held rest ow \<longleftrightarrow> counts_ok held ow \<and> entries_ok ow \<and> anchors_ok rest ow \<and> establish_ok rest ow \<and>
     tasks_ok rest ow \<and> held_ok held rest ow"

lemmas own_parts = counts_ok_def entries_ok_def anchors_ok_def establish_ok_def tasks_ok_def held_ok_def

lemma held_by_add [simp]: "held_by c (add_mset t T) = of_bool (task_owns t = Some c) + held_by c T"
  by (simp add: held_by_def)

lemma held_by_union [simp]: "held_by c (S + T) = held_by c S + held_by c T"
  by (simp add: held_by_def)

lemma held_by_pos: "t \<in># T \<Longrightarrow> task_owns t = Some c \<Longrightarrow> 0 < held_by c T"
  by (auto simp: held_by_def size_eq_0_iff_empty filter_mset_eq_conv intro!: Nat.gr0I)

lemma count_owners: "count (owners T) c = held_by c T"
proof (induction T)
  case empty
  then show ?case by (simp add: owners_def held_by_def)
next
  case (add t T)
  then show ?case by (cases "task_owns t") (auto simp: owners_def)
qed

section \<open>Alive\<close>

lemma own_alive:
  assumes "own_ok held rest ow"
  shows "c \<in># held \<Longrightarrow> o_refs ow c \<noteq> 0" and "c \<in> ran (o_map ow) \<Longrightarrow> o_refs ow c \<noteq> 0"
    and "t \<in># o_tasks ow + rest \<Longrightarrow> task_owns t = Some c \<Longrightarrow> o_refs ow c \<noteq> 0"
    and "o_reg ow c \<Longrightarrow> c < o_next ow \<Longrightarrow> o_refs ow c \<noteq> 0"
proof -
  have n: "o_refs ow c = of_bool (c \<in> ran (o_map ow)) + held_by c (o_tasks ow) + count held c"
    using assms by (simp add: own_ok_def counts_ok_def)
  show held: "c \<in># held \<Longrightarrow> o_refs ow c \<noteq> 0" by (simp add: n)
  show map: "c \<in> ran (o_map ow) \<Longrightarrow> o_refs ow c \<noteq> 0" by (simp add: n)
  have task: "o_refs ow c \<noteq> 0" if "t \<in># o_tasks ow + rest" "task_owns t = Some c" for t
    using that held_by_pos [of t "o_tasks ow" c] held assms by (auto simp: n own_ok_def held_ok_def)
  then show "t \<in># o_tasks ow + rest \<Longrightarrow> task_owns t = Some c \<Longrightarrow> o_refs ow c \<noteq> 0" by blast
  show "o_refs ow c \<noteq> 0" if "o_reg ow c" "c < o_next ow"
  proof -
    have "c \<in> ran (o_map ow) \<or> leaving c (o_tasks ow + rest)"
      using assms that by (simp add: own_ok_def anchors_ok_def)
    with map task show ?thesis unfolding leaving_def by (metis task_owns.simps(2,5))
  qed
qed

section \<open>Moves\<close>

definition o_retain :: "conn_ptr \<Rightarrow> ownership \<Rightarrow> ownership" where
  "o_retain c ow = ow\<lparr>o_refs := (o_refs ow)(c := Suc (o_refs ow c))\<rparr>"

definition o_release :: "conn_ptr \<Rightarrow> ownership \<Rightarrow> ownership" where
  "o_release c ow = ow\<lparr>o_refs := (o_refs ow)(c := o_refs ow c - 1)\<rparr>"

definition o_queue :: "task \<Rightarrow> ownership \<Rightarrow> ownership" where
  "o_queue t ow = (let ow1 = ow\<lparr>o_tasks := add_mset t (o_tasks ow)\<rparr>
     in case task_owns t of None \<Rightarrow> ow1 | Some c \<Rightarrow> o_retain c ow1)"

definition o_erase :: "string \<Rightarrow> ownership \<Rightarrow> ownership" where
  "o_erase nm ow = (let ow1 = ow\<lparr>o_map := (o_map ow)(nm := None)\<rparr>
     in case o_map ow nm of None \<Rightarrow> ow1 | Some c \<Rightarrow> o_release c ow1)"

definition o_set_reg :: "conn_ptr \<Rightarrow> bool \<Rightarrow> ownership \<Rightarrow> ownership" where
  "o_set_reg c b ow = ow\<lparr>o_reg := (o_reg ow)(c := b)\<rparr>"

text \<open>A new connection, filed under its name and held by one pointer on the stack.\<close>

definition o_create :: "string \<Rightarrow> ownership \<Rightarrow> ownership" where
  "o_create nm ow = (let c = o_next ow in
     ow\<lparr>o_refs := (o_refs ow)(c := 2), o_map := (o_map ow)(nm \<mapsto> c), o_reg := (o_reg ow)(c := False),
        o_next := Suc c, o_name := (o_name ow)(c := nm)\<rparr>)"

lemma retain_ok:
  "own_ok held rest ow \<Longrightarrow> c < o_next ow \<Longrightarrow> own_ok (add_mset c held) rest (o_retain c ow)"
  by (auto simp: own_ok_def own_parts o_retain_def)

lemma release_ok:
  assumes "own_ok (add_mset c held) rest ow" and "held_ok held rest ow"
  shows "own_ok held rest (o_release c ow)"
  using assms by (auto simp: own_ok_def own_parts o_release_def)

lemma set_reg_ok:
  assumes "own_ok held rest ow"
    and "b \<Longrightarrow> (c \<in> ran (o_map ow) \<or> leaving c (o_tasks ow + rest)) \<and> Bind_connectEstablished c \<notin># o_tasks ow + rest"
  shows "own_ok held rest (o_set_reg c b ow)"
  using assms by (auto simp: own_ok_def own_parts o_set_reg_def)

text \<open>Queueing a functor that is not raw: one that leads to the removal may not overtake the functor
  that establishes the connection.\<close>

lemma queue_ok:
  assumes "own_ok held rest ow" and "\<not> raw_task t" and "\<And>c. task_owns t = Some c \<Longrightarrow> c < o_next ow"
    and "\<And>c. t = Bind_connectEstablished c \<Longrightarrow> c \<in> ran (o_map ow) \<and> \<not> o_reg ow c \<and>
      \<not> leaving c (o_tasks ow + rest) \<and> t \<notin># o_tasks ow + rest"
    and "\<And>c. t = Bind_removeConnectionInLoop c \<or> t = Bind_connectDestroyed c \<Longrightarrow>
      Bind_connectEstablished c \<notin># o_tasks ow + rest"
  shows "own_ok held rest (o_queue t ow)"
proof -
  let ?ow = "o_queue t ow"
  have sel: "o_tasks ?ow = add_mset t (o_tasks ow)" "o_map ?ow = o_map ow" "o_reg ?ow = o_reg ow"
      "o_next ?ow = o_next ow" "o_name ?ow = o_name ow"
      "o_refs ?ow c = o_refs ow c + of_bool (task_owns t = Some c)" for c
    by (auto simp: o_queue_def o_retain_def Let_def split: option.splits)
  have "counts_ok held ?ow" "entries_ok ?ow" "tasks_ok rest ?ow" "held_ok held rest ?ow"
    using assms(1-3) by (auto simp: own_ok_def counts_ok_def entries_ok_def tasks_ok_def held_ok_def sel)
  moreover have "anchors_ok rest ?ow"
    using assms(1) by (auto simp: own_ok_def anchors_ok_def leaving_def sel)
  moreover have "establish_ok rest ?ow"
    using assms(1,4,5) unfolding own_ok_def establish_ok_def sel leaving_def
    by (auto simp: count_eq_zero_iff)
  ultimately show ?thesis by (simp add: own_ok_def)
qed

text \<open>The server takes a connection out of its map and queues the destruction.\<close>

lemma ran_erase:
  assumes "entries_ok ow"
  shows "ran ((o_map ow)(nm := None)) = ran (o_map ow) - {c. o_map ow nm = Some c}"
  using assms by (auto simp: ran_def entries_ok_def)

lemma remove_ok:
  assumes ok: "own_ok held (add_mset (Bind_removeConnectionInLoop c) rest) ow"
  shows "own_ok held rest (o_queue (Bind_connectDestroyed c) (o_erase (o_name ow c) ow))"
proof -
  let ?nm = "o_name ow c" and ?ow = "o_queue (Bind_connectDestroyed c) (o_erase (o_name ow c) ow)"
  have c: "c < o_next ow" "c \<in># held" and ent: "entries_ok ow"
    using ok by (auto simp: own_ok_def tasks_ok_def held_ok_def)
  have entry: "d = c" if "o_map ow ?nm = Some d" for d
    using ent that c by (auto simp: entries_ok_def dest: inj_onD)
  have free: "o_map ow ?nm = None" if "c \<notin> ran (o_map ow)"
    using that entry by (metis not_None_eq ranI)
  have here: "o_map ow ?nm = Some c" if "c \<in> ran (o_map ow)"
    using that ent by (auto simp: ran_def entries_ok_def)
  have sel: "o_tasks ?ow = add_mset (Bind_connectDestroyed c) (o_tasks ow)" "o_map ?ow = (o_map ow)(?nm := None)"
      "o_reg ?ow = o_reg ow" "o_next ?ow = o_next ow" "o_name ?ow = o_name ow"
    by (auto simp: o_queue_def o_erase_def o_retain_def o_release_def Let_def split: option.splits)
  have ran: "ran ((o_map ow)(?nm := None)) = ran (o_map ow) - {c}"
    using ran_erase [OF ent] entry here free by auto
  have refs: "o_refs ?ow = (if c \<in> ran (o_map ow) then o_refs ow else (o_refs ow)(c := Suc (o_refs ow c)))"
    using own_alive(1) [OF ok c(2)] here free
    by (auto simp: o_queue_def o_erase_def o_retain_def o_release_def Let_def fun_eq_iff)
  have est: "Bind_connectEstablished c \<notin># o_tasks ow + rest"
    using ok by (auto simp: own_ok_def establish_ok_def leaving_def)
  have "counts_ok held ?ow" using ok unfolding counts_ok_def sel refs ran own_ok_def by auto
  moreover have "entries_ok ?ow" "tasks_ok rest ?ow" "held_ok held rest ?ow"
    using ok by (auto simp: own_ok_def entries_ok_def tasks_ok_def held_ok_def sel split: if_splits)
  moreover have "anchors_ok rest ?ow"
    using ok unfolding own_ok_def anchors_ok_def sel ran leaving_def by auto
  moreover have "establish_ok rest ?ow"
    using ok est unfolding own_ok_def establish_ok_def sel ran leaving_def by auto
  ultimately show ?thesis by (simp add: own_ok_def)
qed

text \<open>A functor that has been run is no longer to be run.\<close>

lemma drop_task_ok:
  assumes ok: "own_ok held (add_mset t rest) ow"
    and "\<And>c. t = Bind_removeConnectionInLoop c \<or> t = Bind_connectDestroyed c \<Longrightarrow> \<not> o_reg ow c"
  shows "own_ok held rest ow"
proof -
  have "anchors_ok rest ow"
    using assms unfolding own_ok_def anchors_ok_def leaving_def by auto
  moreover have "establish_ok rest ow"
    unfolding establish_ok_def
  proof (intro allI conjI impI)
    fix c
    have est: "count (o_tasks ow + add_mset t rest) (Bind_connectEstablished c) \<le> 1"
        "Bind_connectEstablished c \<in># o_tasks ow + add_mset t rest \<Longrightarrow>
           c \<in> ran (o_map ow) \<and> \<not> o_reg ow c \<and> \<not> leaving c (o_tasks ow + add_mset t rest)"
      using ok unfolding own_ok_def establish_ok_def by blast+
    from est(1) show "count (o_tasks ow + rest) (Bind_connectEstablished c) \<le> 1" by (simp split: if_splits)
    assume "Bind_connectEstablished c \<in># o_tasks ow + rest"
    then have "Bind_connectEstablished c \<in># o_tasks ow + add_mset t rest" by auto
    from est(2) [OF this] show "c \<in> ran (o_map ow)" "\<not> o_reg ow c" "\<not> leaving c (o_tasks ow + rest)"
      by (auto simp: leaving_def)
  qed
  ultimately show ?thesis using ok by (auto simp: own_ok_def tasks_ok_def held_ok_def)
qed

text \<open>A loop takes a batch of functors out of its queue.\<close>

lemma take_ok:
  assumes "own_ok {#} {#} ow" and "o_tasks ow = T + B"
  shows "own_ok (owners B) B (ow\<lparr>o_tasks := T\<rparr>)"
proof -
  have "count (owners B) c = held_by c B" for c by (rule count_owners)
  moreover have "t \<in># B \<Longrightarrow> task_owns t = Some c \<Longrightarrow> c \<in># owners B" for t c
    using held_by_pos [of t B c] by (simp add: count_owners flip: count_greater_zero_iff)
  moreover have "c < o_next ow" if "c \<in># owners B" for c
    using that assms by (fastforce simp: owners_def own_ok_def tasks_ok_def)
  ultimately show ?thesis
    using assms by (auto simp: own_ok_def own_parts)
qed

lemma create_ok:
  assumes ok: "own_ok held rest ow" and new: "nm \<notin> o_name ow ` {..<o_next ow}"
  shows "own_ok (add_mset (o_next ow) held) rest (o_create nm ow)"
proof -
  let ?c = "o_next ow" and ?ow = "o_create nm ow"
  have free: "o_map ow nm = None"
    using ok new by (auto simp: own_ok_def entries_ok_def) (metis image_eqI lessThan_iff not_None_eq)
  then have ran: "ran ((o_map ow)(nm \<mapsto> ?c)) = insert ?c (ran (o_map ow))" by simp
  have out: "?c \<notin> ran (o_map ow)" "?c \<notin># held" "\<And>t. t \<in># o_tasks ow + rest \<Longrightarrow> task_owns t \<noteq> Some ?c"
    using ok by (auto simp: own_ok_def own_parts ran_def)
  then have none: "held_by ?c (o_tasks ow) = 0" "count held ?c = 0"
    by (auto simp: held_by_def filter_mset_eq_conv count_eq_zero_iff)
  have sel: "o_tasks ?ow = o_tasks ow" "o_map ?ow = (o_map ow)(nm \<mapsto> ?c)" "o_reg ?ow = (o_reg ow)(?c := False)"
      "o_next ?ow = Suc ?c" "o_name ?ow = (o_name ow)(?c := nm)" "o_refs ?ow = (o_refs ow)(?c := 2)"
    by (simp_all add: o_create_def Let_def)
  have "counts_ok (add_mset ?c held) ?ow"
    using ok none unfolding own_ok_def counts_ok_def sel ran by auto
  moreover have "entries_ok ?ow"
  proof -
    have old: "c < ?c \<and> o_name ow c = x" if "o_map ow x = Some c" for x c
      using ok that by (simp add: own_ok_def entries_ok_def)
    have "inj_on ((o_name ow)(?c := nm)) (insert ?c {..<?c})"
      using ok new by (subst inj_on_insert) (auto simp: own_ok_def entries_ok_def inj_on_def)
    moreover have "c < Suc ?c \<and> ((o_name ow)(?c := nm)) c = x" if "((o_map ow)(nm \<mapsto> ?c)) x = Some c" for x c
      using old [of x c] that by (cases "x = nm") auto
    ultimately show ?thesis unfolding entries_ok_def sel lessThan_Suc by blast
  qed
  moreover have "anchors_ok rest ?ow" "tasks_ok rest ?ow" "held_ok (add_mset ?c held) rest ?ow"
    using ok unfolding own_ok_def anchors_ok_def tasks_ok_def held_ok_def sel ran by (auto simp: less_Suc_eq)
  moreover have "establish_ok rest ?ow"
    using ok unfolding own_ok_def establish_ok_def sel ran by auto
  ultimately show ?thesis by (simp add: own_ok_def)
qed

end
