(* ===== verification/Descriptors.thy ===== *)
theory Descriptors
  imports EventLoop
begin

text \<open>
  Descriptors and the channels that own them, for all loops at once. Every live channel has an open
  descriptor of its own, every loop an epoll descriptor of its own, and the registries of all loops
  agree with the kernel. The operations that open, close, register and remove keep this.
\<close>

section \<open>The invariant\<close>

definition epfd :: "loop_ptr \<Rightarrow> ('k, 'z) reactor_scheme \<Rightarrow> fd" where
  "epfd l s = pl_epollfd (el_poller (loops s l))"

text \<open>\<^term>\<open>L\<close> are the loops and \<^term>\<open>P\<close> the channels of live objects.\<close>

definition descriptors_ok ::
  "('k \<Rightarrow> fd \<Rightarrow> fd \<rightharpoonup> epoll_event) \<Rightarrow> ('k \<Rightarrow> fd set) \<Rightarrow> loop_ptr set \<Rightarrow> chan_ptr set \<Rightarrow> ('k, 'z) reactor_scheme \<Rightarrow> bool" where
  "descriptors_ok interest opened L P s \<longleftrightarrow>
     (\<forall>p \<in> P. ch_fd (chan s p) \<in> opened (kern s) \<and> ch_loop (chan s p) \<in> L) \<and> inj_on (\<lambda>p. ch_fd (chan s p)) P \<and>
     (\<forall>p. p \<notin> P \<longrightarrow> ch_index (chan s p) = kNew) \<and> (\<forall>l \<in> L. registry_ok interest l s) \<and>
     inj_on (\<lambda>l. epfd l s) L \<and> (\<forall>l \<in> L. epfd l s \<in> opened (kern s) \<and> (\<forall>p \<in> P. ch_fd (chan s p) \<noteq> epfd l s))"

lemma registered_live:
  assumes "descriptors_ok interest opened L P s" and "l \<in> L" and "pl_channels (el_poller (loops s l)) f = Some p"
  shows "p \<in> P" and "ch_fd (chan s p) = f" and "ch_loop (chan s p) = l"
proof -
  have m: "map_ok l s" using assms(1,2) by (simp add: descriptors_ok_def registry_ok_def)
  show "ch_fd (chan s p) = f" "ch_loop (chan s p) = l" using map_okD(1) [OF m assms(3)] by auto
  have "ch_index (chan s p) \<noteq> kNew" using map_okD(1) [OF m assms(3)] by auto
  with assms(1) show "p \<in> P" unfolding descriptors_ok_def by blast
qed

lemma live_registrable:
  assumes ok: "descriptors_ok interest opened L P s" and p: "p \<in> P"
  shows "registrable (ch_loop (chan s p)) p s"
proof -
  let ?l = "ch_loop (chan s p)"
  have l: "?l \<in> L" and inj: "inj_on (\<lambda>p. ch_fd (chan s p)) P" using ok p by (auto simp: descriptors_ok_def)
  have "pl_channels (el_poller (loops s ?l)) (ch_fd (chan s p)) = None" if new: "ch_index (chan s p) = kNew"
  proof (rule ccontr)
    assume "\<not> ?thesis"
    then obtain q where q: "pl_channels (el_poller (loops s ?l)) (ch_fd (chan s p)) = Some q" by blast
    have "map_ok ?l s" using ok l by (simp add: descriptors_ok_def registry_ok_def)
    then have "ch_index (chan s q) \<noteq> kNew" using map_okD(1) [OF _ q] by auto
    moreover have "q = p" using registered_live [OF ok l q] p inj by (auto dest: inj_onD)
    ultimately show False using new by simp
  qed
  then show ?thesis by (simp add: registrable_def)
qed

section \<open>What keeps it\<close>

lemma descriptors_cong:
  assumes "\<And>p. ch_fd (chan s' p) = ch_fd (chan s p)" "\<And>p. ch_loop (chan s' p) = ch_loop (chan s p)"
    "\<And>p. ch_index (chan s' p) = ch_index (chan s p)" "\<And>p. ch_events (chan s' p) = ch_events (chan s p)"
    "\<And>l. pl_channels (el_poller (loops s' l)) = pl_channels (el_poller (loops s l))"
    "\<And>l. pl_epollfd (el_poller (loops s' l)) = pl_epollfd (el_poller (loops s l))"
    "interest (kern s') = interest (kern s)" "opened (kern s') = opened (kern s)"
  shows "descriptors_ok interest opened L P s' = descriptors_ok interest opened L P s"
proof -
  have "registry_ok interest l s' = registry_ok interest l s" for l by (rule registry_ok_cong) (simp_all add: assms)
  then show ?thesis by (simp add: descriptors_ok_def epfd_def assms)
qed

text \<open>A change at a channel of one loop does not concern the others.\<close>

lemma registry_elsewhere:
  assumes "registry_ok interest l s" and "\<And>q. q \<noteq> p \<Longrightarrow> chan s' q = chan s q"
    and "ch_loop (chan s p) \<noteq> l" and "ch_loop (chan s' p) \<noteq> l"
    and "el_poller (loops s' l) = el_poller (loops s l)" and "interest (kern s') (epfd l s) = interest (kern s) (epfd l s)"
  shows "registry_ok interest l s'"
proof -
  have m: "map_ok l s" and i: "interest (kern s) (epfd l s) = watched (el_poller (loops s l)) (chan s)"
    using assms(1) by (simp_all add: registry_ok_def epfd_def)
  have ne: "q \<noteq> p" if "pl_channels (el_poller (loops s l)) f = Some q" for f q
    using map_okD(1) [OF m that] assms(3) by auto
  have "chan s' q = chan s q" if "ch_loop (chan s' q) = l" for q using assms(2) [of q] assms(4) that by (cases "q = p") auto
  with m assms(2,5) ne have "map_ok l s'" unfolding map_ok_def by (metis assms(2))
  moreover have "watched (el_poller (loops s l)) (chan s') = watched (el_poller (loops s l)) (chan s)"
    using ne assms(2) by (auto simp: watched_def fun_eq_iff split: option.splits)
  ultimately show ?thesis using i assms(5,6) by (simp add: registry_ok_def epfd_def)
qed

lemma poller_update_elsewhere:
  assumes "epoll_ctl_contract os interest" and "ep \<noteq> epfd l s"
  shows "interest (kern (EpollPoller_update os l opn p s)) ep = interest (kern s) ep"
proof -
  obtain r e k' where c: "sys_epoll_ctl os (epfd l s) opn (ch_fd (chan s p))
      \<lparr>ev_events = ch_events (chan s p), ev_ptr = Some p\<rparr> (kern s) = ((r, e), k')"
    by (metis surj_pair)
  have "interest k' ep = interest (kern s) ep"
    using assms(1) [unfolded epoll_ctl_contract_def, rule_format, OF c] assms(2) by (auto simp: Let_def split: if_splits)
  with c show ?thesis by (simp add: EpollPoller_update_def epfd_def Let_def)
qed

lemma poller_update_opened:
  assumes "descriptor_contract os interest opened"
  shows "opened (kern (EpollPoller_update os l opn p s)) = opened (kern s)"
  using assms unfolding descriptor_contract_def EpollPoller_update_def Let_def
  by (simp split: prod.split) (metis snd_conv)

lemma update_effects:
  fixes s :: "('k, 'z) reactor_scheme" and p :: chan_ptr and os :: "'k os"
  assumes "epoll_ctl_contract os interest" and "descriptor_contract os interest opened"
  defines "s' \<equiv> Channel_update os p s"
  shows "opened (kern s') = opened (kern s)" and "ch_fd (chan s' q) = ch_fd (chan s q)"
    and "ch_loop (chan s' q) = ch_loop (chan s q)" and "q \<noteq> p \<Longrightarrow> chan s' q = chan s q"
    and "epfd x s' = epfd x s" and "x \<noteq> ch_loop (chan s p) \<Longrightarrow> el_poller (loops s' x) = el_poller (loops s x)"
    and "ep \<noteq> epfd (ch_loop (chan s p)) s \<Longrightarrow> interest (kern s') ep = interest (kern s) ep"
  by (simp_all add: s'_def poller_update_opened [OF assms(2)] poller_update_elsewhere [OF assms(1)] Channel_update_def EventLoop_updateChannel_def updateChannel_chan updateChannel_loops
      EpollPoller_updateChannel_def epfd_def Let_def)

lemma remove_effects:
  fixes s :: "('k, 'z) reactor_scheme" and p :: chan_ptr and os :: "'k os"
  assumes "epoll_ctl_contract os interest" and "descriptor_contract os interest opened"
  defines "s' \<equiv> Channel_remove os p s"
  shows "opened (kern s') = opened (kern s)" and "ch_fd (chan s' q) = ch_fd (chan s q)"
    and "ch_loop (chan s' q) = ch_loop (chan s q)" and "q \<noteq> p \<Longrightarrow> chan s' q = chan s q"
    and "epfd x s' = epfd x s" and "x \<noteq> ch_loop (chan s p) \<Longrightarrow> el_poller (loops s' x) = el_poller (loops s x)"
    and "ep \<noteq> epfd (ch_loop (chan s p)) s \<Longrightarrow> interest (kern s') ep = interest (kern s) ep"
  by (simp_all add: s'_def poller_update_opened [OF assms(2)] poller_update_elsewhere [OF assms(1)] Channel_remove_def EventLoop_removeChannel_def removeChannel_chan removeChannel_loops
      EpollPoller_removeChannel_def epfd_def Let_def)

text \<open>A step at one live channel that keeps the registry of its loop keeps the invariant.\<close>

lemma descriptors_at_channel:
  fixes s s' :: "('k, 'z) reactor_scheme"
  assumes ok: "descriptors_ok interest opened L P s" and p: "p \<in> P" and reg: "registry_ok interest (ch_loop (chan s p)) s'"
    and opened: "opened (kern s') = opened (kern s)"
    and fd: "\<And>q. ch_fd (chan s' q) = ch_fd (chan s q)" and loop: "\<And>q. ch_loop (chan s' q) = ch_loop (chan s q)"
    and other: "\<And>q. q \<noteq> p \<Longrightarrow> chan s' q = chan s q" and ep: "\<And>x. epfd x s' = epfd x s"
    and pl: "\<And>x. x \<noteq> ch_loop (chan s p) \<Longrightarrow> el_poller (loops s' x) = el_poller (loops s x)"
    and int: "\<And>e. e \<noteq> epfd (ch_loop (chan s p)) s \<Longrightarrow> interest (kern s') e = interest (kern s) e"
  shows "descriptors_ok interest opened L P s'"
proof -
  let ?l = "ch_loop (chan s p)"
  have l: "?l \<in> L" and inj: "inj_on (\<lambda>l. epfd l s) L" using ok p by (auto simp: descriptors_ok_def)
  have "registry_ok interest x s'" if x: "x \<in> L" for x
  proof (cases "x = ?l")
    case False
    have "epfd x s \<noteq> epfd ?l s" using inj_onD [OF inj, of x ?l] x l False by auto
    moreover have "registry_ok interest x s" using ok x by (simp add: descriptors_ok_def)
    ultimately show ?thesis
      using False registry_elsewhere [of interest x s p s', OF _ other] pl [OF False] int [of "epfd x s"] loop [of p] by auto
  qed (use reg in simp)
  moreover have "ch_index (chan s' q) = kNew" if "q \<notin> P" for q
    using ok that p other [of q] unfolding descriptors_ok_def by metis
  ultimately show ?thesis using ok by (simp add: descriptors_ok_def fd loop ep opened)
qed

lemma descriptors_mask:
  fixes g :: "32 word \<Rightarrow> 32 word"
  assumes c: "epoll_ctl_contract os interest" "descriptor_contract os interest opened"
    and ok: "descriptors_ok interest opened L P s" and p: "p \<in> P"
  shows "descriptors_ok interest opened L P (Channel_update os p (Channel_set_events g p s))"
proof -
  let ?t = "Channel_set_events g p s"
  have reg: "registry_ok interest (ch_loop (chan s p)) s" using ok p by (auto simp: descriptors_ok_def)
  note r = change_interest_registry(1) [OF c(1) reg live_registrable [OF ok p], of g]
  show ?thesis
    using update_effects [OF c, where s = ?t and p = p]
    by (intro descriptors_at_channel [OF ok p r]) (simp_all add: epfd_def)
qed

lemma descriptors_remove:
  assumes c: "epoll_ctl_contract os interest" "descriptor_contract os interest opened"
    and ok: "descriptors_ok interest opened L P s" and p: "p \<in> P"
  shows "descriptors_ok interest opened L P (Channel_remove os p s)"
proof -
  have reg: "registry_ok interest (ch_loop (chan s p)) s" using ok p by (auto simp: descriptors_ok_def)
  show ?thesis
    using remove_effects [OF c, where s = s and p = p]
    by (intro descriptors_at_channel [OF ok p remove_registry(1) [OF c(1) reg live_registrable [OF ok p]]])
qed

section \<open>Opening and closing\<close>

definition unused :: "('k \<Rightarrow> fd set) \<Rightarrow> loop_ptr set \<Rightarrow> chan_ptr set \<Rightarrow> fd \<Rightarrow> ('k, 'z) reactor_scheme \<Rightarrow> bool" where
  "unused opened L P f s \<longleftrightarrow> f \<in> opened (kern s) \<and> (\<forall>p \<in> P. ch_fd (chan s p) \<noteq> f) \<and> (\<forall>l \<in> L. epfd l s \<noteq> f)"

lemma descriptors_opens:
  assumes ok: "descriptors_ok interest opened L P s" and o: "opens interest opened f (kern s) k'"
  shows "descriptors_ok interest opened L P (s\<lparr>kern := k'\<rparr>)" and "0 \<le> f \<Longrightarrow> unused opened L P f (s\<lparr>kern := k'\<rparr>)"
proof -
  have i: "interest k' = interest (kern s)" and sub: "opened (kern s) \<subseteq> opened k'"
    and new: "0 \<le> f \<Longrightarrow> f \<notin> opened (kern s) \<and> f \<in> opened k'"
    using o by (auto simp: opens_def split: if_splits)
  have "registry_ok interest l (s\<lparr>kern := k'\<rparr>) = registry_ok interest l s" for l
    by (rule registry_ok_cong) (simp_all add: i)
  with ok sub show "descriptors_ok interest opened L P (s\<lparr>kern := k'\<rparr>)" by (auto simp: descriptors_ok_def epfd_def)
  show "unused opened L P f (s\<lparr>kern := k'\<rparr>)" if "0 \<le> f"
    using ok new [OF that] by (auto simp: unused_def descriptors_ok_def epfd_def)
qed

lemma descriptors_forget:
  assumes ok: "descriptors_ok interest opened L P s" and p: "p \<in> P" "ch_index (chan s p) = kNew"
  shows "descriptors_ok interest opened L (P - {p}) s" and "unused opened L (P - {p}) (ch_fd (chan s p)) s"
proof -
  have "inj_on (\<lambda>q. ch_fd (chan s q)) P" using ok by (simp add: descriptors_ok_def)
  then have "inj_on (\<lambda>q. ch_fd (chan s q)) (P - {p})" and ne: "\<And>q. q \<in> P - {p} \<Longrightarrow> ch_fd (chan s q) \<noteq> ch_fd (chan s p)"
    using p(1) by (auto simp: inj_on_def)
  with ok p show "descriptors_ok interest opened L (P - {p}) s" unfolding descriptors_ok_def by blast
  have "ch_fd (chan s p) \<in> opened (kern s)" "\<And>l. l \<in> L \<Longrightarrow> epfd l s \<noteq> ch_fd (chan s p)"
    using ok p(1) unfolding descriptors_ok_def by metis+
  with ne show "unused opened L (P - {p}) (ch_fd (chan s p)) s" unfolding unused_def by blast
qed

lemma descriptors_close:
  assumes c: "descriptor_contract os interest opened"
    and ok: "descriptors_ok interest opened L P s" and un: "unused opened L P f s"
  shows "descriptors_ok interest opened L P (s\<lparr>kern := sys_close os f (kern s)\<rparr>)" (is "descriptors_ok interest opened L _ ?s")
proof -
  have op: "opened (kern ?s) = opened (kern s) - {f}"
    and int: "\<And>ep. ep \<noteq> f \<Longrightarrow> interest (kern ?s) ep = (interest (kern s) ep)(f := None)"
    using c by (auto simp: descriptor_contract_def)
  have other: "\<And>p. p \<in> P \<Longrightarrow> ch_fd (chan s p) \<noteq> f" "\<And>l. l \<in> L \<Longrightarrow> epfd l s \<noteq> f" using un by (auto simp: unused_def)
  have "registry_ok interest l ?s" if l: "l \<in> L" for l
  proof -
    have m: "map_ok l s" and w: "interest (kern s) (epfd l s) = watched (el_poller (loops s l)) (chan s)"
      using ok l by (auto simp: descriptors_ok_def registry_ok_def epfd_def)
    have "pl_channels (el_poller (loops s l)) f = None"
      using registered_live [OF ok l, of f] other(1) by (cases "pl_channels (el_poller (loops s l)) f") blast+
    then have "interest (kern s) (epfd l s) f = None" by (simp add: w watched_def)
    then have "interest (kern ?s) (epfd l s) = interest (kern s) (epfd l s)" using int [OF other(2) [OF l]] by (simp add: fun_upd_idem)
    with m w show ?thesis by (simp add: registry_ok_def map_ok_def epfd_def)
  qed
  then show ?thesis using ok op other by (simp add: descriptors_ok_def epfd_def)
qed

text \<open>A new channel for an unused descriptor.\<close>

lemma descriptors_channel:
  fixes s s' :: "('k, 'z) reactor_scheme"
  assumes ok: "descriptors_ok interest opened L P s" and p: "p \<notin> P" and un: "unused opened L P (ch_fd c) s"
    and ch: "chan s' = (chan s)(p := c)" "ch_index c = kNew" "ch_loop c \<in> L"
    and fr: "kern s' = kern s" "\<And>l. el_poller (loops s' l) = el_poller (loops s l)"
  shows "descriptors_ok interest opened L (insert p P) s'"
proof -
  have old: "ch_index (chan s p) = kNew" using ok p by (simp add: descriptors_ok_def)
  have "registry_ok interest l s'" if "l \<in> L" for l
  proof -
    have r: "registry_ok interest l s" using ok that by (simp add: descriptors_ok_def)
    then have m: "map_ok l s" by (simp add: registry_ok_def)
    have ne: "pl_channels (el_poller (loops s l)) f \<noteq> Some p" for f using map_okD(1) [OF m, of f p] old by auto
    have "map_ok l s'"
      using m ne ch(2) unfolding map_ok_def ch(1) fr by (auto simp: fun_upd_def)
    moreover have "watched (el_poller (loops s l)) (chan s') = watched (el_poller (loops s l)) (chan s)"
      using ne by (auto simp: watched_def ch(1) fun_eq_iff split: option.splits)
    ultimately show ?thesis using r by (simp add: registry_ok_def fr)
  qed
  moreover have "inj_on (\<lambda>q. ch_fd (chan s' q)) (insert p P)"
    using ok p un by (auto simp: descriptors_ok_def unused_def ch(1) inj_on_def)
  ultimately show ?thesis
    using ok p un ch by (auto simp: descriptors_ok_def unused_def epfd_def fr)
qed

text \<open>A new loop with a poller of its own. A new poller has a fresh epoll descriptor and watches nothing.\<close>

definition fresh_poller ::
  "('k \<Rightarrow> fd \<Rightarrow> fd \<rightharpoonup> epoll_event) \<Rightarrow> ('k \<Rightarrow> fd set) \<Rightarrow> ('k \<Rightarrow> (poller \<times> 'k) result) \<Rightarrow> bool" where
  "fresh_poller interest opened newDefaultPoller \<longleftrightarrow> (\<forall>k pl k'. newDefaultPoller k = Inr (pl, k') \<longrightarrow>
     pl_channels pl = Map.empty \<and> pl_epollfd pl \<notin> opened k \<and> opened k' = insert (pl_epollfd pl) (opened k) \<and>
     interest k' = (interest k)(pl_epollfd pl := Map.empty))"

lemma descriptors_loop:
  fixes s s' :: "('k, 'z) reactor_scheme"
  assumes ok: "descriptors_ok interest opened L P s" and np: "fresh_poller interest opened newDefaultPoller"
    and pl: "newDefaultPoller (kern s) = Inr (pl, kern s')" and l: "l \<notin> L"
    and s': "chan s' = chan s" "loops s' = (loops s)(l := e)" "el_poller e = pl"
  shows "descriptors_ok interest opened (insert l L) P s'"
proof -
  have e: "pl_channels pl = Map.empty" "pl_epollfd pl \<notin> opened (kern s)"
      "opened (kern s') = insert (pl_epollfd pl) (opened (kern s))"
      "interest (kern s') = (interest (kern s))(pl_epollfd pl := Map.empty)"
    using np pl unfolding fresh_poller_def by blast+
  have ep: "epfd x s' = (if x = l then pl_epollfd pl else epfd x s)" for x by (simp add: epfd_def s')
  have old: "x \<in> L \<Longrightarrow> epfd x s \<noteq> pl_epollfd pl" for x using ok e(2) by (auto simp: descriptors_ok_def)
  have fds: "p \<in> P \<Longrightarrow> ch_fd (chan s p) \<noteq> pl_epollfd pl \<and> ch_loop (chan s p) \<noteq> l" for p
    using ok e(2) l by (auto simp: descriptors_ok_def)
  have "registry_ok interest x s'" if x: "x \<in> insert l L" for x
  proof (cases "x = l")
    case True
    have "ch_index (chan s p) = kNew" if "ch_loop (chan s p) = l" for p
      using ok fds that unfolding descriptors_ok_def by metis
    with True show ?thesis by (simp add: registry_ok_def map_ok_def s' e watched_def [abs_def])
  next
    case False
    with ok x old [of x] show ?thesis
      by (auto simp: descriptors_ok_def registry_ok_def map_ok_def s' e epfd_def)
  qed
  moreover have "inj_on (\<lambda>x. epfd x s') (insert l L)"
    using ok l old unfolding ep descriptors_ok_def inj_on_def by (metis insert_iff)
  ultimately show ?thesis
    using ok fds by (auto simp: descriptors_ok_def ep e s')
qed

end
