(* ===== verification/Lifetime.thy ===== *)
theory Lifetime
  imports Confinement Ownership Descriptors
begin

text \<open>
  The lifetime of connections. The state of the server is abstracted to the ownership machine of
  \<open>Ownership\<close>; the invariant \<open>safe\<close> adds how objects are wired to each other. The building blocks
  of the handlers, from \<^verbatim>\<open>queueInLoop\<close> to \<^verbatim>\<open>update\<close> and \<^verbatim>\<open>remove\<close> of a channel, are moves of the
  machine and keep the invariant.
\<close>

section \<open>Abstraction\<close>

definition loops_of :: "('k, 'z) server_scheme \<Rightarrow> loop_ptr set" where
  "loops_of s = insert (sv_loop s) (set (tp_loops (sv_threadPool s)))"

definition all_pending :: "('k, 'z) server_scheme \<Rightarrow> task multiset" where
  "all_pending s = (\<Sum>l \<in> loops_of s. mset (el_pendingFunctors (loops s l)))"

definition ownership_of :: "('k, 'z) server_scheme \<Rightarrow> ownership" where
  "ownership_of s = \<lparr>o_refs = refs s, o_map = sv_connections s, o_tasks = all_pending s,
     o_reg = (\<lambda>c. ch_index (chan s (ConnChannel c)) \<noteq> kNew), o_next = next_conn s,
     o_name = (\<lambda>c. tc_name (conns s c))\<rparr>"

lemma ownership_of_sel [simp]:
  "o_refs (ownership_of s) = refs s" "o_map (ownership_of s) = sv_connections s"
  "o_tasks (ownership_of s) = all_pending s" "o_reg (ownership_of s) c \<longleftrightarrow> ch_index (chan s (ConnChannel c)) \<noteq> kNew"
  "o_next (ownership_of s) = next_conn s" "o_name (ownership_of s) c = tc_name (conns s c)"
  by (simp_all add: ownership_of_def)

section \<open>Wiring\<close>

text \<open>What is set once and for all: the callbacks of channels and connections, the loop of each
  connection, names and ids.\<close>

definition conn_wired :: "loop_ptr set \<Rightarrow> conn_ptr \<Rightarrow> ('k, 'z) server_scheme \<Rightarrow> bool" where
  "conn_wired L c s \<longleftrightarrow> (let tc = conns s c; ch = chan s (ConnChannel c) in
     tc_loop tc \<in> L \<and> tc_connectionCallback tc \<noteq> None \<and> tc_messageCallback tc \<noteq> None \<and>
     tc_closeCallback tc = Some Bind_TcpServer_removeConnection \<and>
     tc_name tc = connName (sv_name s) (sv_ipPort s) (int c + 1) \<and> ch_loop ch = tc_loop tc \<and>
     ch_readCallback ch = Some (Bind_TcpConnection_handleRead c) \<and>
     ch_writeCallback ch = Some (Bind_TcpConnection_handleWrite c) \<and>
     ch_closeCallback ch = Some (Bind_TcpConnection_handleClose c) \<and>
     ch_errorCallback ch = Some (Bind_TcpConnection_handleError c) \<and>
     (ch_index ch \<noteq> kNew \<or> tc_state tc = kConnected \<longrightarrow> ch_tied ch \<and> ch_tie ch = Some c) \<and>
     buffer_ok (tc_inputBuffer tc) \<and> buffer_ok (tc_outputBuffer tc))"

definition reader_only :: "event_callback \<Rightarrow> channel \<Rightarrow> bool" where
  "reader_only cb ch \<longleftrightarrow> \<not> ch_tied ch \<and> ch_readCallback ch \<in> {None, Some cb} \<and> ch_writeCallback ch = None \<and>
     ch_closeCallback ch = None \<and> ch_errorCallback ch = None"

fun known :: "loop_ptr set \<Rightarrow> conn_ptr \<Rightarrow> chan_ptr \<Rightarrow> bool" where
  "known L n (WakeupChannel l) \<longleftrightarrow> l \<in> L"
| "known L n AcceptChannel \<longleftrightarrow> True"
| "known L n (ConnChannel c) \<longleftrightarrow> c < n"

definition names_numbered :: "('k, 'z) server_scheme \<Rightarrow> bool" where
  "names_numbered s \<longleftrightarrow> length (sv_ipPort s) \<le> 21 \<and> sv_nextConnId s = int (next_conn s) + 1 \<and>
     sv_nextConnId s \<le> 2147483647"

text \<open>A connection is established and destroyed by its own loop, and removed from the map by the loop of the server.\<close>

definition placed :: "loop_ptr set \<Rightarrow> ('k, 'z) server_scheme \<Rightarrow> bool" where
  "placed L s \<longleftrightarrow> (\<forall>l \<in> L. (Bind_listen \<in> set (el_pendingFunctors (loops s l)) \<longrightarrow> sv_loop s = l) \<and>
     (\<forall>c. (Bind_connectDestroyed c \<in> set (el_pendingFunctors (loops s l)) \<longrightarrow> tc_loop (conns s c) = l) \<and>
       (Bind_connectEstablished c \<in> set (el_pendingFunctors (loops s l)) \<longrightarrow> tc_loop (conns s c) = l) \<and>
       (Bind_removeConnectionInLoop c \<in> set (el_pendingFunctors (loops s l)) \<longrightarrow> sv_loop s = l)))"

text \<open>The wakeup channel of a loop watches its \<^verbatim>\<open>eventfd\<close> for reading.\<close>

definition wakeup_watched :: "loop_ptr \<Rightarrow> ('k, 'z) reactor_scheme \<Rightarrow> bool" where
  "wakeup_watched l s \<longleftrightarrow> (let ch = chan s (WakeupChannel l) in el_wakeupFd (loops s l) = ch_fd ch \<and> ch_loop ch = l \<and>
     ch_events ch = kReadEvent \<and> ch_index ch = kAdded)"

definition wired :: "'k view \<Rightarrow> ('k, 'z) server_scheme \<Rightarrow> bool" where
  "wired v s \<longleftrightarrow> loops_of s = v_loops v \<and> pool_ok (sv_threadPool s) \<and> tp_baseloop (sv_threadPool s) = sv_loop s \<and>
     cur_tid s = v_me v \<and> (\<forall>l. el_threadId (loops s l) = v_tid v l) \<and>
     sv_connectionCallback s \<noteq> None \<and> sv_messageCallback s \<noteq> None \<and> names_numbered s \<and>
     sv_loop s = v_main v \<and> ch_loop (chan s AcceptChannel) = v_main v \<and>
     (\<forall>c < next_conn s. conn_wired (v_loops v) c s) \<and> reader_only Bind_Acceptor_handleRead (chan s AcceptChannel) \<and>
     (\<forall>l \<in> v_loops v. reader_only (Bind_EventLoop_handleRead l) (chan s (WakeupChannel l))) \<and>
     (\<forall>l \<in> v_loops v. wakeup_watched l s) \<and>
     (\<forall>l \<in> v_loops v. \<forall>f p. pl_channels (el_poller (loops s l)) f = Some p \<longrightarrow> known (v_loops v) (next_conn s) p) \<and>
     placed (v_loops v) s"

text \<open>The channels of live objects have a descriptor each.\<close>

definition live :: "loop_ptr set \<Rightarrow> ('k, 'z) server_scheme \<Rightarrow> chan_ptr set" where
  "live L s = {p. known L (next_conn s) p \<and> (\<forall>c. p = ConnChannel c \<longrightarrow> refs s c \<noteq> 0)}"

definition descs :: "'k view \<Rightarrow> ('k, 'z) server_scheme \<Rightarrow> bool" where
  "descs v s \<longleftrightarrow> descriptors_ok (v_interest v) (v_open v) (v_loops v) (live (v_loops v) s) s"

text \<open>While the events of a connection's channel are handled, the connection is in focus: it is held,
  handled in its own thread, and its channel is in a poller. A channel in a list of active channels
  stays in the poller until the list is done.\<close>

definition safe :: "'k view \<Rightarrow> conn_ptr multiset \<Rightarrow> task multiset \<Rightarrow> ('k, 'z) server_scheme \<Rightarrow> bool" where
  "safe v held rest s \<longleftrightarrow> wired v s \<and> own_ok held rest (ownership_of s) \<and>
     (\<forall>c. v_focus v = Some c \<longrightarrow> c \<in># held \<and> v_me v = v_tid v (tc_loop (conns s c)) \<and>
        ch_index (chan s (ConnChannel c)) \<noteq> kNew) \<and>
     (\<forall>c l. v_pin v c = Some l \<longrightarrow> c < next_conn s \<and> tc_loop (conns s c) = l \<and> ch_index (chan s (ConnChannel c)) \<noteq> kNew) \<and>
     descs v s \<and> flows v s \<and> woken v s \<and> confined v s"

lemmas wiring_defs = wired_def conn_wired_def wakeup_watched_def names_numbered_def placed_def Let_def

section \<open>Outcomes\<close>

text \<open>The outcomes that are not ruled out: a buffer that would exceed the largest vector, \<^verbatim>\<open>LOG_FATAL\<close>, and
  the end of the connection ids. A dangling pointer, an expired \<^verbatim>\<open>shared_from_this\<close>, the call of an empty
  function and an access outside a buffer are.\<close>

fun allowed :: "exc \<Rightarrow> bool" where
  "allowed LengthError = True"
| "allowed (FatalExit m) = True"
| "allowed SignedOverflow = True"
| "allowed _ = False"

definition runs :: "('s \<Rightarrow> bool) \<Rightarrow> 's result \<Rightarrow> bool" where
  "runs P r \<longleftrightarrow> (case r of Inl e \<Rightarrow> allowed e | Inr s \<Rightarrow> P s)"

lemma runs_simps [simp]: "runs P (Inr s) \<longleftrightarrow> P s" "runs P (Inl e) \<longleftrightarrow> allowed e"
  by (simp_all add: runs_def)

lemma runs_then: "runs P m \<Longrightarrow> (\<And>s. P s \<Longrightarrow> runs Q (f s)) \<Longrightarrow> runs Q (and_then m f)"
  by (cases m) auto

lemma runs_mono: "runs P r \<Longrightarrow> (\<And>s. P s \<Longrightarrow> Q s) \<Longrightarrow> runs Q r"
  by (cases r) auto

lemma runs_for_each:
  "P xs s \<Longrightarrow> (\<And>x xs s. P (x # xs) s \<Longrightarrow> runs (P xs) (f x s)) \<Longrightarrow> runs (P []) (for_each f xs s)"
proof (induction xs arbitrary: s)
  case (Cons x xs)
  then show ?case by (auto intro!: runs_then [where P = "P xs"])
qed simp

section \<open>Steps of the handlers as moves\<close>

lemma loops_of_finite [simp]: "finite (loops_of s)"
  by (simp add: loops_of_def)

text \<open>What the program needs of the kernel: counts within what was asked for, and the contracts of epoll, of
  descriptors, of streams and of event counters for what the view observes.\<close>

definition kernel_ok :: "'k os \<Rightarrow> 'k view \<Rightarrow> bool" where
  "kernel_ok os v \<longleftrightarrow> readv_contract os \<and> (\<forall>f bs k. fst (fst (sys_write os f bs k)) \<le> int (length bs)) \<and>
     epoll_ctl_contract os (v_interest v) \<and> epoll_wait_contract os (v_interest v) \<and>
     descriptor_contract os (v_interest v) (v_open v) \<and> (\<forall>st. v_streams v = Some st \<longrightarrow> streams_ok os st) \<and> counters_ok os v"

lemma kernel_okI:
  "readv_contract os \<Longrightarrow> write_contract os wire \<Longrightarrow> epoll_ctl_contract os (v_interest v) \<Longrightarrow>
     epoll_wait_contract os (v_interest v) \<Longrightarrow> descriptor_contract os (v_interest v) (v_open v) \<Longrightarrow>
     (\<And>st. v_streams v = Some st \<Longrightarrow> streams_ok os st) \<Longrightarrow> counters_ok os v \<Longrightarrow> kernel_ok os v"
  unfolding kernel_ok_def write_contract_def by (metis prod.collapse)

lemma kernel_ok_view [simp]:
  "kernel_ok os (v\<lparr>v_focus := f\<rparr>) = kernel_ok os v" "kernel_ok os (v\<lparr>v_me := t\<rparr>) = kernel_ok os v"
  "kernel_ok os (v\<lparr>v_pin := m\<rparr>) = kernel_ok os v" "kernel_ok os (v\<lparr>v_hand := h\<rparr>) = kernel_ok os v"
  "kernel_ok os (v\<lparr>v_busy := B\<rparr>) = kernel_ok os v" "kernel_ok os (v\<lparr>v_start := sn\<rparr>) = kernel_ok os v"
  by (simp_all add: kernel_ok_def counters_ok_def)

lemma kernel_contracts:
  assumes "kernel_ok os v"
  shows "epoll_ctl_contract os (v_interest v)" "descriptor_contract os (v_interest v) (v_open v)"
  using assms by (simp_all add: kernel_ok_def)

lemma kernel_streams: "kernel_ok os v \<Longrightarrow> v_streams v = Some st \<Longrightarrow> streams_ok os st"
  by (simp add: kernel_ok_def)

lemma kernel_counters: "kernel_ok os v \<Longrightarrow> counters_ok os v"
  by (simp add: kernel_ok_def)

text \<open>Two kernel states with the same descriptors and interest lists.\<close>

definition same_fds :: "'k view \<Rightarrow> 'k \<Rightarrow> 'k \<Rightarrow> bool" where
  "same_fds v k k' \<longleftrightarrow> v_interest v k' = v_interest v k \<and> v_open v k' = v_open v k"

lemma same_fds_refl [simp]: "same_fds v k k"
  by (simp add: same_fds_def)

text \<open>The same descriptors and interest lists, and the same streams and counters outside a set of descriptors.\<close>

definition quiet :: "'k view \<Rightarrow> fd set \<Rightarrow> 'k \<Rightarrow> 'k \<Rightarrow> bool" where
  "quiet v G k k' \<longleftrightarrow> same_fds v k k' \<and> (\<forall>st. v_streams v = Some st \<longrightarrow> kept st G k k') \<and> counters_kept v G k k'"

lemma quiet_refl [simp]: "quiet v G k k"
  by (simp add: quiet_def)

lemma quiet_trans: "quiet v G k k1 \<Longrightarrow> quiet v G k1 k2 \<Longrightarrow> quiet v G k k2"
  by (auto simp: quiet_def same_fds_def intro: kept_trans counters_trans)

lemma quietD: "quiet v G k k' \<Longrightarrow> same_fds v k k'" "quiet v G k k' \<Longrightarrow> v_streams v = Some st \<Longrightarrow> kept st G k k'"
  "quiet v G k k' \<Longrightarrow> counters_kept v G k k'"
  by (simp_all add: quiet_def)

lemma kernel_fds:
  assumes "kernel_ok os v"
  shows "sys_time os k = (t, k') \<Longrightarrow> same_fds v k k'" "sys_read os f n k = (r, k') \<Longrightarrow> same_fds v k k'"
    "sys_readv os f lens k = (rd, k') \<Longrightarrow> same_fds v k k'" "sys_write os f bs k = (r, k') \<Longrightarrow> same_fds v k k'"
    "sys_shutdown_wr os f k = (t, k') \<Longrightarrow> same_fds v k k'" "sys_so_error os f k = (e, k') \<Longrightarrow> same_fds v k k'"
    "sys_listen os f n' k = (t, k') \<Longrightarrow> same_fds v k k'" "sys_getsockname os f k = (g, k') \<Longrightarrow> same_fds v k k'"
    "same_fds v k (sys_setsockopt os f opt x k)"
  using assms unfolding kernel_ok_def descriptor_contract_def quiet_calls_def same_fds_def
  by (metis prod.inject snd_conv)+

lemma kernel_quiet:
  assumes k: "kernel_ok os v"
  shows "sys_time os k = (t, k') \<Longrightarrow> quiet v {} k k'" "sys_read os f n k = (r, k') \<Longrightarrow> quiet v {f} k k'"
    "sys_readv os f lens k = (rd, k') \<Longrightarrow> quiet v {f} k k'" "sys_write os f bs k = (r, k') \<Longrightarrow> quiet v {f} k k'"
    "sys_shutdown_wr os f k = (t, k') \<Longrightarrow> quiet v {} k k'" "sys_so_error os f k = (e, k') \<Longrightarrow> quiet v {} k k'"
    "sys_listen os f n' k = (t, k') \<Longrightarrow> quiet v {} k k'" "sys_getsockname os f k = (g, k') \<Longrightarrow> quiet v {} k k'"
    "quiet v {} k (sys_setsockopt os f opt x k)"
  unfolding quiet_def
  by (auto dest: kernel_fds(1-8) [OF k] streams_quiet(1-5) [OF kernel_streams [OF k]] streams_local(1-3) [OF kernel_streams [OF k]]
        counters_quiet(1-6) [OF kernel_counters [OF k]] counters_local(1,2) [OF kernel_counters [OF k]]
      intro: kernel_fds(9) [OF k] streams_quiet(6) [OF kernel_streams [OF k]] counters_quiet(7) [OF kernel_counters [OF k]]
        counters_mono [OF counters_quiet(2) [OF kernel_counters [OF k]]])

text \<open>What leaves queues, owners, wiring, registrations and descriptors alone.\<close>

lemma descs_cong:
  fixes s s' :: "('k, 'z) server_scheme"
  assumes "\<And>p. ch_fd (chan s' p) = ch_fd (chan s p)" "\<And>p. ch_loop (chan s' p) = ch_loop (chan s p)"
    "\<And>p. ch_index (chan s' p) = ch_index (chan s p)" "\<And>p. ch_events (chan s' p) = ch_events (chan s p)"
    "\<And>l. pl_channels (el_poller (loops s' l)) = pl_channels (el_poller (loops s l))"
    "\<And>l. pl_epollfd (el_poller (loops s' l)) = pl_epollfd (el_poller (loops s l))"
    "same_fds v (kern s) (kern s')" and "\<And>c. refs s' c = 0 \<longleftrightarrow> refs s c = 0" "next_conn s' = next_conn s"
  shows "descs v s' = descs v s"
proof -
  have "live L s' = live L s" for L by (simp add: live_def assms)
  then show ?thesis using assms(7) unfolding descs_def same_fds_def by (simp add: descriptors_cong [of s' s] assms)
qed

lemma descs_view [simp]:
  "descs (v\<lparr>v_focus := f\<rparr>) s = descs v s" "descs (v\<lparr>v_me := t\<rparr>) s = descs v s" "descs (v\<lparr>v_pin := m\<rparr>) s = descs v s"
  "descs (v\<lparr>v_wake := wk\<rparr>) s = descs v s" "descs (v\<lparr>v_busy := B\<rparr>) s = descs v s"
  "descs (v\<lparr>v_start := sn\<rparr>) s = descs v s"
  by (simp_all add: descs_def)

lemma live_conn [simp]: "ConnChannel c \<in> live L s \<longleftrightarrow> c < next_conn s \<and> refs s c \<noteq> 0" "AcceptChannel \<in> live L s"
  by (simp_all add: live_def)

lemma safe_log [simp]: "safe v held rest (LOG_ERROR m n s) = safe v held rest s"
  by (simp add: safe_def wiring_defs loops_of_def ownership_of_def all_pending_def descs_cong [of "LOG_ERROR m n s" s]
      flows_eq [of "LOG_ERROR m n s" s] woken_eq [of "LOG_ERROR m n s" s]
      confined_eq [of "LOG_ERROR m n s" s])

lemma wired_kern [simp]: "wired v (s\<lparr>kern := k\<rparr>) = wired v s"
  by (simp add: wiring_defs loops_of_def)

lemma ownership_kern [simp]: "ownership_of (s\<lparr>kern := k\<rparr>) = ownership_of s"
  by (simp add: ownership_of_def all_pending_def loops_of_def)

lemma safe_kern: "quiet v {} (kern s) k \<Longrightarrow> safe v held rest (s\<lparr>kern := k\<rparr>) = safe v held rest s"
  by (simp add: safe_def quiet_def descs_cong [of "s\<lparr>kern := k\<rparr>" s] flows_eq [of "s\<lparr>kern := k\<rparr>" s] woken_eq [of "s\<lparr>kern := k\<rparr>" s]
      confined_eq [of "s\<lparr>kern := k\<rparr>" s])

lemma safe_kern_at:
  assumes ok: "safe v held rest s" and k: "quiet v G (kern s) k"
    and G: "\<And>c. c < next_conn s \<Longrightarrow> refs s c \<noteq> 0 \<Longrightarrow> ch_fd (chan s (ConnChannel c)) \<notin> G"
    and w: "woken v (s\<lparr>kern := k\<rparr>)"
  shows "safe v held rest (s\<lparr>kern := k\<rparr>)"
proof -
  have "flows v s" using ok by (simp add: safe_def)
  then have "flows v (s\<lparr>kern := k\<rparr>)" by (rule flows_cong [where G = G]) (use G quietD(2) [OF k] in auto)
  with ok w quietD(1) [OF k] show ?thesis
    by (simp add: safe_def descs_cong [of "s\<lparr>kern := k\<rparr>" s] confined_eq [of "s\<lparr>kern := k\<rparr>" s])
qed

text \<open>No two live channels share a descriptor; that of a loop's wakeup channel is its \<^verbatim>\<open>eventfd\<close>.\<close>

lemma wakeup_fd: "wired v s \<Longrightarrow> l \<in> v_loops v \<Longrightarrow> el_wakeupFd (loops s l) = ch_fd (chan s (WakeupChannel l))"
  unfolding wired_def wakeup_watched_def Let_def by blast

lemma fds_apart:
  fixes s :: "('k, 'z) server_scheme"
  assumes d: "descs v s" and c: "c < next_conn s" "refs s c \<noteq> 0"
  shows "d < next_conn s \<Longrightarrow> refs s d \<noteq> 0 \<Longrightarrow> d \<noteq> c \<Longrightarrow> ch_fd (chan s (ConnChannel d)) \<noteq> ch_fd (chan s (ConnChannel c))"
    and "wired v s \<Longrightarrow> l \<in> v_loops v \<Longrightarrow> el_wakeupFd (loops s l) \<noteq> ch_fd (chan s (ConnChannel c))"
proof -
  have inj: "p = q" if "p \<in> live (v_loops v) s" "q \<in> live (v_loops v) s" "ch_fd (chan s p) = ch_fd (chan s q)" for p q
    using d that by (auto simp: descs_def descriptors_ok_def dest: inj_onD)
  show "d < next_conn s \<Longrightarrow> refs s d \<noteq> 0 \<Longrightarrow> d \<noteq> c \<Longrightarrow> ch_fd (chan s (ConnChannel d)) \<noteq> ch_fd (chan s (ConnChannel c))"
    using inj [of "ConnChannel d" "ConnChannel c"] c by auto
  show "el_wakeupFd (loops s l) \<noteq> ch_fd (chan s (ConnChannel c))" if "wired v s" "l \<in> v_loops v"
    using inj [of "ConnChannel c" "WakeupChannel l"] c that(2) wakeup_fd [OF that] by (auto simp: live_def)
qed

lemma wakeup_apart:
  assumes "descs v s" and "wired v s" and "l \<in> v_loops v" "x \<in> v_loops v" "x \<noteq> l"
  shows "el_wakeupFd (loops s x) \<noteq> el_wakeupFd (loops s l)"
proof -
  have "inj_on (\<lambda>p. ch_fd (chan s p)) (live (v_loops v) s)" using assms(1) by (simp add: descs_def descriptors_ok_def)
  with assms(3-5) show ?thesis
    unfolding wakeup_fd [OF assms(2,3)] wakeup_fd [OF assms(2,4)] by (auto simp: live_def dest: inj_onD)
qed

text \<open>The connection in focus moves bytes between its buffers, its descriptor and its hand.\<close>

lemma safe_step:
  fixes s :: "('k, 'z) server_scheme"
  assumes ok: "safe v held rest s" and c: "v_focus v = Some c"
    and f: "tc_loop (f (conns s c)) = tc_loop (conns s c)" "tc_name (f (conns s c)) = tc_name (conns s c)"
    "tc_connectionCallback (f (conns s c)) = tc_connectionCallback (conns s c)"
    "tc_messageCallback (f (conns s c)) = tc_messageCallback (conns s c)"
    "tc_closeCallback (f (conns s c)) = tc_closeCallback (conns s c)" "tc_state (f (conns s c)) = tc_state (conns s c)"
    and buf: "buffer_ok (tc_inputBuffer (f (conns s c)))" "buffer_ok (tc_outputBuffer (f (conns s c)))"
    and k: "quiet v {ch_fd (chan s (ConnChannel c))} (kern s) k'"
    and fl: "conn_flow v h c (upd_conn c f (s\<lparr>kern := k'\<rparr>))"
  shows "safe (v\<lparr>v_hand := h\<rparr>) held rest (upd_conn c f (s\<lparr>kern := k'\<rparr>))"
proof -
  let ?s = "upd_conn c f (s\<lparr>kern := k'\<rparr>)"
  have eq: "tc_loop (conns ?s x) = tc_loop (conns s x)" "tc_name (conns ?s x) = tc_name (conns s x)"
    "tc_connectionCallback (conns ?s x) = tc_connectionCallback (conns s x)"
    "tc_messageCallback (conns ?s x) = tc_messageCallback (conns s x)"
    "tc_closeCallback (conns ?s x) = tc_closeCallback (conns s x)" "tc_state (conns ?s x) = tc_state (conns s x)" for x
    using f by simp_all
  have "buffer_ok (tc_inputBuffer (conns s x)) \<Longrightarrow> buffer_ok (tc_outputBuffer (conns s x)) \<Longrightarrow>
      buffer_ok (tc_inputBuffer (conns ?s x)) \<and> buffer_ok (tc_outputBuffer (conns ?s x))" for x
    using buf by (cases "x = c") simp_all
  then have cw: "conn_wired L x s \<Longrightarrow> conn_wired L x ?s" for L x
    unfolding conn_wired_def Let_def eq by simp
  have fr: "loops_of ?s = loops_of s" "placed L ?s = placed L s" "names_numbered ?s = names_numbered s"
    "ownership_of ?s = ownership_of s" for L
    unfolding loops_of_def placed_def names_numbered_def ownership_of_def all_pending_def eq by simp_all
  have d: "descs v s" and own: "own_ok held rest (ownership_of s)" using ok by (simp_all add: safe_def)
  have live: "c < next_conn s" "refs s c \<noteq> 0"
    using ok c own_alive(1) [OF own, of c] own by (auto simp: safe_def own_ok_def held_ok_def)
  have "descs v ?s = descs v s" by (rule descs_cong) (simp_all add: quietD(1) [OF k])
  moreover have "flows (v\<lparr>v_hand := h\<rparr>) ?s"
  proof (rule flows_step [OF _ c])
    show "flows v s" using ok by (simp add: safe_def)
  qed (use fl fds_apart(1) [OF d live] quietD(2) [OF k] in simp_all)
  moreover have "wired (v\<lparr>v_hand := h\<rparr>) s" using ok by (simp add: safe_def wired_def)
  moreover have "descs (v\<lparr>v_hand := h\<rparr>) s" using d by (simp add: descs_def)
  moreover have "woken v ?s"
  proof (rule woken_cong [where G = "{ch_fd (chan s (ConnChannel c))}"])
    show "woken v s" using ok by (simp add: safe_def)
  qed (use ok fds_apart(2) [OF d live] quietD(3) [OF k] in \<open>simp_all add: safe_def\<close>)
  moreover have "wakeup_watched l ?s = wakeup_watched l s" for l by (simp add: wakeup_watched_def)
  moreover have "confined v ?s"
  proof (rule confined_conn [where c = c])
    show "confined v s" "runs_in v (tc_loop (conns s c))" using ok c by (auto simp: safe_def runs_in_def)
  qed (use f in \<open>simp_all add: upd_conn_def\<close>)
  ultimately show ?thesis using ok cw unfolding safe_def wired_def fr eq by (simp add: descs_def)
qed

text \<open>The same for a change of the hand alone, and for a view without streams.\<close>

lemma safe_hand:
  fixes s :: "('k, 'z) server_scheme"
  assumes ok: "safe v held rest s" and c: "v_focus v = Some c" and fl: "conn_flow v h c s"
  shows "safe (v\<lparr>v_hand := h\<rparr>) held rest s"
proof -
  have "flows (v\<lparr>v_hand := h\<rparr>) s" using ok c fl by (intro flows_hand) (simp_all add: safe_def)
  with ok show ?thesis by (simp add: safe_def wired_def descs_def)
qed

lemma safe_step_kern:
  fixes s :: "('k, 'z) server_scheme"
  assumes ok: "safe v held rest s" and c: "v_focus v = Some c" and k: "quiet v {ch_fd (chan s (ConnChannel c))} (kern s) k'"
    and fl: "conn_flow v h c (s\<lparr>kern := k'\<rparr>)"
  shows "safe (v\<lparr>v_hand := h\<rparr>) held rest (s\<lparr>kern := k'\<rparr>)"
proof -
  have "upd_conn c (\<lambda>tc. tc) (s\<lparr>kern := k'\<rparr>) = s\<lparr>kern := k'\<rparr>" by (simp add: upd_conn_def)
  moreover have "c < next_conn s"
    using ok c by (auto simp: safe_def own_ok_def held_ok_def)
  then have "conn_wired (v_loops v) c s" using ok unfolding safe_def wired_def by blast
  then have "buffer_ok (tc_inputBuffer (conns s c))" "buffer_ok (tc_outputBuffer (conns s c))" by (simp_all add: conn_wired_def Let_def)
  ultimately show ?thesis using safe_step [OF ok c, of "\<lambda>tc. tc", OF _ _ _ _ _ _ _ _ k] fl by simp
qed

lemma view_same_hand: "v_hand v = h \<Longrightarrow> v\<lparr>v_hand := h\<rparr> = v"
  by (cases v) simp

lemma safe_flow:
  fixes s :: "('k, 'z) server_scheme"
  assumes "safe v held rest s" and "v_focus v = Some c" and "c < next_conn s" and "refs s c \<noteq> 0"
  shows "conn_flow v (v_hand v) c s"
proof -
  have "conn_flow v (hand_of v c) c s" using assms unfolding safe_def flows_def by blast
  with assms(2) show ?thesis by (simp add: hand_of_def)
qed

lemma setState_wiring [simp]:
  "tc_loop (conns (TcpConnection_setState c st s) x) = tc_loop (conns s x)"
  "tc_name (conns (TcpConnection_setState c st s) x) = tc_name (conns s x)"
  "tc_connectionCallback (conns (TcpConnection_setState c st s) x) = tc_connectionCallback (conns s x)"
  "tc_messageCallback (conns (TcpConnection_setState c st s) x) = tc_messageCallback (conns s x)"
  "tc_closeCallback (conns (TcpConnection_setState c st s) x) = tc_closeCallback (conns s x)"
  "tc_state (conns (TcpConnection_setState c st s) x) = (if x = c then st else tc_state (conns s x))"
  "tc_inputBuffer (conns (TcpConnection_setState c st s) x) = tc_inputBuffer (conns s x)"
  "tc_outputBuffer (conns (TcpConnection_setState c st s) x) = tc_outputBuffer (conns s x)"
  "chan (TcpConnection_setState c st s) = chan s" "loops (TcpConnection_setState c st s) = loops s"
  "refs (TcpConnection_setState c st s) = refs s" "kern (TcpConnection_setState c st s) = kern s" "cur_tid (TcpConnection_setState c st s) = cur_tid s"
  by (simp_all add: TcpConnection_setState_def)

lemma setState_server [simp]:
  fixes s :: "('k, 'z) server_scheme"
  shows "sv_loop (TcpConnection_setState c st s) = sv_loop s" "sv_ipPort (TcpConnection_setState c st s) = sv_ipPort s"
    "sv_name (TcpConnection_setState c st s) = sv_name s" "sv_threadPool (TcpConnection_setState c st s) = sv_threadPool s"
    "sv_connectionCallback (TcpConnection_setState c st s) = sv_connectionCallback s"
    "sv_messageCallback (TcpConnection_setState c st s) = sv_messageCallback s"
    "sv_nextConnId (TcpConnection_setState c st s) = sv_nextConnId s"
    "sv_connections (TcpConnection_setState c st s) = sv_connections s"
    "next_conn (TcpConnection_setState c st s) = next_conn s"
  by (simp_all add: TcpConnection_setState_def)

lemma confined_setState:
  fixes s :: "('k, 'z) server_scheme"
  shows "confined v s \<Longrightarrow> runs_in v (tc_loop (conns s c)) \<Longrightarrow> confined v (TcpConnection_setState c st s)"
  by (rule confined_conn [where c = c]) (simp_all add: TcpConnection_setState_def upd_conn_def)

lemma safe_setState:
  fixes s :: "('k, 'z) server_scheme"
  assumes "safe v held rest s" and "st \<noteq> kConnected" and "runs_in v (tc_loop (conns s c))"
  shows "safe v held rest (TcpConnection_setState c st s)"
  using assms descs_cong [of "TcpConnection_setState c st s" s v] flows_eq [of "TcpConnection_setState c st s" s v]
    woken_eq [of "TcpConnection_setState c st s" s v] confined_setState [OF _ assms(3), of st]
  by (auto simp: safe_def wiring_defs loops_of_def ownership_of_def all_pending_def simp del: not_None_eq)

lemma set_events_wiring [simp]:
  "ch_loop (chan (Channel_set_events g p s) q) = ch_loop (chan s q)"
  "ch_fd (chan (Channel_set_events g p s) q) = ch_fd (chan s q)"
  "ch_index (chan (Channel_set_events g p s) q) = ch_index (chan s q)"
  "ch_tie (chan (Channel_set_events g p s) q) = ch_tie (chan s q)"
  "ch_tied (chan (Channel_set_events g p s) q) = ch_tied (chan s q)"
  "ch_readCallback (chan (Channel_set_events g p s) q) = ch_readCallback (chan s q)"
  "ch_writeCallback (chan (Channel_set_events g p s) q) = ch_writeCallback (chan s q)"
  "ch_closeCallback (chan (Channel_set_events g p s) q) = ch_closeCallback (chan s q)"
  "ch_errorCallback (chan (Channel_set_events g p s) q) = ch_errorCallback (chan s q)"
  by simp_all

lemma wired_set_events [simp]:
  "wired v (Channel_set_events g (ConnChannel c) s) = wired v s" "wired v (Channel_set_events g AcceptChannel s) = wired v s"
proof -
  have "ch_events (chan (Channel_set_events g (ConnChannel c) s) (WakeupChannel l)) = ch_events (chan s (WakeupChannel l))"
    "ch_events (chan (Channel_set_events g AcceptChannel s) (WakeupChannel l)) = ch_events (chan s (WakeupChannel l))" for l
    by simp_all
  then show "wired v (Channel_set_events g (ConnChannel c) s) = wired v s" "wired v (Channel_set_events g AcceptChannel s) = wired v s"
    by (simp_all add: wiring_defs loops_of_def reader_only_def del: Channel_set_events_sel(6))
qed

lemma ownership_set_events [simp]: "ownership_of (Channel_set_events g p s) = ownership_of s"
  by (simp add: ownership_of_def all_pending_def loops_of_def del: Channel_set_events_sel(6))

text \<open>Pointers on the stack.\<close>

lemma ownership_retain [simp]: "ownership_of (retain c s) = o_retain c (ownership_of s)"
  by (simp add: ownership_of_def o_retain_def all_pending_def loops_of_def)

lemma ownership_release [simp]: "ownership_of (release os c s) = o_release c (ownership_of s)"
  by (simp add: ownership_of_def o_release_def all_pending_def loops_of_def)

lemma wired_own [simp]: "wired v (retain c s) = wired v s" "wired v (release os c s) = wired v s"
  by (simp_all add: wiring_defs loops_of_def)

lemma descs_retain: "refs s c \<noteq> 0 \<Longrightarrow> descs v (retain c s) = descs v s"
  by (rule descs_cong) simp_all

lemma flows_retain: "refs s c \<noteq> 0 \<Longrightarrow> flows v (retain c s) = flows v s"
  by (rule flows_eq) simp_all

lemma safe_retain:
  "safe v held rest s \<Longrightarrow> c < next_conn s \<Longrightarrow> refs s c \<noteq> 0 \<Longrightarrow> safe v (add_mset c held) rest (retain c s)"
  by (auto simp: safe_def descs_retain flows_retain woken_eq [of "retain c s" s] confined_eq [of "retain c s" s] intro: retain_ok)

text \<open>The last pointer closes the descriptor of a connection whose channel is in no poller.\<close>

lemma descs_release:
  fixes s :: "('k, 'z) server_scheme"
  assumes k: "kernel_ok os v" and ok: "descs v s" and c: "c < next_conn s" "refs s c \<noteq> 0"
    and last: "refs s c = 1 \<Longrightarrow> ch_index (chan s (ConnChannel c)) = kNew"
  shows "descs v (release os c s)"
proof (cases "refs s c = 1")
  case True
  let ?p = "ConnChannel c" and ?P = "live (v_loops v) s"
  let ?s = "s\<lparr>kern := sys_close os (ch_fd (chan s ?p)) (kern s)\<rparr>"
  note f = descriptors_forget [OF ok [unfolded descs_def], of ?p]
  have d: "descriptors_ok (v_interest v) (v_open v) (v_loops v) (?P - {?p}) ?s"
    using c last True by (intro descriptors_close [OF kernel_contracts(2) [OF k]] f) simp_all
  have "q \<in> live (v_loops v) (release os c s) \<longleftrightarrow> q \<in> ?P - {?p}" for q
    using True by (cases q) (simp_all add: live_def)
  then have "live (v_loops v) (release os c s) = ?P - {?p}" by blast
  moreover have "descriptors_ok (v_interest v) (v_open v) (v_loops v) Q (release os c s) =
      descriptors_ok (v_interest v) (v_open v) (v_loops v) Q ?s" for Q
    by (rule descriptors_cong) (simp_all add: release_def True TcpConnection_dtor_def Socket_dtor_def)
  ultimately show ?thesis using d by (simp add: descs_def)
next
  case False
  with c have "2 \<le> refs s c" by simp
  with ok show ?thesis using descs_cong [of "release os c s" s v] by (auto simp: release_kern)
qed

text \<open>A closed descriptor is of no living connection.\<close>

lemma flows_release:
  fixes s :: "('k, 'z) server_scheme"
  assumes k: "kernel_ok os v" and d: "descs v s" and c: "c < next_conn s" "refs s c \<noteq> 0" and ok: "flows v s"
  shows "flows v (release os c s)"
proof (rule flows_cong [OF ok, where G = "{ch_fd (chan s (ConnChannel c))} - {ch_fd (chan s (ConnChannel c)) | u :: unit. 2 \<le> refs s c}"])
  show "kept st ({ch_fd (chan s (ConnChannel c))} - {ch_fd (chan s (ConnChannel c)) | u :: unit. 2 \<le> refs s c})
      (kern s) (kern (release os c s))" if "v_streams v = Some st" for st
  proof (cases "refs s c = 1")
    case True
    then show ?thesis
      using streams_local(4) [OF kernel_streams [OF k that]] by (simp add: release_def TcpConnection_dtor_def Socket_dtor_def)
  next
    case False
    with c show ?thesis by (simp add: release_kern)
  qed
qed (use fds_apart(1) [OF d c] in \<open>auto split: if_splits\<close>)

lemma woken_release:
  fixes s :: "('k, 'z) server_scheme"
  assumes k: "kernel_ok os v" and d: "descs v s" "wired v s" and c: "c < next_conn s" "refs s c \<noteq> 0" and ok: "woken v s"
  shows "woken v (release os c s)"
proof (rule woken_cong [OF ok, where G = "{ch_fd (chan s (ConnChannel c))}"])
  show "counters_kept v {ch_fd (chan s (ConnChannel c))} (kern s) (kern (release os c s))"
  proof (cases "refs s c = 1")
    case True
    then show ?thesis
      using counters_local(3) [OF kernel_counters [OF k]] by (simp add: release_def TcpConnection_dtor_def Socket_dtor_def)
  next
    case False
    with c show ?thesis by (simp add: release_kern)
  qed
qed (use fds_apart(2) [OF d(1) c d(2)] in simp_all)

lemma held_ok_keep: "held_ok held rest ow0 \<Longrightarrow> own_ok (add_mset c held) rest ow \<Longrightarrow> held_ok held rest ow"
  by (auto simp: own_ok_def held_ok_def)

lemma safe_release:
  assumes k: "kernel_ok os v" and ok: "safe v (add_mset c held) rest s" and h: "held_ok held rest ow"
    and f: "v_focus v \<noteq> Some c \<or> c \<in># held"
  shows "safe v held rest (release os c s)"
proof -
  have own: "own_ok (add_mset c held) rest (ownership_of s)" using ok by (simp add: safe_def)
  have c: "c < next_conn s" "refs s c \<noteq> 0"
    using own own_alive(1) [OF own, of c] by (auto simp: own_ok_def held_ok_def)
  have after: "own_ok held rest (o_release c (ownership_of s))" by (rule release_ok [OF own held_ok_keep [OF h own]])
  have "ch_index (chan s (ConnChannel c)) = kNew" if "refs s c = 1"
    using own_alive(4) [OF after, of c] c that by (auto simp: o_release_def)
  then have "descs v (release os c s)" using ok c by (intro descs_release [OF k]) (auto simp: safe_def)
  moreover have "flows v (release os c s)" using ok c by (intro flows_release [OF k]) (auto simp: safe_def)
  moreover have "woken v (release os c s)" using ok c by (intro woken_release [OF k]) (auto simp: safe_def)
  ultimately show ?thesis using ok f after by (auto simp: safe_def confined_eq [of "release os c s" s])
qed

text \<open>Queues.\<close>

lemma all_pending_queue:
  assumes "l \<in> loops_of s"
  shows "all_pending (EventLoop_queueInLoop os l t s) = add_mset t (all_pending s)"
proof -
  have L: "loops_of (EventLoop_queueInLoop os l t s) = loops_of s" by (simp add: loops_of_def)
  show ?thesis
    unfolding all_pending_def L
    by (subst (1 2) sum.remove [OF loops_of_finite assms]) (simp add: sum.remove)
qed

lemma pending_all: "l \<in> loops_of s \<Longrightarrow> t \<in> set (el_pendingFunctors (loops s l)) \<Longrightarrow> t \<in># all_pending s"
  by (auto simp: all_pending_def sum.remove [OF loops_of_finite])

lemma pending_owner:
  "own_ok held rest (ownership_of s) \<Longrightarrow> t \<in># all_pending s + rest \<Longrightarrow> task_owns t = Some c \<Longrightarrow> c < next_conn s"
  by (simp add: own_ok_def tasks_ok_def)

lemma ownership_queue:
  "l \<in> loops_of s \<Longrightarrow> ownership_of (EventLoop_queueInLoop os l t s) = o_queue t (ownership_of s)"
  by (simp add: ownership_of_def o_queue_def o_retain_def all_pending_queue Let_def retain_task_def split: option.split)

lemma queue_wiring [simp]:
  "el_threadId (loops (EventLoop_queueInLoop os l t s) x) = el_threadId (loops s x)"
  "el_poller (loops (EventLoop_queueInLoop os l t s) x) = el_poller (loops s x)"
  "el_wakeupFd (loops (EventLoop_queueInLoop os l t s) x) = el_wakeupFd (loops s x)"
  by simp_all

lemma queue_pending [simp]:
  "el_pendingFunctors (loops (EventLoop_queueInLoop os l t s) x) = el_pendingFunctors (loops s x) @ (if x = l then [t] else [])"
  by simp

lemma wired_queue:
  assumes "wired v s" and "\<And>c. t = Bind_connectDestroyed c \<or> t = Bind_connectEstablished c \<Longrightarrow> tc_loop (conns s c) = l"
    and "t = Bind_listen \<or> (\<exists>c. t = Bind_removeConnectionInLoop c) \<Longrightarrow> v_main v = l"
  shows "wired v (EventLoop_queueInLoop os l t s)"
proof -
  have "placed (v_loops v) s" "sv_loop s = v_main v" using assms(1) unfolding wired_def by blast+
  then have p: "placed (v_loops v) (EventLoop_queueInLoop os l t s)"
    using assms(2,3) by (auto simp: placed_def simp del: queueInLoop_sel(5) split: if_splits)
  from assms(1) p show ?thesis
    by (auto simp: wired_def conn_wired_def wakeup_watched_def names_numbered_def Let_def loops_of_def del: queueInLoop_sel(5))
qed

lemma queue_kern: "kernel_ok os v \<Longrightarrow> quiet v {el_wakeupFd (loops s l)} (kern s) (kern (EventLoop_queueInLoop os l t s))"
  by (auto simp: EventLoop_queueInLoop_def EventLoop_wakeup_def Let_def retain_task_def
      split: prod.split option.split dest: kernel_quiet(4))

lemma descs_queue:
  assumes "kernel_ok os v" and "\<And>c. task_owns t = Some c \<Longrightarrow> refs s c \<noteq> 0"
  shows "descs v (EventLoop_queueInLoop os l t s) = descs v s"
  using assms(2) by (intro descs_cong quietD(1) [OF queue_kern [OF assms(1)]]) (auto simp: retain_task_def split: option.split)

lemma flows_queue:
  fixes s :: "('k, 'z) server_scheme"
  assumes k: "kernel_ok os v" and ok: "flows v s" and w: "wired v s" "descs v s" "l \<in> v_loops v"
    and own: "\<And>c. task_owns t = Some c \<Longrightarrow> refs s c \<noteq> 0"
  shows "flows v (EventLoop_queueInLoop os l t s)"
proof (rule flows_cong [OF ok, where G = "{el_wakeupFd (loops s l)}"])
  show live: "refs (EventLoop_queueInLoop os l t s) c \<noteq> 0 \<Longrightarrow> refs s c \<noteq> 0" for c
    using own by (auto simp: retain_task_def split: option.splits if_splits)
  show "c < next_conn s \<Longrightarrow> refs (EventLoop_queueInLoop os l t s) c \<noteq> 0 \<Longrightarrow>
      ch_fd (chan s (ConnChannel c)) \<notin> {el_wakeupFd (loops s l)}" for c
    using fds_apart(2) [OF w(2) _ live w(1,3)] by fastforce
qed (simp_all add: quietD(2) [OF queue_kern [OF k]])

lemma safe_queue_woken:
  assumes "kernel_ok os v" and ok: "safe v held rest s" and "l \<in> v_loops v"
  shows "woken v (EventLoop_queueInLoop os l t s)"
proof (rule woken_queue [OF kernel_counters [OF assms(1)] _ assms(3)])
  have d: "descs v s" "wired v s" using ok by (simp_all add: safe_def)
  then show "el_threadId (loops s l) = v_tid v l" "cur_tid s = v_me v" by (simp_all add: wired_def)
  show "x \<in> v_loops v \<Longrightarrow> x \<noteq> l \<Longrightarrow> el_wakeupFd (loops s x) \<noteq> el_wakeupFd (loops s l)" for x
    by (rule wakeup_apart [OF d assms(3)])
qed (use ok in \<open>simp add: safe_def\<close>)

lemma safe_queue:
  assumes k: "kernel_ok os v" and ok: "safe v held rest s" and "l \<in> v_loops v" and "\<not> raw_task t"
    and "\<And>c. task_owns t = Some c \<Longrightarrow> c < next_conn s" "\<And>c. task_owns t = Some c \<Longrightarrow> refs s c \<noteq> 0"
    and "\<And>c. t = Bind_connectEstablished c \<Longrightarrow> c \<in> ran (sv_connections s) \<and> ch_index (chan s (ConnChannel c)) = kNew \<and>
      \<not> leaving c (all_pending s + rest) \<and> t \<notin># all_pending s + rest"
    and "\<And>c. t = Bind_removeConnectionInLoop c \<or> t = Bind_connectDestroyed c \<Longrightarrow>
      Bind_connectEstablished c \<notin># all_pending s + rest" and "\<And>c. t \<noteq> Bind_connectDestroyed c"
    and home: "\<And>c. t = Bind_connectEstablished c \<Longrightarrow> tc_loop (conns s c) = l"
      "t = Bind_listen \<or> (\<exists>c. t = Bind_removeConnectionInLoop c) \<Longrightarrow> v_main v = l"
  shows "safe v held rest (EventLoop_queueInLoop os l t s)"
proof -
  have "l \<in> loops_of s" using ok assms(3) by (simp add: safe_def wired_def)
  moreover have "own_ok held rest (o_queue t (ownership_of s))"
    using assms by (intro queue_ok) (auto simp: safe_def)
  moreover have "woken v (EventLoop_queueInLoop os l t s)" by (rule safe_queue_woken [OF k ok assms(3)])
  ultimately show ?thesis
    using ok assms(3,9) home confined_queue [of v s] wired_queue [of v s t l os] descs_queue [OF k assms(6)] flows_queue [OF k _ _ _ assms(3,6)]
    by (simp add: safe_def ownership_queue)
qed

text \<open>Registration. \<^verbatim>\<open>update\<close> puts a channel into its poller, \<^verbatim>\<open>remove\<close> takes it out.\<close>

lemma update_index:
  "ch_index (chan (Channel_update os p s) q) \<noteq> kNew \<longleftrightarrow> q = p \<or> ch_index (chan s q) \<noteq> kNew"
  by (auto simp: Channel_update_def EventLoop_updateChannel_def updateChannel_chan index_consts)

lemma remove_index:
  "ch_index (chan (Channel_remove os p s) q) \<noteq> kNew \<longleftrightarrow> q \<noteq> p \<and> ch_index (chan s q) \<noteq> kNew"
  by (auto simp: Channel_remove_def EventLoop_removeChannel_def removeChannel_chan)

lemma update_registered:
  "pl_channels (el_poller (loops (Channel_update os p s) l)) f = Some q \<Longrightarrow>
     q = p \<or> pl_channels (el_poller (loops s l)) f = Some q"
  by (auto simp: Channel_update_def EventLoop_updateChannel_def updateChannel_loops split: if_splits)

lemma remove_registered:
  "pl_channels (el_poller (loops (Channel_remove os p s) l)) f = Some q \<Longrightarrow> pl_channels (el_poller (loops s l)) f = Some q"
  by (auto simp: Channel_remove_def EventLoop_removeChannel_def removeChannel_loops split: if_splits)

lemma wakeup_others:
  assumes "p \<noteq> WakeupChannel l"
  shows "wakeup_watched l (Channel_update os p s) = wakeup_watched l s" "wakeup_watched l (Channel_remove os p s) = wakeup_watched l s"
proof -
  have "chan (Channel_update os p s) (WakeupChannel l) = chan s (WakeupChannel l)"
    "chan (Channel_remove os p s) (WakeupChannel l) = chan s (WakeupChannel l)"
    using assms by (simp_all add: Channel_update_def EventLoop_updateChannel_def updateChannel_chan Channel_remove_def
        EventLoop_removeChannel_def removeChannel_chan)
  then show "wakeup_watched l (Channel_update os p s) = wakeup_watched l s" "wakeup_watched l (Channel_remove os p s) = wakeup_watched l s"
    by (simp_all add: wakeup_watched_def)
qed

lemma wired_update:
  assumes "wired v s" and "known (v_loops v) (next_conn s) p"
    and "\<And>c. p = ConnChannel c \<Longrightarrow> ch_tied (chan s p) \<and> ch_tie (chan s p) = Some c" and "\<And>l. p \<noteq> WakeupChannel l"
  shows "wired v (Channel_update os p s)"
  using assms
  by (auto simp: wired_def wakeup_others conn_wired_def names_numbered_def placed_def Let_def loops_of_def reader_only_def update_index
      simp del: not_None_eq dest!: update_registered)

lemma wired_remove: "wired v s \<Longrightarrow> (\<And>l. p \<noteq> WakeupChannel l) \<Longrightarrow> wired v (Channel_remove os p s)"
  by (auto simp: wired_def wakeup_others conn_wired_def names_numbered_def placed_def Let_def loops_of_def reader_only_def remove_index
      simp del: not_None_eq dest!: remove_registered)

lemma ownership_update:
  "ownership_of (Channel_update os p s) =
     (case p of ConnChannel c \<Rightarrow> o_set_reg c True (ownership_of s) | _ \<Rightarrow> ownership_of s)"
  by (auto simp: ownership_of_def o_set_reg_def all_pending_def loops_of_def update_index fun_eq_iff split: chan_ptr.split)

lemma ownership_remove:
  "ownership_of (Channel_remove os p s) =
     (case p of ConnChannel c \<Rightarrow> o_set_reg c False (ownership_of s) | _ \<Rightarrow> ownership_of s)"
  by (auto simp: ownership_of_def o_set_reg_def all_pending_def loops_of_def remove_index fun_eq_iff split: chan_ptr.split)

lemma safe_conn: "safe v held rest s \<Longrightarrow> c < next_conn s \<Longrightarrow> conn_wired (v_loops v) c s"
  unfolding safe_def wired_def by blast

lemma descs_mask:
  fixes g :: "32 word \<Rightarrow> 32 word"
  assumes k: "kernel_ok os v" and ok: "descs v s" and p: "p \<in> live (v_loops v) s"
  shows "descs v (Channel_update os p (Channel_set_events g p s))"
  using descriptors_mask [OF kernel_contracts [OF k] ok [unfolded descs_def] p] by (simp add: descs_def live_def)

lemma descs_remove:
  assumes k: "kernel_ok os v" and ok: "descs v s" and p: "p \<in> live (v_loops v) s"
  shows "descs v (Channel_remove os p s)"
  using descriptors_remove [OF kernel_contracts [OF k] ok [unfolded descs_def] p] by (simp add: descs_def live_def)

lemma safe_confined:
  fixes s :: "('k, 'z) server_scheme" and g :: "32 word \<Rightarrow> 32 word"
  assumes "safe v held rest s" and "c < next_conn s" and "runs_in v (tc_loop (conns s c))"
  shows "confined v (Channel_update os (ConnChannel c) (Channel_set_events g (ConnChannel c) s))"
    "confined v (Channel_remove os (ConnChannel c) s)"
proof -
  have "confined v s" "ch_loop (chan s (ConnChannel c)) = tc_loop (conns s c)"
    using assms(1) safe_conn [OF assms(1,2)] by (simp_all add: safe_def conn_wired_def Let_def)
  then show "confined v (Channel_update os (ConnChannel c) (Channel_set_events g (ConnChannel c) s))"
    "confined v (Channel_remove os (ConnChannel c) s)" using assms(3) by (intro confined_channel; simp)+
qed

text \<open>A channel that is in a poller may change its mask.\<close>

lemma safe_update:
  fixes g :: "32 word \<Rightarrow> 32 word"
  assumes k: "kernel_ok os v" and ok: "safe v held rest s" and c: "c < next_conn s" "ch_index (chan s (ConnChannel c)) \<noteq> kNew"
    and g: "keeps_writing v g" and me: "runs_in v (tc_loop (conns s c))"
  shows "safe v held rest (Channel_update os (ConnChannel c) (Channel_set_events g (ConnChannel c) s))"
proof -
  let ?s = "Channel_set_events g (ConnChannel c) s"
  have "refs s c \<noteq> 0" using own_alive(4) [of held rest "ownership_of s" c] ok c by (simp add: safe_def)
  with ok c have d: "descs v (Channel_update os (ConnChannel c) ?s)" by (intro descs_mask [OF k]) (simp_all add: safe_def)
  from safe_conn [OF ok c(1)] have w: "wired v (Channel_update os (ConnChannel c) ?s)"
    using ok c by (intro wired_update) (simp_all add: safe_def conn_wired_def Let_def)
  have "o_set_reg c True (ownership_of s) = ownership_of s"
    using c(2) by (auto simp: ownership_of_def o_set_reg_def fun_eq_iff)
  moreover have "confined v (Channel_update os (ConnChannel c) ?s)" by (rule safe_confined(1) [OF ok c(1) me])
  moreover have "flows v (Channel_update os (ConnChannel c) ?s)"
    using ok g by (intro flows_update kernel_streams [OF k]) (simp_all add: safe_def)
  ultimately show ?thesis using ok d w by (simp add: safe_def ownership_update update_index woken_channel [OF kernel_counters [OF k]] del: Channel_set_events_sel(6))
qed

lemma safe_register:
  fixes g :: "32 word \<Rightarrow> 32 word"
  assumes k: "kernel_ok os v" and ok: "safe v held rest s"
    and c: "c < next_conn s" "c \<in> ran (sv_connections s) \<or> leaving c (all_pending s + rest)"
      "Bind_connectEstablished c \<notin># all_pending s + rest"
    and tie: "ch_tied (chan s (ConnChannel c))" "ch_tie (chan s (ConnChannel c)) = Some c"
    and g: "keeps_writing v g" and me: "runs_in v (tc_loop (conns s c))"
  shows "safe v held rest (Channel_update os (ConnChannel c) (Channel_set_events g (ConnChannel c) s))"
proof -
  let ?s = "Channel_set_events g (ConnChannel c) s"
  have w: "wired v (Channel_update os (ConnChannel c) ?s)"
    using ok tie c(1) by (intro wired_update) (simp_all add: safe_def)
  have o: "own_ok held rest (o_set_reg c True (ownership_of s))"
    using ok c by (intro set_reg_ok) (auto simp: safe_def)
  then have "refs s c \<noteq> 0" using own_alive(4) [OF o, of c] c(1) by (simp add: o_set_reg_def)
  with ok c have "descs v (Channel_update os (ConnChannel c) ?s)" by (intro descs_mask [OF k]) (simp_all add: safe_def)
  moreover have "confined v (Channel_update os (ConnChannel c) ?s)" by (rule safe_confined(1) [OF ok c(1) me])
  moreover have "flows v (Channel_update os (ConnChannel c) ?s)"
    using ok g by (intro flows_update kernel_streams [OF k]) (simp_all add: safe_def)
  ultimately show ?thesis using ok w o by (simp add: safe_def ownership_update update_index woken_channel [OF kernel_counters [OF k]] del: Channel_set_events_sel(6))
qed

lemma safe_unregister:
  assumes k: "kernel_ok os v" and ok: "safe v held rest s" and c: "c < next_conn s" "refs s c \<noteq> 0"
    and "v_focus v \<noteq> Some c" and "v_pin v c = None" and me: "runs_in v (tc_loop (conns s c))"
  shows "safe v held rest (Channel_remove os (ConnChannel c) s)"
proof -
  have "descs v (Channel_remove os (ConnChannel c) s)" using ok c by (intro descs_remove [OF k]) (simp_all add: safe_def)
  with ok assms(5,6) safe_confined(2) [OF ok c(1) me] flows_remove [OF kernel_streams [OF k], where s = s] show ?thesis
    by (auto simp: safe_def ownership_remove remove_index woken_channel [OF kernel_counters [OF k]] intro: wired_remove set_reg_ok)
qed

lemma safe_accept_channel:
  fixes g :: "32 word \<Rightarrow> 32 word"
  assumes k: "kernel_ok os v" and ok: "safe v held rest s" and me: "runs_in v (v_main v)"
  shows "safe v held rest (Channel_update os AcceptChannel (Channel_set_events g AcceptChannel s))"
proof -
  have "descs v (Channel_update os AcceptChannel (Channel_set_events g AcceptChannel s))"
    using ok by (intro descs_mask [OF k]) (simp_all add: safe_def)
  moreover have "confined v (Channel_update os AcceptChannel (Channel_set_events g AcceptChannel s))"
    using ok me by (intro confined_accept_channel) (simp_all add: safe_def wired_def)
  moreover have "flows v (Channel_update os AcceptChannel (Channel_set_events g AcceptChannel s))"
    using ok by (intro flows_update kernel_streams [OF k]) (simp_all add: safe_def)
  ultimately show ?thesis
    using ok by (auto simp: safe_def ownership_update update_index woken_channel [OF kernel_counters [OF k]]
        simp del: Channel_set_events_sel(6) intro!: wired_update)
qed

lemma tie_wiring [simp]:
  "ch_loop (chan (Channel_tie p c s) q) = ch_loop (chan s q)" "ch_fd (chan (Channel_tie p c s) q) = ch_fd (chan s q)"
  "ch_events (chan (Channel_tie p c s) q) = ch_events (chan s q)" "ch_index (chan (Channel_tie p c s) q) = ch_index (chan s q)"
  "ch_readCallback (chan (Channel_tie p c s) q) = ch_readCallback (chan s q)"
  "ch_writeCallback (chan (Channel_tie p c s) q) = ch_writeCallback (chan s q)"
  "ch_closeCallback (chan (Channel_tie p c s) q) = ch_closeCallback (chan s q)"
  "ch_errorCallback (chan (Channel_tie p c s) q) = ch_errorCallback (chan s q)"
  "ch_tied (chan (Channel_tie p c s) q) \<longleftrightarrow> q = p \<or> ch_tied (chan s q)"
  "ch_tie (chan (Channel_tie p c s) q) = (if q = p then Some c else ch_tie (chan s q))"
  "refs (Channel_tie p c s) = refs s" "kern (Channel_tie p c s) = kern s" "loops (Channel_tie p c s) = loops s" "cur_tid (Channel_tie p c s) = cur_tid s"
  by (simp_all add: Channel_tie_def)

lemma tie_server [simp]:
  fixes s :: "('k, 'z) server_scheme"
  shows "sv_connections (Channel_tie p c s) = sv_connections s" "next_conn (Channel_tie p c s) = next_conn s"
    "conns (Channel_tie p c s) = conns s"
  by (simp_all add: Channel_tie_def)

lemma tie_server_more [simp]:
  fixes s :: "('k, 'z) server_scheme"
  shows "sv_loop (Channel_tie p c s) = sv_loop s" "sv_threadPool (Channel_tie p c s) = sv_threadPool s"
    "sv_connectionCallback (Channel_tie p c s) = sv_connectionCallback s" "sv_messageCallback (Channel_tie p c s) = sv_messageCallback s"
    "sv_ipPort (Channel_tie p c s) = sv_ipPort s" "sv_name (Channel_tie p c s) = sv_name s"
    "sv_nextConnId (Channel_tie p c s) = sv_nextConnId s"
  by (simp_all add: Channel_tie_def)

text \<open>A connection becomes connected and tied in one step of the machine, which moves nothing.\<close>

lemma safe_connect:
  fixes s :: "('k, 'z) server_scheme"
  assumes ok: "safe v held rest s" and "refs s c \<noteq> 0" and me: "runs_in v (tc_loop (conns s c))"
  shows "safe v held rest (release os c (Channel_tie (ConnChannel c) c (retain c (TcpConnection_setState c kConnected s))))"
    (is "safe v held rest ?s")
proof -
  have "wired v ?s"
    using ok by (auto simp: safe_def wiring_defs loops_of_def reader_only_def simp del: not_None_eq)
  moreover have "ownership_of ?s = ownership_of s"
    using assms(2) by (simp add: ownership_of_def o_release_def all_pending_def loops_of_def)
  moreover have "descs v ?s = descs v s"
    using assms(2) by (intro descs_cong) (auto simp: release_kern Channel_tie_def)
  moreover have "flows v ?s = flows v s"
    using assms(2) by (intro flows_eq) (auto simp: release_kern)
  moreover have "woken v ?s = woken v s"
    using assms(2) by (intro woken_eq) (auto simp: release_kern)
  moreover have "confined v ?s"
    by (rule confined_conn [where s = s and c = c]) (use ok me in \<open>auto simp: safe_def Channel_tie_def TcpConnection_setState_def upd_conn_def server_more(11) [of "release os c u" u for u]\<close>)
  ultimately show ?thesis using ok by (simp add: safe_def)
qed

section \<open>Facts of a safe state\<close>

lemma safe_held: "safe v held rest s \<Longrightarrow> c \<in># held \<Longrightarrow> c < next_conn s \<and> refs s c \<noteq> 0"
  using own_alive(1) [of held rest "ownership_of s" c] by (auto simp: safe_def own_ok_def held_ok_def)

lemma safe_focus:
  assumes "safe v held rest s" and "v_focus v = Some c"
  shows "c \<in># held" "c < next_conn s" "refs s c \<noteq> 0" "ch_index (chan s (ConnChannel c)) \<noteq> kNew"
    "v_me v = v_tid v (tc_loop (conns s c))" "tc_loop (conns s c) \<in> v_loops v"
    "EventLoop_isInLoopThread (tc_loop (conns s c)) s"
    "Bind_connectEstablished c \<notin># all_pending s + rest"
proof -
  show held: "c \<in># held" and reg: "ch_index (chan s (ConnChannel c)) \<noteq> kNew"
    and me: "v_me v = v_tid v (tc_loop (conns s c))" using assms by (auto simp: safe_def)
  show c: "c < next_conn s" "refs s c \<noteq> 0" using safe_held [OF assms(1) held] by auto
  show "tc_loop (conns s c) \<in> v_loops v"
    using safe_conn [OF assms(1) c(1)] by (simp add: conn_wired_def Let_def)
  show "EventLoop_isInLoopThread (tc_loop (conns s c)) s"
    using assms(1) me by (simp add: safe_def wired_def EventLoop_isInLoopThread_def)
  show "Bind_connectEstablished c \<notin># all_pending s + rest"
    using assms(1) reg by (auto simp: safe_def own_ok_def establish_ok_def)
qed

lemma safe_unfocus: "safe v held rest s \<Longrightarrow> v_hand v = None \<Longrightarrow> safe (v\<lparr>v_focus := None\<rparr>) held rest s"
  using flows_focus [of v s None] by (auto simp: safe_def wired_def)

text \<open>A view that observes neither the counters nor the start of the step.\<close>

definition blind :: "'k view \<Rightarrow> 'k view" where
  "blind v = v\<lparr>v_wake := None, v_busy := {}, v_start := None\<rparr>"

lemma blind_sel [simp]:
  "v_interest (blind v) = v_interest v" "v_open (blind v) = v_open v" "v_loops (blind v) = v_loops v" "v_tid (blind v) = v_tid v"
  "v_me (blind v) = v_me v" "v_focus (blind v) = v_focus v" "v_pin (blind v) = v_pin v" "v_streams (blind v) = v_streams v"
  "v_hand (blind v) = v_hand v" "v_wake (blind v) = None"
  "v_main (blind v) = v_main v" "v_start (blind v) = None"
  by (simp_all add: blind_def)

lemma blind_view:
  "blind (v\<lparr>v_me := t\<rparr>) = (blind v)\<lparr>v_me := t\<rparr>" "blind (v\<lparr>v_pin := m\<rparr>) = (blind v)\<lparr>v_pin := m\<rparr>"
  "blind (v\<lparr>v_busy := B\<rparr>) = blind v" "blind (v\<lparr>v_start := sn\<rparr>) = blind v"
  by (simp_all add: blind_def)

lemma woken_unobserved [simp]: "v_wake v = None \<Longrightarrow> woken v s"
  by (simp add: woken_def alerted_def)

lemma safe_blind: "safe v held rest s \<longleftrightarrow> safe (blind v) held rest s \<and> woken v s \<and> confined v s"
  by (auto simp: safe_def wired_def descs_def flows_def hand_of_def conn_flow_def blind_def may_lose_def)

lemma kernel_blind: "kernel_ok os v \<longleftrightarrow> kernel_ok os (blind v) \<and> counters_ok os v"
  by (auto simp: kernel_ok_def counters_ok_def)

lemma safe_no_hand: "safe v held rest s \<Longrightarrow> v_focus v = None \<Longrightarrow> v_hand v = None"
  by (simp add: safe_def flows_def)

text \<open>A pointer held for the duration of a call.\<close>

lemma runs_shared:
  fixes s :: "('k, 'z) server_scheme"
  assumes k: "kernel_ok os v" and ok: "safe u held rest s" and c: "c \<in># held"
    and f: "\<And>s :: ('k, 'z) server_scheme. safe u (add_mset c held) rest s \<Longrightarrow> runs (safe v (add_mset c held) rest) (f s)"
  shows "runs (safe v held rest) (with_shared os c f s)"
proof -
  have live: "c < next_conn s" "refs s c \<noteq> 0" using safe_held [OF ok c] by auto
  have h: "held_ok held rest (ownership_of s)" using ok by (simp add: safe_def own_ok_def)
  have "runs (safe v (add_mset c held) rest) (f (retain c s))"
    by (rule f [OF safe_retain [OF ok live]])
  then have "runs (safe v held rest) (and_then (f (retain c s)) (\<lambda>s. Inr (release os c s)))"
    by (rule runs_then) (use k h c in \<open>auto intro: safe_release\<close>)
  with live show ?thesis by (simp add: with_shared_def)
qed

end
