(* ===== verification/SafeHandlers.thy ===== *)
theory SafeHandlers
  imports Lifetime
begin

text \<open>
  Every handler and functor of the server keeps the lifetime invariant \<^const>\<open>safe\<close> of \<open>Lifetime\<close>
  and never fails with a dangling pointer, an expired \<^verbatim>\<open>shared_from_this\<close>, an empty function or an access
  outside a buffer. What the functions of the application have to keep is the locale \<open>safe_app\<close>.
\<close>

section \<open>Handlers of a connection in focus\<close>

lemma runs_call_fn: "f \<noteq> None \<Longrightarrow> (\<And>g. runs P (run g s)) \<Longrightarrow> runs P (call_fn f run s)"
  by (auto simp: call_fn_def)

lemma safe_confinement: "safe v held rest s \<Longrightarrow> confined v s"
  by (simp add: safe_def)

lemma loop_thread_runs: "safe v held rest s \<Longrightarrow> EventLoop_isInLoopThread l s \<Longrightarrow> runs_in v l"
  by (simp add: safe_def wired_def EventLoop_isInLoopThread_def runs_in_me)

lemma focus_runs: "safe v held rest s \<Longrightarrow> v_focus v = Some c \<Longrightarrow> runs_in v (tc_loop (conns s c))"
  by (rule runs_in_me) (rule safe_focus)

lemma focus_masks:
  assumes "kernel_ok os v" and "safe v held rest s" and "v_focus v = Some c"
  shows "may_lose v \<Longrightarrow> safe v held rest (Channel_enableWriting os (ConnChannel c) s)"
    "safe v held rest (Channel_disableWriting os (ConnChannel c) s)"
    "safe v held rest (Channel_disbaleAll os (ConnChannel c) s)"
  using assms safe_focus(2,4) [OF assms(2,3)] focus_runs [OF assms(2,3)]
  by (simp_all add: mask_defs safe_update keeps_writing_masks keeps_writing_lossy)

lemma runs_queue_shared:
  assumes "kernel_ok os v" and "safe v held rest s" and "v_focus v = Some c"
    and "t = Bind_writeComplete u c \<or> t = Bind_highWaterMark u c n"
  shows "runs (safe v held rest) (queue_shared os c t s)"
  using assms safe_focus [OF assms(2,3)] by (auto simp: queue_shared_def intro!: safe_queue)

lemma safe_shutdownInLoop [simp]:
  "kernel_ok os v \<Longrightarrow> safe v held rest (TcpConnection_shutdownInLoop os c s) = safe v held rest s"
  by (auto simp: TcpConnection_shutdownInLoop_def Socket_shutDownWrite_def Let_def safe_kern kernel_quiet(5) split: prod.split)

lemma safe_handleError [simp]: "kernel_ok os v \<Longrightarrow> safe v held rest (TcpConnection_handleError os c s) = safe v held rest s"
  by (auto simp: TcpConnection_handleError_def Let_def safe_kern kernel_quiet(6) split: prod.split)

lemma append_runs:
  "buffer_ok b \<Longrightarrow> unat n \<le> length data \<Longrightarrow> unat n < 2 ^ 63 \<Longrightarrow>
     runs (\<lambda>b'. buffer_ok b' \<and> contents b' = contents b @ take (unat n) data) (Buffer_append data n b)"
  using Buffer_append_total [of b n data] by auto

text \<open>What a \<^verbatim>\<open>readv\<close> or \<^verbatim>\<open>write\<close> moves.\<close>

definition moved_in :: "'k view \<Rightarrow> fd \<Rightarrow> byte list \<Rightarrow> 'k \<Rightarrow> 'k \<Rightarrow> bool" where
  "moved_in v f d k k' \<longleftrightarrow> quiet v {f} k k' \<and>
     (\<forall>st. v_streams v = Some st \<longrightarrow> st_wire st k' f = st_wire st k f \<and> st_recv st k' f = st_recv st k f @ d)"

definition moved_out :: "'k view \<Rightarrow> fd \<Rightarrow> byte list \<Rightarrow> int \<Rightarrow> 'k \<Rightarrow> 'k \<Rightarrow> bool" where
  "moved_out v f bs n k k' \<longleftrightarrow> quiet v {f} k k' \<and> n \<le> int (length bs) \<and> (may_lose v \<or> n = int (length bs)) \<and>
     (\<forall>st. v_streams v = Some st \<longrightarrow> st_wire st k' f = st_wire st k f @ take (nat n) bs \<and> st_recv st k' f = st_recv st k f)"

lemma readFd_runs:
  assumes k: "kernel_ok os v" and "buffer_ok b"
  shows "runs (\<lambda>(n, e, b', k'). buffer_ok b' \<and>
      (\<exists>d. contents b' = contents b @ d \<and> moved_in v f d k k' \<and> (n \<le> 0 \<longrightarrow> d = []))) (Buffer_readFd os f b k)"
proof -
  obtain n e d k' where r: "sys_readv os f (if writableBytes b < extrabuf_size
      then [writableBytes b, extrabuf_size] else [writableBytes b]) k = ((n, e, d), k')"
    by (metis prod_cases3 surj_pair)
  have ct: "readv_contract os" using k by (simp add: kernel_ok_def)
  then have "0 \<le> n \<Longrightarrow> length d = nat n" using r unfolding readv_contract_def by blast
  then have d: "0 \<le> n \<Longrightarrow> n \<le> 0 \<Longrightarrow> d = []" by simp
  have "moved_in v f (if 0 \<le> n then d else []) k k'"
    using kernel_quiet(3) [OF k r] streams_read [OF kernel_streams [OF k] r] by (simp add: moved_in_def)
  with Buffer_readFd_total [OF assms(2) ct r] assms(2) d show ?thesis
    by (auto split: if_splits)
qed

lemma write_moves:
  assumes k: "kernel_ok os v" and w: "sys_write os f bs k = ((n, e), k')"
  shows "moved_out v f bs n k k'"
proof -
  have "n \<le> int (length bs)" using k w unfolding kernel_ok_def by (metis fst_conv)
  with kernel_quiet(4) [OF k w] streams_write [OF kernel_streams [OF k] w] show ?thesis
    by (auto simp: moved_out_def may_lose_def)
qed

lemma writeFd_runs:
  assumes k: "kernel_ok os v" and b: "buffer_ok b"
  shows "runs (\<lambda>(n, e, k'). moved_out v f (contents b) n k k') (Buffer_writeFd os f b k)"
proof -
  obtain n e k' where w: "sys_write os f (contents b) k = ((n, e), k')" by (metis surj_pair)
  with write_moves [OF k w] show ?thesis by (simp add: Buffer_writeFd_spec [OF b])
qed

lemma focus_buffers:
  assumes "safe v held rest s" and "v_focus v = Some c"
  shows "buffer_ok (tc_inputBuffer (conns s c))" "buffer_ok (tc_outputBuffer (conns s c))"
  using safe_conn [OF assms(1) safe_focus(2) [OF assms]] by (simp_all add: conn_wired_def Let_def)

text \<open>What is left to buffer after the direct write is the rest of the data, or nothing.\<close>

definition rest_fits :: "byte list \<Rightarrow> int \<Rightarrow> size_t \<Rightarrow> bool" where
  "rest_fits data nwrote remaining \<longleftrightarrow> remaining = 0 \<or> unat remaining = length (drop (nat nwrote) data)"

lemma remaining_fits:
  assumes "0 \<le> n" and "n \<le> int (length data)" and "length data < 2 ^ 63"
  shows "rest_fits data n (of_nat (length data) - word_of_int n)"
proof -
  have "unat (word_of_int n :: size_t) = nat n" "unat (of_nat (length data) :: size_t) = length data"
    using assms unat_of_nat_small [where 'a = 64, of "nat n"] unat_of_nat_small [where 'a = 64, of "length data"] by simp_all
  with assms show ?thesis by (simp add: rest_fits_def unat_diff_le)
qed

text \<open>A write of what is in the hand.\<close>

lemma flow_write_hand:
  fixes s :: "('k, 'z) server_scheme"
  assumes fl: "conn_flow v (Some m) c s" and idle: "contents (tc_outputBuffer (conns s c)) = []"
    and w: "moved_out v (ch_fd (chan s (ConnChannel c))) m n (kern s) k'"
  shows "conn_flow v (Some (drop (nat n) m)) c (s\<lparr>kern := k'\<rparr>)"
  using fl idle w by (auto simp: conn_flow_def Let_def moved_out_def intro: in_order_write_rest)

text \<open>A write of what is in the output buffer.\<close>

lemma flow_write_out:
  fixes s :: "('k, 'z) server_scheme"
  assumes fl: "conn_flow v h c s" and w: "moved_out v (ch_fd (chan s (ConnChannel c))) (contents (tc_outputBuffer (conns s c))) n (kern s) k'"
    and f: "tc_inputBuffer (f (conns s c)) = tc_inputBuffer (conns s c)"
      "contents (tc_outputBuffer (f (conns s c))) = drop (nat n) (contents (tc_outputBuffer (conns s c)))"
  shows "conn_flow v h c (upd_conn c f (s\<lparr>kern := k'\<rparr>))"
  unfolding conn_flow_def Let_def
proof (intro allI impI)
  fix st assume st: "v_streams v = Some st"
  let ?f = "ch_fd (chan s (ConnChannel c))" and ?i = "contents (tc_inputBuffer (conns s c))"
  have "in_order (st_short st) (Channel_isWriting (chan s (ConnChannel c))) (st_wire st (kern s) ?f) (contents (tc_outputBuffer (conns s c)))
      (case h of None \<Rightarrow> [] | Some m \<Rightarrow> m @ ?i) (st_recv st (kern s) ?f) \<and> (h = None \<longrightarrow> ?i = [])"
    using fl st by (simp add: conn_flow_def Let_def)
  with w st show "in_order (st_short st) (Channel_isWriting (chan (upd_conn c f (s\<lparr>kern := k'\<rparr>)) (ConnChannel c)))
      (st_wire st (kern (upd_conn c f (s\<lparr>kern := k'\<rparr>))) (ch_fd (chan (upd_conn c f (s\<lparr>kern := k'\<rparr>)) (ConnChannel c))))
      (contents (tc_outputBuffer (conns (upd_conn c f (s\<lparr>kern := k'\<rparr>)) c)))
      (case h of None \<Rightarrow> [] | Some m \<Rightarrow> m @ contents (tc_inputBuffer (conns (upd_conn c f (s\<lparr>kern := k'\<rparr>)) c)))
      (st_recv st (kern (upd_conn c f (s\<lparr>kern := k'\<rparr>))) (ch_fd (chan (upd_conn c f (s\<lparr>kern := k'\<rparr>)) (ConnChannel c)))) \<and>
      (h = None \<longrightarrow> contents (tc_inputBuffer (conns (upd_conn c f (s\<lparr>kern := k'\<rparr>)) c)) = [])"
    by (cases h) (auto simp: f moved_out_def intro: in_order_write_out)
qed

lemma runs_sendInLoop_write:
  fixes s :: "('k, 'z) server_scheme"
  assumes io: "kernel_ok os v" and ok: "safe (v\<lparr>v_hand := Some data\<rparr>) held rest s" and c: "v_focus v = Some c" and len: "length data < 2 ^ 63"
  shows "runs (\<lambda>(nwrote, remaining, fault, s'). safe (v\<lparr>v_hand := Some (drop (nat nwrote) data)\<rparr>) held rest s' \<and>
      rest_fits data nwrote remaining \<and> (may_lose v \<or> drop (nat nwrote) data = []))
    (sendInLoop_write os c data s)"
proof -
  let ?f = "ch_fd (chan s (ConnChannel c))" and ?vd = "v\<lparr>v_hand := Some data\<rparr>"
  let ?after = "\<lambda>nwrote s'. safe (v\<lparr>v_hand := Some (drop (nat nwrote) data)\<rparr>) held rest s'"
  let ?P = "\<lambda>(nwrote, remaining, fault :: bool, s'). ?after nwrote s' \<and> rest_fits data nwrote remaining \<and>
      (may_lose v \<or> drop (nat nwrote) data = [])"
  have fl: "conn_flow v (Some data) c s"
    using safe_flow [OF ok] safe_focus [OF ok] c by simp
  have none: "rest_fits data m 0" for m by (simp add: rest_fits_def)
  have out: "buffer_ok (tc_outputBuffer (conns s c))" using focus_buffers(2) [OF ok] c by simp
  show ?thesis
  proof (cases "Channel_isWriting (chan s (ConnChannel c)) \<or> readableBytes (tc_outputBuffer (conns s c)) \<noteq> 0")
    case True
    then have "may_lose v"
      using fl readableBytes_0 [OF out] by (auto simp: conn_flow_def may_lose_def in_order_def Let_def)
    with True ok show ?thesis by (auto simp: sendInLoop_write_def none)
  next
    case False
    then have idle: "contents (tc_outputBuffer (conns s c)) = []" using readableBytes_0 [OF out] by simp
    obtain n e k' where w: "sys_write os ?f data (kern s) = ((n, e), k')" by (metis surj_pair)
    have mv: "moved_out v ?f data n (kern s) k'" by (rule write_moves [OF io w])
    then have fit: "0 \<le> n \<Longrightarrow> rest_fits data n (of_nat (length data) - word_of_int n)"
      and all: "may_lose v \<or> drop (nat n) data = []" and q: "quiet ?vd {?f} (kern s) k'"
      using remaining_fits len by (auto simp: moved_out_def quiet_def same_fds_def)
    have "safe (?vd\<lparr>v_hand := Some (drop (nat n) data)\<rparr>) held rest (s\<lparr>kern := k'\<rparr>)"
      using flow_write_hand [OF fl idle mv] c by (intro safe_step_kern [OF ok _ q]) simp_all
    then have k: "?after n (s\<lparr>kern := k'\<rparr>)" by simp
    have "runs ?P (and_then (queue_shared os c (Bind_writeComplete u c) (s\<lparr>kern := k'\<rparr>)) (\<lambda>s2. Inr (n, r, False, s2)))"
      if "rest_fits data n r" for u r
      by (rule runs_then [OF runs_queue_shared [OF _ k]]) (use that io c all in \<open>simp_all del: drop_eq_Nil\<close>)
    moreover have "n < 0 \<Longrightarrow> ?after 0 (s\<lparr>kern := k'\<rparr>) \<and> (may_lose v \<or> drop (nat 0) data = [])" using k all by simp
    ultimately show ?thesis
      using False w k fit none all
      by (simp add: sendInLoop_write_def Let_def del: drop_eq_Nil split: option.split)
  qed
qed

lemma runs_sendInLoop_buffer:
  fixes s :: "('k, 'z) server_scheme"
  assumes io: "kernel_ok os v" and ok: "safe (v\<lparr>v_hand := Some (drop (nat nwrote) data)\<rparr>) held rest s" and c: "v_focus v = Some c"
    and fit: "unat remaining = length (drop (nat nwrote) data)" and lossy: "may_lose v" and len: "length data < 2 ^ 63"
  shows "runs (safe (v\<lparr>v_hand := Some []\<rparr>) held rest) (sendInLoop_buffer os c data nwrote remaining s)"
  unfolding sendInLoop_buffer_def Let_def
proof (rule runs_then)
  let ?v = "v\<lparr>v_hand := Some (drop (nat nwrote) data)\<rparr>" and ?done = "v\<lparr>v_hand := Some []\<rparr>"
  have vc: "kernel_ok os ?v" "v_focus ?v = Some c" using io c by simp_all
  show "runs (safe ?v held rest) (case tc_highWaterMarkCallback (conns s c) of None \<Rightarrow> Inr s
      | Some u \<Rightarrow> if tc_highWaterMark (conns s c) \<le> readableBytes (tc_outputBuffer (conns s c)) + remaining \<and>
          readableBytes (tc_outputBuffer (conns s c)) < tc_highWaterMark (conns s c)
        then queue_shared os c (Bind_highWaterMark u c (readableBytes (tc_outputBuffer (conns s c)) + remaining)) s else Inr s)"
    using ok vc by (auto split: option.split intro: runs_queue_shared)
  fix t :: "('k, 'z) server_scheme" assume t: "safe ?v held rest t"
  let ?b = "tc_outputBuffer (conns t c)"
  have app: "runs (\<lambda>b'. buffer_ok b' \<and> contents b' = contents ?b @ drop (nat nwrote) data)
      (Buffer_append (drop (nat nwrote) data) remaining ?b)"
    using append_runs [OF focus_buffers(2) [OF t vc(2)], of remaining "drop (nat nwrote) data"] fit len by simp
  have fl: "conn_flow v (Some (drop (nat nwrote) data)) c t" using safe_flow [OF t] safe_focus [OF t] c by simp
  have "safe ?done held rest (upd_conn c (\<lambda>tc. tc\<lparr>tc_outputBuffer := b\<rparr>) t)"
    if b: "buffer_ok b" "contents b = contents ?b @ drop (nat nwrote) data" for b
  proof -
    have "conn_flow v (Some []) c (upd_conn c (\<lambda>tc. tc\<lparr>tc_outputBuffer := b\<rparr>) (t\<lparr>kern := kern t\<rparr>))"
      using fl b(2) lossy by (auto simp: conn_flow_def Let_def may_lose_def dest: in_order_buffer)
    then have "safe (?v\<lparr>v_hand := Some []\<rparr>) held rest (upd_conn c (\<lambda>tc. tc\<lparr>tc_outputBuffer := b\<rparr>) (t\<lparr>kern := kern t\<rparr>))"
      using b(1) focus_buffers(1) [OF t vc(2)] vc(2) by (intro safe_step [OF t]) simp_all
    then show ?thesis by simp
  qed
  with app io c lossy show "runs (safe ?done held rest)
      (and_then (Buffer_append (drop (nat nwrote) data) remaining ?b) (\<lambda>b.
        Inr (if \<not> Channel_isWriting (chan (upd_conn c (\<lambda>tc. tc\<lparr>tc_outputBuffer := b\<rparr>) t) (ConnChannel c))
          then Channel_enableWriting os (ConnChannel c) (upd_conn c (\<lambda>tc. tc\<lparr>tc_outputBuffer := b\<rparr>) t)
          else upd_conn c (\<lambda>tc. tc\<lparr>tc_outputBuffer := b\<rparr>) t)))"
    by (elim runs_then) (auto intro!: focus_masks(1) simp: may_lose_def)
qed

text \<open>Whatever is sent leaves the hand: for the wire, for the output buffer, or for good.\<close>

lemma runs_sendInLoop:
  fixes s :: "('k, 'z) server_scheme"
  assumes io: "kernel_ok os v" and ok: "safe (v\<lparr>v_hand := Some data\<rparr>) held rest s" and c: "v_focus v = Some c" and len: "length data < 2 ^ 63"
  shows "runs (safe (v\<lparr>v_hand := Some []\<rparr>) held rest) (TcpConnection_sendInLoop os c data s)"
proof -
  let ?start = "if tc_state (conns s c) = kDisconnected then LOG_ERROR ''disconnected, give up writing'' 0 s else s"
  have drop: "safe (v\<lparr>v_hand := Some []\<rparr>) held rest t"
    if t: "safe (v\<lparr>v_hand := Some m\<rparr>) held rest t" and "may_lose v \<or> m = []" for m and t :: "('k, 'z) server_scheme"
  proof -
    have "conn_flow v (Some []) c t"
      using safe_flow [OF t] safe_focus [OF t] c that(2) by (intro conn_flow_drop [of v m]) simp_all
    then have "safe (v\<lparr>v_hand := Some m\<rparr>\<lparr>v_hand := Some []\<rparr>) held rest t" using c by (intro safe_hand [OF t]) simp_all
    then show ?thesis by simp
  qed
  have "runs (safe (v\<lparr>v_hand := Some []\<rparr>) held rest)
      (if \<not> fault \<and> 0 < r then sendInLoop_buffer os c data n r t else Inr t)"
    if t: "safe (v\<lparr>v_hand := Some (drop (nat n) data)\<rparr>) held rest t" and "rest_fits data n r"
      "may_lose v \<or> drop (nat n) data = []" for n r fault and t :: "('k, 'z) server_scheme"
  proof (cases "\<not> fault \<and> 0 < r")
    case True
    with that have fit: "unat r = length (drop (nat n) data)" "unat r \<noteq> 0" by (auto simp: rest_fits_def unat_eq_0)
    with that(3) have "may_lose v" by auto
    with True runs_sendInLoop_buffer [OF io t c fit(1) _ len] show ?thesis by simp
  qed (use drop [OF that(1,3)] in auto)
  moreover have "safe (v\<lparr>v_hand := Some data\<rparr>) held rest ?start" using ok by simp
  note runs_sendInLoop_write [OF io this c len]
  ultimately show ?thesis
    unfolding TcpConnection_sendInLoop_def Let_def by (elim runs_then) auto
qed

lemma runs_handleWrite:
  fixes s :: "('k, 'z) server_scheme"
  assumes io: "kernel_ok os v" and ok: "safe v held rest s" and c: "v_focus v = Some c"
  shows "runs (safe v held rest) (TcpConnection_handleWrite os c s)"
proof -
  let ?f = "ch_fd (chan s (ConnChannel c))" and ?b = "tc_outputBuffer (conns s c)"
  have drained: "runs (safe v held rest) (and_then
      (case cb of
         Some u \<Rightarrow> queue_shared os c (Bind_writeComplete u c) (Channel_disableWriting os (ConnChannel c) t)
       | None \<Rightarrow> Inr (Channel_disableWriting os (ConnChannel c) t)) (\<lambda>s3.
      Inr (if tc_state (conns s3 c) = kDisconnecting then TcpConnection_shutdownInLoop os c s3 else s3)))"
    if "safe v held rest t" for cb and t :: "('k, 'z) server_scheme"
    by (rule runs_then [where P = "safe v held rest"])
      (use that io c in \<open>auto split: option.split intro: runs_queue_shared [OF io] focus_masks [OF io]\<close>)
  note buf = focus_buffers [OF ok c]
  have fl: "conn_flow v (v_hand v) c s" using safe_flow [OF ok c] safe_focus [OF ok c] by simp
  have sent: "safe v held rest (upd_conn c (\<lambda>tc. tc\<lparr>tc_outputBuffer := Buffer_retrieve (word_of_int n) (tc_outputBuffer tc)\<rparr>)
      (s\<lparr>kern := k'\<rparr>))" if mv: "moved_out v ?f (contents ?b) n (kern s) k'" and n: "0 < n" for n k'
  proof -
    have "length (contents ?b) < 2 ^ 63" using buffer_ok_bounds(2) [OF buf(2)] buf(2) by simp
    moreover have "nat n \<le> length (contents ?b)" using mv by (simp add: moved_out_def nat_le_iff)
    ultimately have "unat (word_of_int n :: size_t) = nat n"
      using unat_of_nat_small [where 'a = 64, of "nat n"] n by simp
    with buf(2) have "conn_flow v (v_hand v) c
        (upd_conn c (\<lambda>tc. tc\<lparr>tc_outputBuffer := Buffer_retrieve (word_of_int n) (tc_outputBuffer tc)\<rparr>) (s\<lparr>kern := k'\<rparr>))"
      by (intro flow_write_out [OF fl mv]) simp_all
    then have "safe (v\<lparr>v_hand := v_hand v\<rparr>) held rest
        (upd_conn c (\<lambda>tc. tc\<lparr>tc_outputBuffer := Buffer_retrieve (word_of_int n) (tc_outputBuffer tc)\<rparr>) (s\<lparr>kern := k'\<rparr>))"
      using buf mv by (intro safe_step [OF ok c]) (simp_all add: moved_out_def)
    then show ?thesis by (simp add: view_same_hand)
  qed
  have failed: "safe v held rest (s\<lparr>kern := k'\<rparr>)"
    if mv: "moved_out v ?f (contents ?b) n (kern s) k'" and n: "\<not> 0 < n" for n k'
  proof -
    have "conn_flow v (v_hand v) c (s\<lparr>kern := k'\<rparr>)" using fl mv n by (simp add: conn_flow_def Let_def moved_out_def)
    then have "safe (v\<lparr>v_hand := v_hand v\<rparr>) held rest (s\<lparr>kern := k'\<rparr>)"
      using mv by (intro safe_step_kern [OF ok c]) (simp_all add: moved_out_def)
    then show ?thesis by (simp add: view_same_hand)
  qed
  show ?thesis
    unfolding TcpConnection_handleWrite_def Let_def using ok
    by (auto intro!: runs_then [OF writeFd_runs [OF io buf(2)]] drained sent failed)
qed

section \<open>The server takes a connection out\<close>

text \<open>A call of \<^verbatim>\<open>removeConnectionInLoop\<close> is as good as the functor about to be run.\<close>

lemma add_leaving_ok:
  assumes "own_ok held rest ow" and "c \<in># held" and "Bind_connectEstablished c \<notin># o_tasks ow + rest"
  shows "own_ok held (add_mset (Bind_removeConnectionInLoop c) rest) ow"
  using assms by (auto simp: own_ok_def own_parts leaving_def)

lemma map_erase_sel [simp]:
  fixes s :: "('k, 'z) server_scheme"
  shows "chan (map_erase os nm s) = chan s" "loops (map_erase os nm s) = loops s" "cur_tid (map_erase os nm s) = cur_tid s"
    "conns (map_erase os nm s) = conns s" "sv_loop (map_erase os nm s) = sv_loop s"
    "sv_threadPool (map_erase os nm s) = sv_threadPool s" "next_conn (map_erase os nm s) = next_conn s"
    "sv_connectionCallback (map_erase os nm s) = sv_connectionCallback s"
    "sv_messageCallback (map_erase os nm s) = sv_messageCallback s" "sv_nextConnId (map_erase os nm s) = sv_nextConnId s"
    "sv_name (map_erase os nm s) = sv_name s" "sv_ipPort (map_erase os nm s) = sv_ipPort s"
  by (simp_all add: map_erase_def Let_def split: option.split)

lemma ownership_erase: "ownership_of (map_erase os nm s) = o_erase nm (ownership_of s)"
  by (simp add: map_erase_def o_erase_def Let_def split: option.split)
    (simp add: ownership_of_def all_pending_def loops_of_def)

lemma wired_erase [simp]: "wired v (map_erase os nm s) = wired v s"
  by (simp add: wiring_defs loops_of_def)

text \<open>Erasing an entry whose connection somebody else holds closes nothing.\<close>

lemma woken_erase:
  fixes s :: "('k, 'z) server_scheme"
  assumes "\<And>d. sv_connections s nm = Some d \<Longrightarrow> 2 \<le> refs s d"
  shows "woken v (map_erase os nm s) = woken v s"
proof (rule woken_eq)
  have "kern (map_erase os nm s) = kern s"
    using assms by (simp add: map_erase_def Let_def release_kern split: option.split)
  then show "counters_kept v {} (kern s) (kern (map_erase os nm s))" by simp
qed simp_all

lemma descs_erase:
  fixes s :: "('k, 'z) server_scheme"
  assumes "\<And>d. sv_connections s nm = Some d \<Longrightarrow> 2 \<le> refs s d"
  shows "descs v (map_erase os nm s) = descs v s" "refs (map_erase os nm s) c = 0 \<longleftrightarrow> refs s c = 0"
    "flows v (map_erase os nm s) = flows v s"
proof -
  show r: "refs (map_erase os nm s) c = 0 \<longleftrightarrow> refs s c = 0" for c
    using assms by (auto simp: map_erase_def Let_def split: option.split)
  have k: "kern (map_erase os nm s) = kern s"
    using assms by (simp add: map_erase_def Let_def release_kern split: option.split)
  then show "descs v (map_erase os nm s) = descs v s" by (intro descs_cong) (simp_all add: r)
  show "flows v (map_erase os nm s) = flows v s" by (rule flows_eq) (simp_all add: r k)
qed

lemma held_entry:
  fixes s :: "('k, 'z) server_scheme"
  assumes own: "own_ok held rest (ownership_of s)" and c: "c \<in># held" and d: "sv_connections s (tc_name (conns s c)) = Some d"
  shows "2 \<le> refs s d"
proof -
  have "c < next_conn s" using own c by (auto simp: own_ok_def held_ok_def)
  moreover have "d < next_conn s" "tc_name (conns s d) = tc_name (conns s c)" "inj_on (o_name (ownership_of s)) {..<next_conn s}"
    using own d by (auto simp: own_ok_def entries_ok_def)
  ultimately have "d = c" using inj_onD [of "o_name (ownership_of s)" "{..<next_conn s}" d c] by simp
  moreover obtain h where "held = add_mset c h" using c by (metis multi_member_split)
  moreover have "c \<in> ran (sv_connections s)" using d \<open>d = c\<close> by (auto intro: ranI)
  ultimately show ?thesis using own by (simp add: own_ok_def counts_ok_def)
qed

lemma confined_remove:
  fixes s :: "('k, 'z) server_scheme"
  assumes "confined v s" and "runs_in v (v_main v)"
  shows "confined v (TcpServer_removeConnectionInLoop os c s)"
proof -
  have "confined v (map_erase os (tc_name (conns s c)) s)" by (rule confined_server [of v s]) (use assms in simp_all)
  then show ?thesis by (simp add: TcpServer_removeConnectionInLoop_def Let_def confined_queue)
qed

lemma safe_remove:
  fixes s :: "('k, 'z) server_scheme"
  assumes k: "kernel_ok os v" and ok: "safe v held (add_mset (Bind_removeConnectionInLoop c) rest) s"
    and me: "runs_in v (v_main v)"
  shows "safe v held rest (TcpServer_removeConnectionInLoop os c s)"
proof -
  have own: "own_ok held (add_mset (Bind_removeConnectionInLoop c) rest) (ownership_of s)"
    using ok by (simp add: safe_def)
  then have c: "c < next_conn s" "c \<in># held" by (auto simp: own_ok_def tasks_ok_def held_ok_def)
  from safe_conn [OF ok c(1)] have l: "tc_loop (conns s c) \<in> v_loops v" by (simp add: conn_wired_def Let_def)
  moreover have "v_loops v = loops_of s" using ok unfolding safe_def wired_def by blast
  ultimately have "tc_loop (conns s c) \<in> loops_of (map_erase os (tc_name (conns s c)) s)" by (simp add: loops_of_def)
  then have "ownership_of (TcpServer_removeConnectionInLoop os c s) =
      o_queue (Bind_connectDestroyed c) (o_erase (o_name (ownership_of s) c) (ownership_of s))"
    by (simp add: TcpServer_removeConnectionInLoop_def Let_def ownership_queue ownership_erase)
  then have "own_ok held rest (ownership_of (TcpServer_removeConnectionInLoop os c s))"
    using remove_ok [OF own] by simp
  moreover have "wired v (TcpServer_removeConnectionInLoop os c s)"
    using ok by (auto simp: TcpServer_removeConnectionInLoop_def Let_def safe_def intro: wired_queue)
  moreover have "descs v (TcpServer_removeConnectionInLoop os c s)"
    using ok descs_erase [of s "tc_name (conns s c)", OF held_entry [OF own c(2)]] safe_held [OF ok c(2)]
    by (simp add: TcpServer_removeConnectionInLoop_def Let_def safe_def)
      (subst descs_queue [OF k]; simp)
  moreover have "flows v (TcpServer_removeConnectionInLoop os c s)"
    using ok l descs_erase [of s "tc_name (conns s c)", OF held_entry [OF own c(2)]] safe_held [OF ok c(2)]
    by (simp add: TcpServer_removeConnectionInLoop_def Let_def safe_def)
      (intro flows_queue [OF k]; simp)
  moreover have "woken v (TcpServer_removeConnectionInLoop os c s)"
  proof -
    let ?t = "map_erase os (tc_name (conns s c)) s"
    have t: "descs v ?t" "wired v ?t" "woken v ?t"
      using ok descs_erase(1) [of s "tc_name (conns s c)", OF held_entry [OF own c(2)]]
        woken_erase [of s "tc_name (conns s c)", OF held_entry [OF own c(2)]] by (simp_all add: safe_def)
    have "woken v (EventLoop_queueInLoop os (tc_loop (conns s c)) (Bind_connectDestroyed c) ?t)"
      by (rule woken_queue [OF kernel_counters [OF k] t(3) l]) (use t(2) wakeup_apart [OF t(1,2) l] in \<open>simp_all add: wired_def\<close>)
    then show ?thesis by (simp add: TcpServer_removeConnectionInLoop_def Let_def)
  qed
  ultimately show ?thesis
    using ok me confined_remove [of v s os c] by (simp add: safe_def TcpServer_removeConnectionInLoop_def Let_def)
qed

lemma runs_removeConnection:
  fixes s :: "('k, 'z) server_scheme"
  assumes k: "kernel_ok os v" and ok: "safe v held rest s" and c: "v_focus v = Some c"
  shows "runs (safe v held rest) (TcpServer_removeConnection os c s)"
proof -
  note f = safe_focus [OF ok c]
  have "safe v held (add_mset (Bind_removeConnectionInLoop c) rest) s"
    using ok add_leaving_ok [of held rest "ownership_of s" c] f(1,8) by (simp add: safe_def)
  moreover have "sv_loop s \<in> v_loops v" using ok unfolding safe_def wired_def loops_of_def by blast
  moreover have "sv_loop s = v_main v" using ok unfolding safe_def wired_def by blast
  ultimately show ?thesis
    using ok f loop_thread_runs [OF ok] by (auto simp: TcpServer_removeConnection_def EventLoop_runInLoop_def intro!: safe_remove [OF k] safe_queue [OF k])
qed

section \<open>Applications\<close>

text \<open>What the functions of an application may assume and must keep. A connection or completion
  callback gets a connection that somebody holds; a message callback runs while the connection is
  in focus, in the thread of its loop. It finds the message in the input buffer and, if streams are observed, has
  to leave the input buffer and its hand empty: what it takes it sends back.\<close>

locale safe_app =
  fixes os :: "'k os" and usr :: "('k, 'z) server_scheme app"
  assumes connection_safe: "kernel_ok os v \<Longrightarrow> safe v held rest s \<Longrightarrow> c \<in># held \<Longrightarrow> runs (safe v held rest) (app_connection usr f c s)"
    and message_safe: "kernel_ok os v \<Longrightarrow> v_hand v = None \<Longrightarrow> v_focus v = Some c \<Longrightarrow> safe (v\<lparr>v_hand := Some []\<rparr>) held rest s \<Longrightarrow>
      runs (safe v held rest) (app_message usr f c t s)"
    and writeComplete_safe: "kernel_ok os v \<Longrightarrow> safe v held rest s \<Longrightarrow> c \<in># held \<Longrightarrow> runs (safe v held rest) (app_writeComplete usr f c s)"
    and highWaterMark_safe: "kernel_ok os v \<Longrightarrow> safe v held rest s \<Longrightarrow> c \<in># held \<Longrightarrow> runs (safe v held rest) (app_highWaterMark usr f c n s)"
    and user_safe: "kernel_ok os v \<Longrightarrow> safe v held rest s \<Longrightarrow> runs (safe v held rest) (app_user usr m s)"

lemma server_app_sel [simp]:
  "app_connection (server_app os usr) = app_connection usr" "app_message (server_app os usr) = app_message usr"
  "app_writeComplete (server_app os usr) = app_writeComplete usr"
  "app_highWaterMark (server_app os usr) = app_highWaterMark usr" "app_user (server_app os usr) = app_user usr"
  "app_close (server_app os usr) Bind_TcpServer_removeConnection = TcpServer_removeConnection os"
  by (simp_all add: server_app_def fun_eq_iff)

lemma safe_callbacks:
  assumes "safe v held rest s" and "c < next_conn s"
  shows "tc_connectionCallback (conns s c) \<noteq> None" "tc_messageCallback (conns s c) \<noteq> None"
    "tc_closeCallback (conns s c) = Some Bind_TcpServer_removeConnection"
  using safe_conn [OF assms] by (simp_all add: conn_wired_def Let_def)

lemma safe_drop:
  assumes "safe v held (add_mset t rest) s"
    and "\<And>c. t = Bind_removeConnectionInLoop c \<or> t = Bind_connectDestroyed c \<Longrightarrow> ch_index (chan s (ConnChannel c)) = kNew"
  shows "safe v held rest s"
  using assms drop_task_ok [of held t rest "ownership_of s"] by (auto simp: safe_def)

lemma safe_task:
  assumes "safe v held (add_mset t rest) s"
  shows "\<not> raw_task t" "task_owns t = Some c \<Longrightarrow> c < next_conn s \<and> c \<in># held \<and> refs s c \<noteq> 0"
proof -
  have own: "own_ok held (add_mset t rest) (ownership_of s)" using assms by (simp add: safe_def)
  then show "\<not> raw_task t" by (auto simp: own_ok_def tasks_ok_def)
  assume "task_owns t = Some c"
  with own have "c \<in># held" by (auto simp: own_ok_def held_ok_def)
  with safe_held [OF assms] show "c < next_conn s \<and> c \<in># held \<and> refs s c \<noteq> 0" by blast
qed

context safe_app
begin

lemma runs_connection:
  assumes "kernel_ok os v" and "safe v held rest s" and "c \<in># held"
  shows "runs (safe v held rest) (call_fn (tc_connectionCallback (conns s c)) (\<lambda>f. app_connection usr f c) s)"
  using safe_callbacks(1) [OF assms(2)] safe_held [OF assms(2,3)] connection_safe [OF assms]
  by (intro runs_call_fn) auto

lemma runs_handleClose:
  assumes io: "kernel_ok os v" and ok: "safe v held rest s" and c: "v_focus v = Some c"
  shows "runs (safe v held rest) (TcpConnection_handleClose os (server_app os usr) c s)"
  unfolding TcpConnection_handleClose_def
proof (rule runs_shared [OF io])
  show "safe v held rest (Channel_disbaleAll os (ConnChannel c) (TcpConnection_setState c kDisconnected s))"
    using ok c by (simp add: safe_setState focus_runs focus_masks [OF io])
  show "c \<in># held" using safe_focus [OF ok c] by simp
  fix t assume t: "safe v (add_mset c held) rest (t :: ('k, 'z) server_scheme)"
  have "runs (safe v (add_mset c held) rest)
      (call_fn (tc_closeCallback (conns u c)) (\<lambda>f. app_close (server_app os usr) f c) u)"
    if u: "safe v (add_mset c held) rest u" for u :: "('k, 'z) server_scheme"
    using safe_callbacks(3) [OF u] safe_focus(2) [OF u c] runs_removeConnection [OF io u c] by (simp add: call_fn_def)
  then show "runs (safe v (add_mset c held) rest)
      (and_then (call_fn (tc_connectionCallback (conns t c)) (\<lambda>f. app_connection (server_app os usr) f c) t) (\<lambda>s.
         call_fn (tc_closeCallback (conns s c)) (\<lambda>f. app_close (server_app os usr) f c) s))"
    using runs_connection [OF io t, of c] by (simp add: runs_then)
qed

lemma runs_handleRead:
  assumes io: "kernel_ok os v" and ok: "safe v held rest s" and c: "v_focus v = Some c" and h: "v_hand v = None"
  shows "runs (safe v held rest) (TcpConnection_handleRead os (server_app os usr) now c s)"
proof -
  let ?fresh = "v\<lparr>v_hand := Some []\<rparr>" and ?f = "ch_fd (chan s (ConnChannel c))"
  have msg: "runs (safe v held rest) (with_shared os c
      (\<lambda>s. call_fn (tc_messageCallback (conns s c)) (\<lambda>f. app_message usr f c now) s) t)"
    if t: "safe ?fresh held rest t" for t
  proof (rule runs_shared [OF io t])
    show "c \<in># held" using safe_focus [OF ok c] by simp
    fix u assume u: "safe ?fresh (add_mset c held) rest (u :: ('k, 'z) server_scheme)"
    show "runs (safe v (add_mset c held) rest) (call_fn (tc_messageCallback (conns u c)) (\<lambda>f. app_message usr f c now) u)"
      using safe_callbacks(2) [OF u] safe_focus(2) [OF u] c message_safe [OF io h c u] by (intro runs_call_fn) auto
  qed
  note buf = focus_buffers [OF ok c]
  have fl: "conn_flow v None c s" using safe_flow [OF ok c] safe_focus [OF ok c] h by simp
  let ?got = "\<lambda>b k'. upd_conn c (\<lambda>tc. tc\<lparr>tc_inputBuffer := b\<rparr>) (s\<lparr>kern := k'\<rparr>)"
  have got: "safe ?fresh held rest (?got b k')"
    if b: "buffer_ok b" "contents b = contents (tc_inputBuffer (conns s c)) @ d" "moved_in v ?f d (kern s) k'" for b d k'
  proof -
    have "conn_flow v (Some []) c (?got b k')"
      using fl b(2,3) by (auto simp: conn_flow_def Let_def moved_in_def intro: in_order_read [where rest = "[]", simplified])
    then show ?thesis using b buf by (intro safe_step [OF ok c]) (simp_all add: moved_in_def)
  qed
  have none: "safe v held rest (?got b k')"
    if b: "buffer_ok b" "contents b = contents (tc_inputBuffer (conns s c))" "moved_in v ?f [] (kern s) k'" for b k'
  proof -
    have "conn_flow v None c (?got b k')" using fl b(2,3) by (simp add: conn_flow_def Let_def moved_in_def)
    then have "safe (v\<lparr>v_hand := None\<rparr>) held rest (?got b k')" using b buf by (intro safe_step [OF ok c]) (simp_all add: moved_in_def)
    then show ?thesis using h by (simp add: view_same_hand)
  qed
  have "runs (safe v held rest) (if 0 < n then with_shared os c
          (\<lambda>s. call_fn (tc_messageCallback (conns s c)) (\<lambda>f. app_message usr f c now) s) (?got b k')
        else if n = 0 then TcpConnection_handleClose os (server_app os usr) c (?got b k')
        else Inr (TcpConnection_handleError os c (LOG_ERROR ''TcpConnection::handleRead'' 0 (?got b k'))))"
    if b: "buffer_ok b" "contents b = contents (tc_inputBuffer (conns s c)) @ d" "moved_in v ?f d (kern s) k'" "n \<le> 0 \<longrightarrow> d = []"
    for n :: int and b d k'
  proof (cases "0 < n")
    case True
    with msg [OF got [OF b(1-3)]] show ?thesis by simp
  next
    case False
    with b none [OF b(1)] have "safe v held rest (?got b k')" by simp
    with runs_handleClose [OF io this c] False io show ?thesis by simp
  qed
  then show ?thesis
    unfolding TcpConnection_handleRead_def Let_def server_app_sel
    by (intro runs_then [OF readFd_runs [OF io buf(1)]]) auto
qed

end

section \<open>Establishing and destroying\<close>

lemma est_once:
  assumes "safe v held (add_mset (Bind_connectEstablished c) rest) s"
  shows "c \<in> ran (sv_connections s)" "Bind_connectEstablished c \<notin># all_pending s + rest"
proof -
  let ?e = "Bind_connectEstablished c"
  have "establish_ok (add_mset ?e rest) (ownership_of s)" using assms by (simp add: safe_def own_ok_def)
  then have "count (all_pending s + add_mset ?e rest) ?e \<le> 1" "c \<in> ran (sv_connections s)"
    by (auto simp: establish_ok_def)
  then show "c \<in> ran (sv_connections s)" "?e \<notin># all_pending s + rest"
    by (simp_all add: count_eq_zero_iff)
qed

lemma all_pending_cong:
  "loops s' = loops s \<Longrightarrow> sv_loop s' = sv_loop s \<Longrightarrow> sv_threadPool s' = sv_threadPool s \<Longrightarrow> all_pending s' = all_pending s"
  by (simp add: all_pending_def loops_of_def)

context safe_app
begin

lemma runs_connectEstablished:
  assumes io: "kernel_ok os v" and ok: "safe v held rest s" and c: "c \<in># held" and map: "c \<in> ran (sv_connections s)"
    and est: "Bind_connectEstablished c \<notin># all_pending s + rest" and me: "runs_in v (tc_loop (conns s c))"
  shows "runs (safe v held rest) (TcpConnection_connectEstablished os (server_app os usr) c s)"
proof -
  have live: "c < next_conn s" "refs s c \<noteq> 0" using safe_held [OF ok c] by auto
  let ?s2 = "release os c (Channel_tie (ConnChannel c) c (retain c (TcpConnection_setState c kConnected s)))"
  have s2: "safe v held rest ?s2" by (rule safe_connect [OF ok live(2) me])
  moreover have "all_pending ?s2 = all_pending s" by (rule all_pending_cong) simp_all
  ultimately have "safe v held rest (Channel_enableReading os (ConnChannel c) ?s2)"
    using live(1) map est me unfolding Channel_enableReading_def
    by (intro safe_register [OF io]) (simp_all add: all_pending_def loops_of_def keeps_writing_masks)
  then have "runs (safe v held rest) (with_shared os c
      (\<lambda>s. call_fn (tc_connectionCallback (conns s c)) (\<lambda>f. app_connection usr f c) s)
      (Channel_enableReading os (ConnChannel c) ?s2))"
    using c by (intro runs_shared [OF io] runs_connection [OF io]) auto
  with live(2) show ?thesis
    by (simp add: TcpConnection_connectEstablished_def with_shared_def [of os c "\<lambda>s. Inr (Channel_tie (ConnChannel c) c s)"])
qed

lemma runs_connectDestroyed:
  assumes io: "kernel_ok os v" and ok: "safe v held (add_mset (Bind_connectDestroyed c) rest) s" and f: "v_focus v = None" "v_pin v c = None"
    and me: "homed v c"
  shows "runs (safe v held rest) (TcpConnection_connectDestroyed os (server_app os usr) c s)"
proof -
  let ?rest = "add_mset (Bind_connectDestroyed c) rest"
  have c: "c < next_conn s" "c \<in># held" using safe_task(2) [OF ok, of c] by auto
  have home: "runs_in v (tc_loop (conns t c))" if "safe v held ?rest t" for t :: "('k, 'z) server_scheme"
    using that by (intro homed_runs [OF me]) (simp add: safe_def)
  have bye: "runs (safe v held rest) (Inr (Channel_remove os (ConnChannel c) t))" if t: "safe v held ?rest t"
    for t :: "('k, 'z) server_scheme"
  proof -
    have "safe v held ?rest (Channel_remove os (ConnChannel c) t)"
      using f safe_held [OF t c(2)] home [OF t] by (intro safe_unregister [OF io t]) simp_all
    moreover have "ch_index (chan (Channel_remove os (ConnChannel c) t) (ConnChannel c)) = kNew"
      using remove_index by blast
    ultimately show ?thesis by (auto intro: safe_drop)
  qed
  have up: "runs (safe v held ?rest) (with_shared os c
      (\<lambda>s. call_fn (tc_connectionCallback (conns s c)) (\<lambda>f. app_connection usr f c) s)
      (Channel_disbaleAll os (ConnChannel c) (TcpConnection_setState c kDisconnected s)))"
    if conn: "tc_state (conns s c) = kConnected"
  proof -
    let ?s1 = "TcpConnection_setState c kDisconnected s"
    have "ch_tied (chan s (ConnChannel c)) \<and> ch_tie (chan s (ConnChannel c)) = Some c"
      using safe_conn [OF ok c(1)] conn by (simp add: conn_wired_def Let_def)
    moreover have "Bind_connectEstablished c \<notin># all_pending s + ?rest"
      using ok by (auto simp: safe_def own_ok_def establish_ok_def leaving_def)
    moreover have "all_pending ?s1 = all_pending s" by (rule all_pending_cong) simp_all
    ultimately have "safe v held ?rest (Channel_disbaleAll os (ConnChannel c) ?s1)"
      using ok c(1) home [OF ok] unfolding Channel_disbaleAll_def
      by (intro safe_register [OF io]) (simp_all add: safe_setState all_pending_def loops_of_def leaving_def keeps_writing_masks)
    then show ?thesis using c(2) by (intro runs_shared [OF io] runs_connection [OF io]) auto
  qed
  have "runs (safe v held ?rest) (if tc_state (conns s c) = kConnected then with_shared os c
      (\<lambda>s. call_fn (tc_connectionCallback (conns s c)) (\<lambda>f. app_connection usr f c) s)
      (Channel_disbaleAll os (ConnChannel c) (TcpConnection_setState c kDisconnected s)) else Inr s)"
    using up ok by simp
  then show ?thesis
    unfolding TcpConnection_connectDestroyed_def server_app_sel by (rule runs_then) (rule bye)
qed

end

lemma safe_acceptor:
  fixes s :: "('k, 'z) server_scheme"
  assumes "safe v held rest s" and "runs_in v (v_main v)"
  shows "safe v held rest (upd_acceptor f s)"
proof -
  have "confined v (upd_acceptor f s)"
    by (rule confined_server [of v s]) (use assms in \<open>simp_all add: safe_def upd_acceptor_def\<close>)
  moreover have "wired v (upd_acceptor f s) = wired v s" by (simp add: wiring_defs loops_of_def upd_acceptor_def)
  moreover have "ownership_of (upd_acceptor f s) = ownership_of s"
    by (simp add: ownership_of_def all_pending_def loops_of_def upd_acceptor_def)
  ultimately show ?thesis
    using assms(1) descs_cong [of "upd_acceptor f s" s v] flows_eq [of "upd_acceptor f s" s v] woken_eq [of "upd_acceptor f s" s v]
    by (simp add: safe_def upd_acceptor_def)
qed

lemma runs_listen:
  "kernel_ok os v \<Longrightarrow> safe v held rest s \<Longrightarrow> runs_in v (v_main v) \<Longrightarrow> runs (safe v held rest) (Acceptor_listen os s)"
  by (auto simp: safe_acceptor Acceptor_listen_def Socket_listen_def Let_def Channel_enableReading_def safe_kern kernel_quiet(7)
      intro!: safe_accept_channel split: prod.split)

context safe_app
begin

text \<open>A functor that leaves the batch.\<close>

lemma runs_exec_task:
  assumes io: "kernel_ok os v" and ok: "safe v held (add_mset t rest) s" and f: "v_focus v = None" "\<And>c. t = Bind_connectDestroyed c \<Longrightarrow> v_pin v c = None"
    and home: "\<And>c. t = Bind_connectEstablished c \<or> t = Bind_connectDestroyed c \<Longrightarrow> homed v c"
      "t = Bind_listen \<or> (\<exists>c. t = Bind_removeConnectionInLoop c) \<Longrightarrow> runs_in v (v_main v)"
  shows "runs (safe v held rest) (exec_task os (server_app os usr) t s)"
proof (cases "(\<exists>c. t = Bind_removeConnectionInLoop c) \<or> (\<exists>c. t = Bind_connectDestroyed c)")
  case True
  with ok f home show ?thesis by (auto intro: safe_remove [OF io] runs_connectDestroyed [OF io])
next
  case False
  then have drop: "safe v held rest s" using safe_drop [OF ok] by blast
  have "runs (safe v held rest) (TcpConnection_connectEstablished os (server_app os usr) c s)"
    if "t = Bind_connectEstablished c" for c
    using ok safe_task(2) [OF ok, of c] est_once [of v held c rest s] that homed_runs [OF home(1) safe_confinement [OF drop], of c]
    by (intro runs_connectEstablished [OF io drop]) auto
  then show ?thesis
    using safe_task(1) [OF ok] safe_task(2) [OF ok] drop False home(2)
    by (cases t) (auto intro: runs_listen [OF io] writeComplete_safe [OF io] highWaterMark_safe [OF io] user_safe [OF io])
qed

end

section \<open>New connections\<close>

lemma safe_names:
  assumes ok: "safe v held rest s"
  shows "names_ok s" and "sv_nextConnId s < 2147483647 \<Longrightarrow>
    connName (sv_name s) (sv_ipPort s) (sv_nextConnId s) \<notin> (\<lambda>c. tc_name (conns s c)) ` {..<next_conn s}"
proof -
  have num: "length (sv_ipPort s) \<le> 21" "sv_nextConnId s = int (next_conn s) + 1" "sv_nextConnId s \<le> 2147483647"
    using ok by (simp_all add: safe_def wired_def names_numbered_def)
  have nm: "tc_name (conns s c) = connName (sv_name s) (sv_ipPort s) (int c + 1)" if "c < next_conn s" for c
    using safe_conn [OF ok that] by (simp add: conn_wired_def Let_def)
  have "c < next_conn s \<and> tc_name (conns s c) = x" if "sv_connections s x = Some c" for x c
    using ok that by (simp add: safe_def own_ok_def entries_ok_def)
  note entry = this
  have "\<exists>i\<ge>1. i < sv_nextConnId s \<and> x = connName (sv_name s) (sv_ipPort s) i" if "sv_connections s x = Some c" for x c
    using entry [OF that] nm [of c] num(2) by (intro exI [of _ "int c + 1"]) auto
  with num entry show "names_ok s" unfolding names_ok_def by auto
  show "connName (sv_name s) (sv_ipPort s) (sv_nextConnId s) \<notin> (\<lambda>c. tc_name (conns s c)) ` {..<next_conn s}"
    if "sv_nextConnId s < 2147483647"
    using num nm that by (auto simp: connName_inject)
qed

text \<open>A descriptor that is open, not yet anybody's, and has no stream yet.\<close>

definition unclaimed :: "'k view \<Rightarrow> fd \<Rightarrow> ('k, 'z) server_scheme \<Rightarrow> bool" where
  "unclaimed v f s \<longleftrightarrow> unused (v_open v) (v_loops v) (live (v_loops v) s) f s \<and>
     (\<forall>st. v_streams v = Some st \<longrightarrow> st_wire st (kern s) f = [] \<and> st_recv st (kern s) f = [])"

lemma safe_kern_descs:
  assumes "safe v held rest s" and "descs v (s\<lparr>kern := k\<rparr>)" and "flows v (s\<lparr>kern := k\<rparr>)" and "woken v (s\<lparr>kern := k\<rparr>)"
  shows "safe v held rest (s\<lparr>kern := k\<rparr>)"
  using assms confined_eq [of "s\<lparr>kern := k\<rparr>" s v] by (simp add: safe_def)

lemma accept_opens:
  fixes s :: "('k, 'z) server_scheme"
  assumes k: "kernel_ok os v" and ok: "safe v held rest s" and a: "sys_accept4 os f (kern s) = ((connfd, e, addr), k')"
  shows "safe v held rest (s\<lparr>kern := k'\<rparr>)" and "0 \<le> connfd \<Longrightarrow> unclaimed v connfd (s\<lparr>kern := k'\<rparr>)"
proof -
  have o: "opens (v_interest v) (v_open v) connfd (kern s) k'"
    using kernel_contracts(2) [OF k] a unfolding descriptor_contract_def by (metis fst_conv snd_conv)
  note d = descriptors_opens [OF _ o]
  note st = streams_accept [OF kernel_streams [OF k] a]
  have ok': "descriptors_ok (v_interest v) (v_open v) (v_loops v) (live (v_loops v) s) s" using ok by (simp add: safe_def descs_def)
  have l: "live L (s\<lparr>kern := k'\<rparr>) = live L s" for L by (simp add: live_def)
  have "flows v s" using ok by (simp add: safe_def)
  then have fl: "flows v (s\<lparr>kern := k'\<rparr>)"
  proof (rule flows_cong [where G = "{h. h = connfd \<and> 0 \<le> connfd}"])
    fix c assume c: "c < next_conn s" "refs (s\<lparr>kern := k'\<rparr>) c \<noteq> 0"
    have "ch_fd (chan s p) \<in> v_open v (kern s)" if "p \<in> live (v_loops v) s" for p
      using ok' that by (simp add: descriptors_ok_def)
    from this [of "ConnChannel c"] c o show "ch_fd (chan s (ConnChannel c)) \<notin> {h. h = connfd \<and> 0 \<le> connfd}"
      by (auto simp: opens_def)
  qed (use st(1) in simp_all)
  have w: "wired v s" using ok by (simp add: safe_def)
  have "woken v s" using ok by (simp add: safe_def)
  then have wk: "woken v (s\<lparr>kern := k'\<rparr>)"
  proof (rule woken_cong [where G = "{h. h = connfd \<and> 0 \<le> connfd}"])
    show "counters_kept v {h. h = connfd \<and> 0 \<le> connfd} (kern s) (kern (s\<lparr>kern := k'\<rparr>))"
      using counters_local(4) [OF kernel_counters [OF k] a] by simp
    fix x assume x: "x \<in> v_loops v"
    then have "WakeupChannel x \<in> live (v_loops v) s" by (simp add: live_def)
    with ok' have "el_wakeupFd (loops s x) \<in> v_open v (kern s)" unfolding wakeup_fd [OF w x] descriptors_ok_def by blast
    with o show "el_wakeupFd (loops s x) \<notin> {h. h = connfd \<and> 0 \<le> connfd}" by (auto simp: opens_def)
  qed simp_all
  show "safe v held rest (s\<lparr>kern := k'\<rparr>)" using d(1) [OF ok'] fl wk by (intro safe_kern_descs [OF ok]) (simp_all add: descs_def l)
  show "0 \<le> connfd \<Longrightarrow> unclaimed v connfd (s\<lparr>kern := k'\<rparr>)" using d(2) [OF ok'] st(2) by (simp add: unclaimed_def l)
qed

lemma unclaimed_apart: "unclaimed v f s \<Longrightarrow> c < next_conn s \<Longrightarrow> refs s c \<noteq> 0 \<Longrightarrow> ch_fd (chan s (ConnChannel c)) \<noteq> f"
  by (simp add: unclaimed_def unused_def)

lemma unclaimed_close:
  fixes s :: "('k, 'z) server_scheme"
  assumes k: "kernel_ok os v" and ok: "safe v held rest s" and u: "unclaimed v f s"
  shows "safe v held rest (s\<lparr>kern := sys_close os f (kern s)\<rparr>)"
proof (rule safe_kern_descs [OF ok])
  have d: "descs v s" and fl: "flows v s" using ok by (simp_all add: safe_def)
  have "unused (v_open v) (v_loops v) (live (v_loops v) s) f s" using u by (simp add: unclaimed_def)
  from descriptors_close [OF kernel_contracts(2) [OF k] d [unfolded descs_def] this]
  show "descs v (s\<lparr>kern := sys_close os f (kern s)\<rparr>)" by (simp add: descs_def live_def)
  show "flows v (s\<lparr>kern := sys_close os f (kern s)\<rparr>)"
    by (rule flows_cong [OF fl, where G = "{f}"])
      (use unclaimed_apart [OF u] streams_local(4) [OF kernel_streams [OF k]] in simp_all)
  have w: "wired v s" "woken v s" using ok by (simp_all add: safe_def)
  have "el_wakeupFd (loops s x) \<noteq> f" if x: "x \<in> v_loops v" for x
    unfolding wakeup_fd [OF w(1) x] using u x by (auto simp: unclaimed_def unused_def live_def)
  then show "woken v (s\<lparr>kern := sys_close os f (kern s)\<rparr>)"
    by (intro woken_cong [OF w(2), where G = "{f}"]) (simp_all add: counters_local(3) [OF kernel_counters [OF k]])
qed

text \<open>The new connection on the stack of \<^verbatim>\<open>newConnection\<close>, before it is handed to its loop.\<close>

lemma created_wired:
  fixes s s9 :: "('k, 'z) server_scheme"
  assumes ok: "safe v held rest s" and id: "sv_nextConnId s < 2147483647"
    and pick: "EventLoopThreadPool_getNextLoop (sv_threadPool s) = Inr (ioLoop, tp)" and new: "created s ioLoop tp sockfd loc peerAddr s9"
  shows "wired v s9" and "ioLoop \<in> v_loops v" and "all_pending s9 = all_pending s"
proof -
  let ?c = "next_conn s"
  note s9 = createdD [OF new]
  have w: "wired v s" and own: "own_ok held rest (ownership_of s)" using ok by (auto simp: safe_def)
  have pool: "pool_ok (sv_threadPool s)" "tp_baseloop (sv_threadPool s) = sv_loop s" "v_loops v = loops_of s"
    using w unfolding wired_def by blast+
  note keep = getNextLoop_keeps_ok [OF pool(1) pick]
  have base: "tp_baseloop tp = sv_loop s"
    using pick getNextLoop_ok [OF pool(1)] pool(2) by (auto split: if_splits)
  have L: "loops_of s9 = loops_of s" by (simp add: loops_of_def s9 keep(5))
  then show "all_pending s9 = all_pending s" by (simp add: all_pending_def s9)
  show io: "ioLoop \<in> v_loops v"
    using keep(3) pool by (auto simp: loops_of_def EventLoopThreadPool_getAllLoops_def split: if_splits)
  have "conn_wired (v_loops v) c s9" if "c < next_conn s9" for c
  proof (cases "c = ?c")
    case True
    have "sv_nextConnId s = int ?c + 1" using w unfolding wired_def names_numbered_def by blast
    with True w io show ?thesis
      by (simp add: conn_wired_def Let_def s9 new_object_defs wired_def Buffer_ctor_initial)
  next
    case False
    with that have "c < ?c" by (simp add: s9)
    from safe_conn [OF ok this] False show ?thesis by (simp add: conn_wired_def Let_def s9)
  qed
  moreover have "known (v_loops v) (next_conn s9) p" if "l \<in> v_loops v" "pl_channels (el_poller (loops s9 l)) f = Some p" for l f p
  proof -
    have "known (v_loops v) ?c p" using w that unfolding wired_def s9 by blast
    then show ?thesis by (cases p) (simp_all add: s9)
  qed
  moreover have "placed (v_loops v) s9"
  proof -
    have "c \<noteq> ?c" if "l \<in> loops_of s" "t \<in> set (el_pendingFunctors (loops s l))" "task_owns t = Some c" for l c t
      using pending_owner [OF own, of t c] pending_all [OF that(1,2)] that(3) by auto
    from this [where t = "Bind_connectDestroyed _"] this [where t = "Bind_connectEstablished _"]
    have "c \<noteq> ?c" if "l \<in> loops_of s" "Bind_connectDestroyed c \<in> set (el_pendingFunctors (loops s l)) \<or>
        Bind_connectEstablished c \<in> set (el_pendingFunctors (loops s l))" for l c using that by fastforce
    moreover have "placed (loops_of s) s" using w pool(3) unfolding wired_def by simp
    ultimately show ?thesis unfolding pool(3) placed_def s9 by (metis fun_upd_other)
  qed
  moreover have "names_numbered s9" using w id unfolding wired_def names_numbered_def by (simp add: s9)
  moreover have "wakeup_watched l s9 = wakeup_watched l s" for l by (simp add: wakeup_watched_def s9)
  ultimately show "wired v s9"
    using w keep(1) base unfolding wired_def L by (simp add: s9)
qed

lemma created_loop: "created s ioLoop tp sockfd loc peerAddr s9 \<Longrightarrow> tc_loop (conns s9 (next_conn s)) = ioLoop"
  by (simp add: created_def new_object_defs Let_def)

lemma created_descs:
  fixes s s9 :: "('k, 'z) server_scheme"
  assumes ok: "safe v held rest s" and u: "unclaimed v sockfd s" and io: "ioLoop \<in> v_loops v"
    and new: "created s ioLoop tp sockfd loc peerAddr s9" and q: "quiet v {} (kern s) (kern s9)"
  shows "descs v s9"
proof -
  let ?t = "s\<lparr>kern := kern s9\<rparr>" and ?P = "live (v_loops v) s" and ?p = "ConnChannel (next_conn s)"
  note s9 = createdD [OF new] and k = quietD(1) [OF q]
  have "descs v ?t = descs v s" by (rule descs_cong) (simp_all add: k)
  then have t: "descriptors_ok (v_interest v) (v_open v) (v_loops v) ?P ?t" using ok by (simp add: safe_def descs_def live_def)
  have "unused (v_open v) (v_loops v) ?P sockfd ?t"
    using u k by (simp add: unclaimed_def unused_def epfd_def same_fds_def)
  then have "descriptors_ok (v_interest v) (v_open v) (v_loops v) (insert ?p ?P) s9"
    using io descriptors_channel [OF t, of ?p "chan s9 ?p" s9] by (simp add: s9(2,3) new_object_defs)
  moreover have "p \<in> live (v_loops v) s9 \<longleftrightarrow> p \<in> insert ?p ?P" for p
    by (cases p) (auto simp: live_def s9(4,8))
  then have "live (v_loops v) s9 = insert ?p ?P" by blast
  ultimately show ?thesis by (simp add: descs_def)
qed

lemma created_flows:
  fixes s s9 :: "('k, 'z) server_scheme"
  assumes ok: "safe v held rest s" and u: "unclaimed v sockfd s" and f: "v_focus v = None"
    and new: "created s ioLoop tp sockfd loc peerAddr s9" and q: "quiet v {} (kern s) (kern s9)"
  shows "flows v s9"
proof -
  note s9 = createdD [OF new]
  have old: "conn_flow v None c s" if "c < next_conn s" "refs s c \<noteq> 0" for c
    using ok that f unfolding safe_def flows_def by (metis hand_of_simps(3))
  have "conn_flow v None c s9" if c: "c < next_conn s9" "refs s9 c \<noteq> 0" for c
  proof (cases "c = next_conn s")
    case True
    with u quietD(2) [OF q] show ?thesis
      by (auto simp: conn_flow_def Let_def s9 new_object_defs Channel_isWriting_def Buffer_ctor_initial unclaimed_def kept_def
          intro!: in_order_init)
  next
    case False
    with c old [of c] have "conn_flow v None c s" by (simp add: s9)
    then show ?thesis by (rule conn_flow_cong [where G = "{}"]) (use False quietD(2) [OF q] in \<open>simp_all add: s9\<close>)
  qed
  then show ?thesis using safe_no_hand [OF ok f] by (simp add: flows_def f)
qed

lemma safe_create:
  fixes s s9 :: "('k, 'z) server_scheme"
  assumes ok: "safe v held rest s" and u: "unclaimed v sockfd s" and f: "v_focus v = None" and id: "sv_nextConnId s < 2147483647"
    and pick: "EventLoopThreadPool_getNextLoop (sv_threadPool s) = Inr (ioLoop, tp)"
    and new: "created s ioLoop tp sockfd loc peerAddr s9" and q: "quiet v {} (kern s) (kern s9)"
    and me: "runs_in v (v_main v)"
  shows "safe v (add_mset (next_conn s) held) rest s9"
proof -
  let ?nm = "connName (sv_name s) (sv_ipPort s) (sv_nextConnId s)"
  note s9 = createdD [OF new] and w = created_wired [OF ok id pick new]
  have own: "own_ok held rest (ownership_of s)" using ok by (simp add: safe_def)
  have "ownership_of s9 = o_create ?nm (ownership_of s)"
    by (simp add: ownership_of_def o_create_def Let_def w(3) s9 fun_eq_iff new_object_defs)
  moreover have "own_ok (add_mset (next_conn s) held) rest (o_create ?nm (ownership_of s))"
    using create_ok [OF own, of ?nm] safe_names(2) [OF ok id] by (simp add: ownership_of_def)
  moreover have "c < next_conn s9 \<and> tc_loop (conns s9 c) = l \<and> ch_index (chan s9 (ConnChannel c)) \<noteq> kNew"
    if "v_pin v c = Some l" for c l
  proof -
    have "c < next_conn s \<and> tc_loop (conns s c) = l \<and> ch_index (chan s (ConnChannel c)) \<noteq> kNew"
      using ok that unfolding safe_def by blast
    then show ?thesis by (simp add: s9)
  qed
  moreover have "confined v s9" by (rule confined_server [of v s]) (use ok me in \<open>simp_all add: safe_def s9\<close>)
  ultimately show ?thesis
    using f w(1) ok created_descs [OF ok u w(2) new q] created_flows [OF ok u f new q] woken_eq [of s9 s v] quietD(3) [OF q]
    by (simp add: safe_def s9)
qed

context safe_app
begin

lemma runs_newConnection:
  assumes io: "kernel_ok os v" and ok: "safe v held rest s" and f: "v_focus v = None" and u: "unclaimed v sockfd s" and me: "runs_in v (v_main v)"
  shows "runs (safe v held rest) (TcpServer_newConnection os (server_app os usr) sockfd peerAddr s)"
proof -
  let ?c = "next_conn s" and ?app = "server_app os usr"
  have pool: "pool_ok (sv_threadPool s)" using ok unfolding safe_def wired_def by blast
  obtain ioLoop tp where pick: "EventLoopThreadPool_getNextLoop (sv_threadPool s) = Inr (ioLoop, tp)"
    using getNextLoop_ok [OF pool] by blast
  show ?thesis
  proof (cases "sv_nextConnId s = 2147483647")
    case True
    with pick show ?thesis by (simp add: TcpServer_newConnection_def)
  next
    case False
    have id: "sv_nextConnId s < 2147483647" using safe_names(1) [OF ok] False by (simp add: names_ok_def)
    obtain s9 loc where run: "TcpServer_newConnection os ?app sockfd peerAddr s =
        and_then (EventLoop_runInLoop os ioLoop (Bind_connectEstablished ?c)
           (TcpConnection_connectEstablished os ?app ?c) s9) (\<lambda>s10. Inr (release os ?c s10))"
      and new: "created s ioLoop tp sockfd loc peerAddr s9"
      and kern: "kern s9 = sys_setsockopt os sockfd SO_KEEPALIVE (optval True) (snd (sys_getsockname os sockfd (kern s)))"
      using newConnection_run [OF safe_names(1) [OF ok] id pick, of os ?app sockfd peerAddr] by blast
    have "quiet v {} (kern s) (snd (sys_getsockname os sockfd (kern s)))"
      by (rule kernel_quiet(8) [OF io prod.collapse [symmetric]])
    then have k: "quiet v {} (kern s) (kern s9)" unfolding kern by (rule quiet_trans) (rule kernel_quiet(9) [OF io])
    note s9 = safe_create [OF ok u f id pick new k me] created_wired(2,3) [OF ok id pick new]
    have reg: "?c \<in> ran (sv_connections s9)" "ch_index (chan s9 (ConnChannel ?c)) = kNew"
      unfolding createdD(2,6) [OF new] by (auto simp: ran_def new_object_defs)
    have fresh: "task_owns t \<noteq> Some ?c" if "t \<in># all_pending s9 + rest" for t
      using ok that s9(3) by (auto simp: safe_def own_ok_def tasks_ok_def)
    then have "Bind_connectEstablished ?c \<notin># all_pending s9 + rest" "\<not> leaving ?c (all_pending s9 + rest)"
      unfolding leaving_def by fastforce+
    with s9 reg createdD(4,8) [OF new] have "runs (safe v (add_mset ?c held) rest) (EventLoop_runInLoop os ioLoop (Bind_connectEstablished ?c)
           (TcpConnection_connectEstablished os ?app ?c) s9)"
      using loop_thread_runs [OF s9(1), of ioLoop] created_loop [OF new]
      by (cases "EventLoop_isInLoopThread ioLoop s9")
        (auto simp: EventLoop_runInLoop_def intro!: runs_connectEstablished [OF io s9(1)] safe_queue [OF io s9(1)])
    moreover have "held_ok held rest (ownership_of s)" using ok by (simp add: safe_def own_ok_def)
    ultimately show ?thesis
      unfolding run using f by (elim runs_then) (auto intro: safe_release [OF io])
  qed
qed

end

section \<open>Dispatch\<close>

lemma safe_wakeup_read:
  fixes s :: "('k, 'z) server_scheme"
  assumes k: "kernel_ok os v" and ok: "safe v held rest s" and l: "l \<in> v_loops v" "l \<in> v_busy v"
  shows "safe v held rest (EventLoop_handleRead os l s)"
proof -
  have d: "descs v s" "wired v s" "woken v s" using ok by (simp_all add: safe_def)
  have "safe v held rest (s\<lparr>kern := k'\<rparr>)" if r: "sys_read os (el_wakeupFd (loops s l)) n (kern s) = (r, k')" for n r k'
  proof (rule safe_kern_at [OF ok kernel_quiet(2) [OF k r]])
    show "ch_fd (chan s (ConnChannel c)) \<notin> {el_wakeupFd (loops s l)}" if "c < next_conn s" "refs s c \<noteq> 0" for c
      using fds_apart(2) [OF d(1) that d(2) l(1)] by simp
    show "woken v (s\<lparr>kern := k'\<rparr>)"
      using wakeup_apart [OF d(1,2) l(1)] by (intro woken_read [OF kernel_counters [OF k] d(3) l r])
  qed
  then show ?thesis by (auto simp: EventLoop_handleRead_def Let_def split: prod.split)
qed

lemma runs_guard:
  fixes s :: "('k, 'z) reactor_scheme"
  assumes "P s" and "\<And>cb (u :: ('k, 'z) reactor_scheme). P u \<Longrightarrow>
      cb \<in> {ch_closeCallback (chan u p), ch_errorCallback (chan u p), ch_readCallback (chan u p), ch_writeCallback (chan u p)} \<Longrightarrow>
      runs P (call_if_set run cb t u)"
  shows "runs P (Channel_handleEventWithGuard run t p s)"
  unfolding Channel_handleEventWithGuard_def
  by (intro runs_then [where P = P] conjI impI; (simp add: assms)?)

lemma safe_change_focus:
  assumes "safe v held rest s" and "c \<in># held" and "v_me v = v_tid v (tc_loop (conns s c))"
    and "ch_index (chan s (ConnChannel c)) \<noteq> kNew" and "v_hand v = None"
  shows "safe (v\<lparr>v_focus := Some c\<rparr>) held rest s"
  using assms flows_focus [of v s "Some c"] by (simp add: safe_def wired_def)

context safe_app
begin

lemma runs_accept:
  assumes io: "kernel_ok os v" and ok: "safe v held rest s" and f: "v_focus v = None" and me: "runs_in v (v_main v)"
  shows "runs (safe v held rest) (Acceptor_handleRead os inet (TcpServer_newConnection os (server_app os usr)) s)"
proof -
  obtain connfd e addr k' where a: "sys_accept4 os (ac_socket (the_acceptor s)) (kern s) = ((connfd, e, addr), k')"
    by (metis prod_cases3 surj_pair)
  note new = accept_opens [OF io ok a]
  note closed = unclaimed_close [OF io new]
  show ?thesis
    using new closed a runs_newConnection [OF io new(1) f new(2) me] by (simp add: Acceptor_handleRead_def Socket_accept_def Let_def)
qed

lemma runs_conn_callback:
  assumes io: "kernel_ok os v" and ok: "safe v held rest s" and f: "v_focus v = Some c" and h: "v_hand v = None"
    and cb: "cb \<in> {Bind_TcpConnection_handleRead c, Bind_TcpConnection_handleWrite c, Bind_TcpConnection_handleClose c,
      Bind_TcpConnection_handleError c}"
  shows "runs (safe v held rest) (run_callback os inet (server_app os usr) cb t s)"
proof -
  have "refs s c \<noteq> 0" using safe_focus [OF ok f] by simp
  with ok f h cb show ?thesis
    by (auto simp: on_live_def simp: io intro: runs_handleRead [OF io] runs_handleWrite [OF io] runs_handleClose [OF io])
qed

lemma runs_conn_event:
  assumes io: "kernel_ok os v" and ok: "safe v held rest s" and f: "v_focus v = None" and c: "c < next_conn s"
    and reg: "ch_index (chan s (ConnChannel c)) \<noteq> kNew" and me: "v_me v = v_tid v (tc_loop (conns s c))"
  shows "runs (safe v held rest) (Channel_handleEvent os (run_callback os inet (server_app os usr)) t (ConnChannel c) s)"
proof -
  let ?v = "v\<lparr>v_focus := Some c\<rparr>" and ?run = "run_callback os inet (server_app os usr)"
  have tie: "ch_tied (chan s (ConnChannel c))" "ch_tie (chan s (ConnChannel c)) = Some c"
    using safe_conn [OF ok c] reg by (simp_all add: conn_wired_def Let_def)
  have live: "refs s c \<noteq> 0"
    using own_alive(4) [of held rest "ownership_of s" c] ok reg c by (simp add: safe_def)
  have h: "held_ok held rest (ownership_of s)" using ok by (simp add: safe_def own_ok_def)
  have hand: "v_hand v = None" by (rule safe_no_hand [OF ok f])
  have "safe ?v (add_mset c held) rest (retain c s)"
    using safe_retain [OF ok c live] me reg hand by (intro safe_change_focus) simp_all
  then have "runs (safe ?v (add_mset c held) rest) (Channel_handleEventWithGuard ?run t (ConnChannel c) (retain c s))"
  proof (rule runs_guard)
    fix cb and u :: "('k, 'z) server_scheme"
    assume u: "safe ?v (add_mset c held) rest u"
      and cb: "cb \<in> {ch_closeCallback (chan u (ConnChannel c)), ch_errorCallback (chan u (ConnChannel c)),
        ch_readCallback (chan u (ConnChannel c)), ch_writeCallback (chan u (ConnChannel c))}"
    have "conn_wired (v_loops ?v) c u" using safe_conn [OF u] safe_focus(2) [OF u] by simp
    then have "cb \<in> Some ` {Bind_TcpConnection_handleRead c, Bind_TcpConnection_handleWrite c,
        Bind_TcpConnection_handleClose c, Bind_TcpConnection_handleError c}"
      using cb unfolding conn_wired_def Let_def by auto
    then show "runs (safe ?v (add_mset c held) rest) (call_if_set ?run cb t u)"
      using runs_conn_callback [of ?v, OF _ u, of c] io hand by (auto simp: call_if_set_def simp del: run_callback.simps)
  qed
  then have "runs (safe v held rest) (and_then (Channel_handleEventWithGuard ?run t (ConnChannel c) (retain c s))
      (\<lambda>s. Inr (release os c s)))"
  proof (rule runs_then)
    fix u :: "('k, 'z) server_scheme" assume "safe ?v (add_mset c held) rest u"
    moreover have "v\<lparr>v_focus := None\<rparr> = v" using f by (cases v) simp
    ultimately have "safe v (add_mset c held) rest u" using safe_unfocus [of ?v] hand by fastforce
    with h f show "runs (safe v held rest) (Inr (release os c u))" by (auto intro: safe_release [OF io])
  qed
  with tie live show ?thesis by (simp add: Channel_handleEvent_def)
qed

end

lemma runs_reader_event:
  fixes s :: "('k, 'z) server_scheme"
  assumes ok: "safe v held rest s"
    and rd: "\<And>u :: ('k, 'z) server_scheme. safe v held rest u \<Longrightarrow> reader_only cb (chan u p)"
    and run: "\<And>u. safe v held rest u \<Longrightarrow> runs (safe v held rest) (run cb t u)"
  shows "runs (safe v held rest) (Channel_handleEvent os run t p s)"
proof -
  have "runs (safe v held rest) (Channel_handleEventWithGuard run t p s)"
  proof (rule runs_guard [where P = "safe v held rest"])
    show "safe v held rest s" by (rule ok)
    fix f and u :: "('k, 'z) server_scheme"
    assume u: "safe v held rest u" and f: "f \<in> {ch_closeCallback (chan u p), ch_errorCallback (chan u p),
        ch_readCallback (chan u p), ch_writeCallback (chan u p)}"
    have "f \<in> {None, Some cb}" using f rd [OF u] by (auto simp: reader_only_def)
    with run [OF u] u show "runs (safe v held rest) (call_if_set run f t u)" by (auto simp: call_if_set_def)
  qed
  with rd [OF ok] show ?thesis by (simp add: Channel_handleEvent_def reader_only_def)
qed

text \<open>A channel as a loop finds it in its list of active channels.\<close>

definition dispatchable :: "'k view \<Rightarrow> chan_ptr \<Rightarrow> ('k, 'z) server_scheme \<Rightarrow> bool" where
  "dispatchable v p s \<longleftrightarrow> known (v_loops v) (next_conn s) p \<and> (\<forall>l. p = WakeupChannel l \<longrightarrow> l \<in> v_busy v) \<and>
     (p = AcceptChannel \<longrightarrow> v_me v = v_tid v (v_main v)) \<and>
     (\<forall>c. p = ConnChannel c \<longrightarrow> ch_index (chan s p) \<noteq> kNew \<and> v_me v = v_tid v (tc_loop (conns s c)))"

context safe_app
begin

lemma runs_handleEvent:
  assumes io: "kernel_ok os v" and ok: "safe v held rest s" and f: "v_focus v = None" and p: "dispatchable v p s"
  shows "runs (safe v held rest) (Channel_handleEvent os (run_callback os inet (server_app os usr)) t p s)"
proof (cases p)
  case (WakeupChannel l)
  have "reader_only (Bind_EventLoop_handleRead l) (chan u p)" if "safe v held rest u" for u :: "('k, 'z) server_scheme"
    using that p WakeupChannel unfolding safe_def wired_def dispatchable_def by simp
  then show ?thesis
  proof (rule runs_reader_event [OF ok])
    fix u :: "('k, 'z) server_scheme" assume u: "safe v held rest u"
    have "l \<in> v_loops v" "l \<in> v_busy v" using p WakeupChannel by (simp_all add: dispatchable_def)
    from safe_wakeup_read [OF io u this]
    show "runs (safe v held rest) (run_callback os inet (server_app os usr) (Bind_EventLoop_handleRead l) t u)" by simp
  qed
next
  case AcceptChannel
  have "reader_only Bind_Acceptor_handleRead (chan u p)" if "safe v held rest u" for u :: "('k, 'z) server_scheme"
    using that AcceptChannel unfolding safe_def wired_def by simp
  moreover have "runs_in v (v_main v)" using p AcceptChannel by (simp add: dispatchable_def runs_in_me)
  ultimately show ?thesis using runs_accept [OF io _ f]
    by (intro runs_reader_event [where cb = Bind_Acceptor_handleRead, OF ok]) simp_all
next
  case (ConnChannel c)
  with p show ?thesis by (auto simp: dispatchable_def intro: runs_conn_event [OF io ok f])
qed

end

section \<open>A batch of functors\<close>

text \<open>The batch leaves the queue and its pointers are on the stack.\<close>

lemma all_pending_take:
  assumes "l \<in> loops_of s"
  shows "all_pending s = all_pending (upd_loop l (\<lambda>e. e\<lparr>el_callingPendingFunctors := b, el_pendingFunctors := []\<rparr>) s) +
    mset (el_pendingFunctors (loops s l))"
proof -
  let ?s = "upd_loop l (\<lambda>e. e\<lparr>el_callingPendingFunctors := b, el_pendingFunctors := []\<rparr>) s"
  have L: "loops_of ?s = loops_of s" by (simp add: loops_of_def)
  have "all_pending ?s = (\<Sum>x \<in> loops_of s - {l}. mset (el_pendingFunctors (loops s x)))"
    unfolding all_pending_def L by (subst sum.remove [OF loops_of_finite assms]) simp
  then show ?thesis unfolding all_pending_def [of s] by (subst sum.remove [OF loops_of_finite assms]) (simp add: add.commute)
qed

lemma safe_take:
  assumes ok: "safe v {#} {#} s" and l: "l \<in> v_loops v" and me: "runs_in v l"
  shows "safe (v\<lparr>v_busy := v_busy v - {l}\<rparr>) (owners (mset (el_pendingFunctors (loops s l)))) (mset (el_pendingFunctors (loops s l)))
    (upd_loop l (\<lambda>e. e\<lparr>el_callingPendingFunctors := True, el_pendingFunctors := []\<rparr>) s)" (is "safe ?v (owners ?B) ?B ?s")
proof -
  have own: "own_ok {#} {#} (ownership_of s)" and L: "l \<in> loops_of s"
    using ok l by (auto simp: safe_def wired_def)
  have "ownership_of ?s = (ownership_of s)\<lparr>o_tasks := all_pending ?s\<rparr>" by (simp add: ownership_of_def)
  moreover have "own_ok (owners ?B) ?B ((ownership_of s)\<lparr>o_tasks := all_pending ?s\<rparr>)"
    using take_ok [OF own] all_pending_take [OF L] by simp
  moreover have "wired v ?s"
    using ok by (auto simp: safe_def wiring_defs loops_of_def simp del: not_None_eq)
  moreover have "descs v ?s = descs v s" by (rule descs_cong) simp_all
  moreover have "flows v ?s = flows v s" by (rule flows_eq) simp_all
  moreover have "woken ?v ?s" using ok by (intro woken_take) (simp add: safe_def)
  moreover have "wired ?v ?s = wired v ?s" by (simp add: wired_def)
  moreover have "confined v ?s" using ok me by (intro confined_upd_loop) (simp_all add: safe_def)
  ultimately show ?thesis using ok by (simp add: safe_def)
qed

text \<open>The flag that the batch is running goes down when counters are no longer observed.\<close>

lemma safe_done [simp]:
  "v_wake v = None \<Longrightarrow> v_start v = None \<Longrightarrow> safe v held rest (upd_loop l (\<lambda>e. e\<lparr>el_callingPendingFunctors := b\<rparr>) s) = safe v held rest s"
proof -
  let ?s = "upd_loop l (\<lambda>e. e\<lparr>el_callingPendingFunctors := b\<rparr>) s"
  have "el_pendingFunctors (loops ?s x) = el_pendingFunctors (loops s x)" "el_poller (loops ?s x) = el_poller (loops s x)"
    "el_threadId (loops ?s x) = el_threadId (loops s x)" "el_wakeupFd (loops ?s x) = el_wakeupFd (loops s x)" for x by simp_all
  moreover have "descs v ?s = descs v s" by (rule descs_cong) simp_all
  moreover have "flows v ?s = flows v s" by (rule flows_eq) simp_all
  moreover assume "v_wake v = None" "v_start v = None"
  ultimately show "safe v held rest ?s = safe v held rest s"
    by (simp add: safe_def wiring_defs loops_of_def ownership_of_def all_pending_def del: upd_loop_sel(6))
qed

lemma safe_release_batch:
  fixes s :: "('k, 'z) server_scheme"
  assumes k: "kernel_ok os v" and "safe v (owners (mset ts)) {#} s" and "v_focus v = None"
  shows "safe v {#} {#} (fold (release_task os) ts s)"
  using assms(2,3)
proof (induction ts arbitrary: s)
  case Nil
  then show ?case by (simp add: owners_def)
next
  case (Cons t ts)
  have "safe v (owners (mset ts)) {#} (release_task os t s)"
  proof (cases "task_owns t")
    case None
    with Cons.prems show ?thesis by (simp add: release_task_def owners_def)
  next
    case (Some c)
    with Cons.prems have ok: "safe v (add_mset c (owners (mset ts))) {#} s" by (simp add: owners_def)
    then have "held_ok (owners (mset ts)) {#} (ownership_of s)" by (simp add: safe_def own_ok_def held_ok_def)
    with ok Cons.prems(2) Some show ?thesis by (simp add: release_task_def safe_release [OF k])
  qed
  with Cons show ?case by simp
qed

text \<open>Dropping the pointers and lowering the flag concern different things.\<close>

lemma release_batch_flag:
  "fold (release_task os) ts (upd_loop l f s) = upd_loop l f (fold (release_task os) ts s)"
proof (induction ts arbitrary: s)
  case (Cons t ts)
  have "release_task os t (upd_loop l f s) = upd_loop l f (release_task os t s)"
    by (simp add: release_task_def release_def TcpConnection_dtor_def Socket_dtor_def upd_loop_def Let_def split: option.split)
  with Cons show ?case by simp
qed simp

lemma safe_batch_done:
  fixes s :: "('k, 'z) server_scheme"
  assumes k: "kernel_ok os v" and f: "v_focus v = None" and ok: "safe (v\<lparr>v_busy := B\<rparr>) (owners (mset ts)) {#} s"
  shows "safe (blind v) {#} {#} (fold (release_task os) ts (upd_loop l (\<lambda>e. e\<lparr>el_callingPendingFunctors := b\<rparr>) s))"
    and "alerted (v\<lparr>v_busy := B\<rparr>) (fold (release_task os) ts (upd_loop l (\<lambda>e. e\<lparr>el_callingPendingFunctors := b\<rparr>) s))"
    and "runs_in v l \<Longrightarrow> confined v (fold (release_task os) ts (upd_loop l (\<lambda>e. e\<lparr>el_callingPendingFunctors := b\<rparr>) s))"
proof -
  let ?v = "v\<lparr>v_busy := B\<rparr>" and ?t = "fold (release_task os) ts s"
  have t: "safe ?v {#} {#} ?t" using k f by (intro safe_release_batch [OF _ ok]) simp_all
  then have "safe (blind v) {#} {#} ?t" unfolding safe_blind [of ?v "{#}" "{#}" ?t] by (simp add: blind_view)
  then show "safe (blind v) {#} {#} (fold (release_task os) ts (upd_loop l (\<lambda>e. e\<lparr>el_callingPendingFunctors := b\<rparr>) s))"
    by (simp add: release_batch_flag)
  show "runs_in v l \<Longrightarrow> confined v (fold (release_task os) ts (upd_loop l (\<lambda>e. e\<lparr>el_callingPendingFunctors := b\<rparr>) s))"
    using safe_confinement [OF t] by (simp add: release_batch_flag confined_upd_loop)
  have "alerted ?v (upd_loop l (\<lambda>e. e\<lparr>el_callingPendingFunctors := b\<rparr>) ?t) = alerted ?v ?t" by (rule alerted_eq) simp_all
  with t show "alerted ?v (fold (release_task os) ts (upd_loop l (\<lambda>e. e\<lparr>el_callingPendingFunctors := b\<rparr>) s))"
    by (simp add: release_batch_flag safe_def woken_def)
qed

context safe_app
begin

text \<open>When the batch is done, the loop is no longer busy, and what its functors have queued has woken it.\<close>

lemma runs_doPendingFunctors:
  assumes io: "kernel_ok os v" and ok: "safe v {#} {#} s" and f: "v_focus v = None" and l: "l \<in> v_loops v"
    and pins: "\<And>c. v_pin v c \<noteq> Some l" and me: "v_me v = v_tid v l" and start: "v_start v \<in> {None, Some (snapshot_of s)}"
  shows "runs (\<lambda>s'. safe (blind v) {#} {#} s' \<and> alerted (v\<lparr>v_busy := v_busy v - {l}\<rparr>) s' \<and> confined v s')
    (EventLoop_doPendingFunctors os (exec_task os (server_app os usr)) l s)"
proof -
  let ?v = "v\<lparr>v_busy := v_busy v - {l}\<rparr>"
  let ?ts = "el_pendingFunctors (loops s l)"
  let ?s1 = "upd_loop l (\<lambda>e. e\<lparr>el_callingPendingFunctors := True, el_pendingFunctors := []\<rparr>) s"
  define P where "P xs u \<longleftrightarrow> set xs \<subseteq> set ?ts \<and> safe ?v (owners (mset ?ts)) (mset xs) u"
    for xs and u :: "('k, 'z) server_scheme"
  have away: "v_pin v c = None" if "Bind_connectDestroyed c \<in> set ?ts" for c
  proof -
    have "tc_loop (conns s c) = l" using ok l that unfolding safe_def wired_def placed_def by blast
    moreover have "v_pin v c = Some x \<Longrightarrow> tc_loop (conns s c) = x" for x using ok unfolding safe_def by blast
    ultimately show ?thesis using pins [of c] by (cases "v_pin v c") auto
  qed
  have home: "homed ?v c" if "Bind_connectEstablished c \<in> set ?ts \<or> Bind_connectDestroyed c \<in> set ?ts" for c
  proof -
    have "own_ok {#} {#} (ownership_of s)" and L: "l \<in> loops_of s" using ok l by (auto simp: safe_def wired_def)
    then have "c < next_conn s" using that pending_all [OF L] pending_owner [of "{#}" "{#}" s _ c] by fastforce
    moreover have "tc_loop (conns s c) = l" using ok l that unfolding safe_def wired_def placed_def by blast
    ultimately show ?thesis using me start by (auto simp: homed_def)
  qed
  have main: "runs_in ?v (v_main v)" if "Bind_listen \<in> set ?ts \<or> Bind_removeConnectionInLoop c \<in> set ?ts" for c
  proof -
    have "sv_loop s = l" "sv_loop s = v_main v" using ok l that unfolding safe_def wired_def placed_def by blast+
    then show ?thesis using me by (simp add: runs_in_me)
  qed
  have "runs (P []) (for_each (exec_task os (server_app os usr)) ?ts ?s1)"
  proof (rule runs_for_each)
    show "P ?ts ?s1" using safe_take [OF ok l runs_in_me [OF me]] by (simp add: P_def)
    fix t ts and u :: "('k, 'z) server_scheme" assume "P (t # ts) u"
    then have sub: "t \<in> set ?ts" "set ts \<subseteq> set ?ts" and u: "safe ?v (owners (mset ?ts)) (add_mset t (mset ts)) u"
      by (auto simp: P_def)
    have "runs (safe ?v (owners (mset ?ts)) (mset ts)) (exec_task os (server_app os usr) t u)"
      using sub away io f home main by (intro runs_exec_task [OF _ u]) auto
    then show "runs (P ts) (exec_task os (server_app os usr) t u)"
      by (rule runs_mono) (simp add: P_def sub)
  qed
  then show ?thesis
    unfolding EventLoop_doPendingFunctors_def Let_def
    by (rule runs_then) (use f runs_in_me [OF me] in \<open>auto simp: P_def intro!: safe_batch_done [OF io]\<close>)
qed

end

end
