(* ===== verification/EchoServer.thy ===== *)
theory EchoServer
  imports TcpServer
begin

text \<open>
  \<^verbatim>\<open>src/server_00.cpp\<close>: the echo server, the application of the library in the repository. The theory
  states what a connection needs of a message callback as a locale, derives from it what one
  readable event does, and instantiates it with the echo callback.
\<close>

section \<open>The application\<close>

definition EchoServer_onConnection ::
  "conn_ptr \<Rightarrow> ('k, 'z) server_scheme \<Rightarrow> ('k, 'z) server_scheme result" where
  "EchoServer_onConnection c s =
     (if TcpConnection_connected c s
      then and_then (InetAddress_toIpPort (tc_peerAddr (conns s c))) (\<lambda>text. Inr s)
      else and_then (InetAddress_toIpPort (tc_peerAddr (conns s c))) (\<lambda>text. Inr s))"

definition EchoServer_onMessage ::
  "'k os \<Rightarrow> conn_ptr \<Rightarrow> int \<Rightarrow> ('k, 'z) server_scheme \<Rightarrow> ('k, 'z) server_scheme result" where
  "EchoServer_onMessage os c time s =
     and_then (Buffer_retrieveAllAsString (tc_inputBuffer (conns s c))) (\<lambda>(msg, b).
       TcpConnection_send os c msg (upd_conn c (\<lambda>tc. tc\<lparr>tc_inputBuffer := b\<rparr>) s))"

definition echo_app :: "'k os \<Rightarrow> ('k, 'z) server_scheme app" where
  "echo_app os = \<lparr>app_connection = (\<lambda>_. EchoServer_onConnection),
     app_message = (\<lambda>_ c t. EchoServer_onMessage os c t),
     app_writeComplete = (\<lambda>_ _. Inr), app_highWaterMark = (\<lambda>_ _ _. Inr), app_close = (\<lambda>_ _. Inr),
     app_user = (\<lambda>_. Inr)\<rparr>"

text \<open>The constructor; the two callbacks are the functions number 0 of the application.\<close>

definition EchoServer_ctor ::
  "'k os \<Rightarrow> loop_ptr \<Rightarrow> inet_address \<Rightarrow> string \<Rightarrow> ('k, 'z) server_scheme \<Rightarrow> ('k, 'z) server_scheme result" where
  "EchoServer_ctor os loop addr name s =
     and_then (TcpServer_ctor os (Some loop) addr name kNoReusePort s) (\<lambda>s1.
       Inr (TcpServer_setThreadNum 3
             (TcpServer_setMessageCallback (Some 0) (TcpServer_setConnectionCallback (Some 0) s1))))"

definition EchoServer_start ::
  "'k os \<Rightarrow> ('k \<Rightarrow> (poller \<times> 'k) result) \<Rightarrow> (nat \<Rightarrow> int \<times> loop_ptr) \<Rightarrow>
     ('k, 'z) server_scheme \<Rightarrow> ('k, 'z) server_scheme result" where
  "EchoServer_start os newDefaultPoller fresh = TcpServer_start os newDefaultPoller fresh (\<lambda>_ _. Inr)"

text \<open>\<^verbatim>\<open>main\<close> before \<^verbatim>\<open>loop.loop()\<close>, and up to the end of \<^verbatim>\<open>loop.loop()\<close>: \<^const>\<open>None\<close> if that does not
  return. The loop of \<^verbatim>\<open>main\<close> has the address 0.\<close>

definition echo_setup ::
  "'k os \<Rightarrow> (string \<Rightarrow> 32 word) \<Rightarrow> ('k \<Rightarrow> (poller \<times> 'k) result) \<Rightarrow> (nat \<Rightarrow> int \<times> loop_ptr) \<Rightarrow>
     ('k, 'z) server_scheme \<Rightarrow> ('k, 'z) server_scheme result" where
  "echo_setup os inet newDefaultPoller fresh s =
     and_then (EventLoop_ctor os newDefaultPoller 0 s) (\<lambda>s1.
     and_then (EchoServer_ctor os 0 (InetAddress_ctor inet 8002 ''127.0.0.1'') ''EchoServer'' s1) (\<lambda>s2.
     EchoServer_start os newDefaultPoller fresh s2))"

definition echo_main ::
  "'k os \<Rightarrow> (string \<Rightarrow> 32 word) \<Rightarrow> ('k \<Rightarrow> (poller \<times> 'k) result) \<Rightarrow> (nat \<Rightarrow> int \<times> loop_ptr) \<Rightarrow>
     ('k, 'z) server_scheme \<Rightarrow> ('k, 'z) server_scheme result option" where
  "echo_main os inet newDefaultPoller fresh s =
     (case echo_setup os inet newDefaultPoller fresh s of
        Inl e \<Rightarrow> Some (Inl e)
      | Inr s1 \<Rightarrow> server_loop os inet (echo_app os) 0 s1)"

lemma echo_quiet: "quiet_connection (echo_app os)"
  by (simp add: quiet_connection_def echo_app_def EchoServer_onConnection_def toIpPort_eq)

section \<open>What a connection needs of a message callback\<close>

text \<open>The connection is up, in its own thread, has no output waiting, and a write on its descriptor
  does not fail.\<close>

definition ready_for :: "'k os \<Rightarrow> ('k \<Rightarrow> fd \<Rightarrow> byte list) \<Rightarrow> conn_ptr \<Rightarrow> byte list \<Rightarrow> ('k, 'z) server_scheme \<Rightarrow> bool" where
  "ready_for os wire c input s \<longleftrightarrow> conn_ok c s \<and> conn_live c s \<and> TcpConnection_connected c s \<and>
     EventLoop_isInLoopThread (tc_loop (conns s c)) s \<and> contents (tc_outputBuffer (conns s c)) = [] \<and>
     room_for (length input) (tc_outputBuffer (conns s c)) \<and>
     write_contract os wire \<and> wire_frame os wire \<and> length input < 2 ^ 63 \<and>
     (\<forall>k. 0 \<le> fst (fst (sys_write os (tc_socket (conns s c)) input k)))"

locale message_handler =
  fixes os :: "'k os" and wire :: "'k \<Rightarrow> fd \<Rightarrow> byte list"
    and onMessage :: "conn_ptr \<Rightarrow> int \<Rightarrow> ('k, 'z) server_scheme \<Rightarrow> ('k, 'z) server_scheme result"
    and reply :: "byte list \<Rightarrow> byte list"
  assumes answers: "ready_for os wire c (reply (contents (tc_inputBuffer (conns s c)))) s \<Longrightarrow>
      \<exists>s'. onMessage c t s = Inr s' \<and> conn_ok c s' \<and> conn_live c s' \<and> contents (tc_inputBuffer (conns s' c)) = [] \<and>
        tc_socket (conns s' c) = tc_socket (conns s c) \<and> refs s c \<le> refs s' c \<and>
        outgoing wire c s' = outgoing wire c s @ reply (contents (tc_inputBuffer (conns s c)))"
begin

lemma handleRead_answers:
  fixes s :: "('k, 'z) server_scheme"
  assumes app: "\<And>f c t s. app_message app f c t s = onMessage c t s"
    and cb: "tc_messageCallback (conns s c) \<noteq> None"
    and ct: "readv_contract os" "wire_frame os wire" and room: "length (buf (tc_inputBuffer (conns s c))) + 65536 \<le> vector_max_size"
    and rd: "sys_readv os (tc_socket (conns s c)) (if writableBytes (tc_inputBuffer (conns s c)) < extrabuf_size
        then [writableBytes (tc_inputBuffer (conns s c)), extrabuf_size]
        else [writableBytes (tc_inputBuffer (conns s c))]) (kern s) = ((n, e, d), k')" and n: "0 < n"
    and rdy: "ready_for os wire c (reply (contents (tc_inputBuffer (conns s c)) @ d)) s"
  shows "\<exists>s'. TcpConnection_handleRead os app t c s = Inr s' \<and> conn_ok c s' \<and> conn_live c s' \<and>
    tc_socket (conns s' c) = tc_socket (conns s c) \<and>
    contents (tc_inputBuffer (conns s' c)) = [] \<and>
    outgoing wire c s' = outgoing wire c s @ reply (contents (tc_inputBuffer (conns s c)) @ d)"
proof -
  let ?f = "tc_socket (conns s c)" and ?b = "tc_inputBuffer (conns s c)"
  have ok: "conn_ok c s" "conn_live c s" using rdy by (simp_all add: ready_for_def)
  then have bo: "buffer_ok ?b" and f: "ch_fd (chan s (ConnChannel c)) = ?f" by (simp_all add: conn_ok_def)
  obtain b where b: "Buffer_readFd os ?f ?b (kern s) = Inr (n, 0, b, k')" "buffer_ok b" "contents b = contents ?b @ d"
    using Buffer_readFd_spec [OF bo ct(1) rd room] n by auto
  let ?s1 = "retain c (upd_conn c (\<lambda>tc. tc\<lparr>tc_inputBuffer := b\<rparr>) (s\<lparr>kern := k'\<rparr>))"
  have wk: "wire k' = wire (kern s)" using ct(2) rd unfolding wire_frame_def by (metis snd_conv)
  have "ready_for os wire c (reply (contents (tc_inputBuffer (conns ?s1 c)))) ?s1"
    using rdy b(2,3) by (simp add: ready_for_def conn_ok_def conn_live_def TcpConnection_connected_def EventLoop_isInLoopThread_def)
  from answers [OF this, of t] b(3) obtain s2 where s2: "onMessage c t ?s1 = Inr s2" "conn_ok c s2"
      "contents (tc_inputBuffer (conns s2 c)) = []" "tc_socket (conns s2 c) = ?f" "Suc (refs s c) \<le> refs s2 c"
      "outgoing wire c s2 = outgoing wire c ?s1 @ reply (contents ?b @ d)" "conn_live c s2"
    by auto
  have keep: "kern (release os c s2) = kern s2"
    using s2(5) ok(2) by (intro release_kern) (simp add: conn_live_def)
  have "TcpConnection_handleRead os app t c s = Inr (release os c s2)"
    using f b(1) n cb app s2(1) ok(2)
    by (auto simp: TcpConnection_handleRead_def Let_def with_shared_def call_fn_def conn_live_def)
  moreover have "outgoing wire c (release os c s2) = outgoing wire c s @ reply (contents ?b @ d)"
    using s2(6) keep wk by (simp add: outgoing_def)
  moreover have "conn_ok c (release os c s2)" using s2(2) by (simp add: conn_ok_def)
  moreover have "conn_live c (release os c s2)" using s2(5,7) ok(2) by (simp add: conn_live_def)
  ultimately show ?thesis using s2(3,4) by (intro exI [of _ "release os c s2"]) simp
qed

end

section \<open>Echo\<close>

lemma queue_shared_refs: "queue_shared os c t s = Inr s' \<Longrightarrow> refs s x \<le> refs s' x"
  by (auto simp: queue_shared_def retain_task_def split: if_splits option.splits)

lemma sendInLoop_write_refs:
  "sendInLoop_write os c data s = Inr (n, r, b, s') \<Longrightarrow> refs s x \<le> refs s' x"
  by (auto simp: sendInLoop_write_def Let_def and_then_eq_Inr split: if_splits prod.splits option.splits
      dest: queue_shared_refs [of _ _ _ _ _ x])

lemma sendInLoop_buffer_refs: "sendInLoop_buffer os c data n r s = Inr s' \<Longrightarrow> refs s x \<le> refs s' x"
  by (auto simp: sendInLoop_buffer_def Let_def and_then_eq_Inr split: if_splits option.splits
      dest: queue_shared_refs [of _ _ _ _ _ x])

lemma sendInLoop_refs:
  assumes "TcpConnection_sendInLoop os c data s = Inr s'"
  shows "refs s x \<le> refs s' x"
proof -
  let ?s0 = "if tc_state (conns s c) = kDisconnected then LOG_ERROR ''disconnected, give up writing'' 0 s else s"
  obtain n r b s1 where 1: "sendInLoop_write os c data ?s0 = Inr (n, r, b, s1)"
    and 2: "(if \<not> b \<and> 0 < r then sendInLoop_buffer os c data n r s1 else Inr s1) = Inr s'"
    using assms unfolding TcpConnection_sendInLoop_def Let_def and_then_eq_Inr by auto
  have "refs s x \<le> refs s1 x" using sendInLoop_write_refs [OF 1, of x] by (simp split: if_splits)
  also have "\<dots> \<le> refs s' x" using 2 sendInLoop_buffer_refs [of os c data n r s1 s' x] by (auto split: if_splits)
  finally show ?thesis .
qed

text \<open>The echo callback answers with what it was given.\<close>

lemma onMessage_echoes:
  fixes s :: "('k, 'z) server_scheme"
  assumes rdy: "ready_for os wire c (contents (tc_inputBuffer (conns s c))) s"
  shows "\<exists>s'. EchoServer_onMessage os c t s = Inr s' \<and> conn_ok c s' \<and> conn_live c s' \<and> contents (tc_inputBuffer (conns s' c)) = [] \<and>
    tc_socket (conns s' c) = tc_socket (conns s c) \<and> refs s c \<le> refs s' c \<and>
    outgoing wire c s' = outgoing wire c s @ contents (tc_inputBuffer (conns s c))"
proof -
  let ?b = "tc_inputBuffer (conns s c)"
  let ?s1 = "upd_conn c (\<lambda>tc. tc\<lparr>tc_inputBuffer := Buffer_retrieveAll ?b\<rparr>) s"
  have bo: "buffer_ok ?b" using rdy by (simp add: ready_for_def conn_ok_def)
  have s1: "conn_ok c ?s1" "conn_live c ?s1" "contents (tc_outputBuffer (conns ?s1 c)) = []"
      "room_for (length (contents ?b)) (tc_outputBuffer (conns ?s1 c))"
    using rdy bo by (simp_all add: ready_for_def conn_ok_def conn_live_def)
  obtain n e k' where wr: "sys_write os (tc_socket (conns ?s1 c)) (contents ?b) (kern ?s1) = ((n, e), k')"
    by (metis surj_pair)
  have "0 \<le> fst (fst (sys_write os (tc_socket (conns s c)) (contents ?b) (kern s)))"
    using rdy by (simp add: ready_for_def)
  with wr have n: "0 \<le> n" by simp
  have ct: "write_contract os wire" "wire_frame os wire" "length (contents ?b) < 2 ^ 63"
    using rdy by (simp_all add: ready_for_def)
  obtain s' b where s': "TcpConnection_sendInLoop os c (contents ?b) ?s1 = Inr s'" "conn_ok c s'" "conn_live c s'"
      "conns s' = (conns ?s1)(c := (conns ?s1 c)\<lparr>tc_outputBuffer := b\<rparr>)" "contents b = drop (nat n) (contents ?b)"
      "wire (kern s') (tc_socket (conns ?s1 c)) = wire (kern ?s1) (tc_socket (conns ?s1 c)) @ take (nat n) (contents ?b)"
    using sendInLoop_accepts [OF s1(1,2) ct(1,2) s1(3) ct(3) s1(4) wr n] by blast
  have "EchoServer_onMessage os c t s = Inr s'"
    using s'(1) rdy bo
    by (simp add: EchoServer_onMessage_def Buffer_retrieveAllAsString_spec TcpConnection_send_def ready_for_def
        TcpConnection_connected_def EventLoop_isInLoopThread_def)
  with s' bo sendInLoop_refs [OF s'(1), of c] s1(3) show ?thesis
    by (intro exI [of _ s']) (simp add: outgoing_def)
qed

interpretation echo: message_handler os wire "EchoServer_onMessage os" "\<lambda>bs. bs" for os wire
  by unfold_locales (rule onMessage_echoes)



end
