(* ===== verification/Interleaving.thy ===== *)
theory Interleaving
  imports SafeHandlers EchoServer
begin

text \<open>
  The loops of the server as interleaved threads. An iteration of a loop is a poll, one step per
  active channel, and one step for the batch of queued functors; between the steps of one loop
  those of the others may come in any order. In every reachable state every channel in a poller or in
  a list of active channels belongs to a live object, and no step fails with a dangling pointer.
\<close>

section \<open>Steps\<close>

text \<open>The channels a loop has still to serve in its iteration, with the time of the poll.\<close>

type_synonym work = "loop_ptr \<rightharpoonup> int \<times> chan_ptr list"

definition as_thread :: "loop_ptr \<Rightarrow> ('k, 'z) server_scheme \<Rightarrow> ('k, 'z) server_scheme" where
  "as_thread l s = s\<lparr>cur_tid := el_threadId (loops s l)\<rparr>"

text \<open>What a poll of a loop may report: channels in its poller.\<close>

definition reports_registered :: "loop_ptr \<Rightarrow> chan_ptr list \<Rightarrow> ('k, 'z) server_scheme \<Rightarrow> bool" where
  "reports_registered l active s \<longleftrightarrow>
     (\<forall>p \<in> set active. Poller_hasChannel l p s \<and> ch_loop (chan s p) = l \<and> ch_index (chan s p) = kAdded)"

inductive server_step ::
  "'k os \<Rightarrow> (string \<Rightarrow> 32 word) \<Rightarrow> ('k, 'z) server_scheme app \<Rightarrow>
     ('k, 'z) server_scheme \<times> work \<Rightarrow> ('k, 'z) server_scheme \<times> work \<Rightarrow> bool"
  for os :: "'k os" and inet :: "string \<Rightarrow> 32 word" and usr :: "('k, 'z) server_scheme app" where
  poll: "l \<in> loops_of s \<Longrightarrow> w l = None \<Longrightarrow>
    EpollPoller_poll os l kPollTimeMs [] (as_thread l s) = Inr (now, active, s') \<Longrightarrow>
    server_step os inet usr (s, w)
      (upd_loop l (\<lambda>e. e\<lparr>el_pollReturnTime := now, el_activeChannels := active\<rparr>) s', w(l \<mapsto> (now, active)))"
| handle: "w l = Some (now, p # ps) \<Longrightarrow>
    Channel_handleEvent os (run_callback os inet (server_app os usr)) now p (as_thread l s) = Inr s' \<Longrightarrow>
    server_step os inet usr (s, w) (s', w(l \<mapsto> (now, ps)))"
| drain: "w l = Some (now, []) \<Longrightarrow>
    EventLoop_doPendingFunctors os (exec_task os (server_app os usr)) l (as_thread l s) = Inr s' \<Longrightarrow>
    server_step os inet usr (s, w) (s', w(l := None))"

section \<open>The invariant of the interleaving\<close>

definition on_list :: "'k view \<Rightarrow> loop_ptr \<Rightarrow> chan_ptr \<Rightarrow> bool" where
  "on_list v l p \<longleftrightarrow> (\<exists>n. known (v_loops v) n p) \<and> (\<forall>c. p = ConnChannel c \<longrightarrow> v_pin v c = Some l) \<and>
     (\<forall>x. p = WakeupChannel x \<longrightarrow> x = l) \<and> (p = AcceptChannel \<longrightarrow> l = v_main v)"

definition work_ok :: "'k view \<Rightarrow> work \<Rightarrow> bool" where
  "work_ok v w \<longleftrightarrow> (\<forall>l x. w l = Some x \<longrightarrow> l \<in> v_loops v \<and> (\<forall>p \<in> set (snd x). on_list v l p))"

text \<open>Between two steps an idle loop with queued functors has been woken. While its thread runs, the invariant \<^const>\<open>safe\<close>
  says what the thread owes.\<close>

definition rested :: "'k view \<Rightarrow> ('k, 'z) server_scheme \<Rightarrow> bool" where
  "rested v s \<longleftrightarrow> safe (blind v) {#} {#} s \<and> alerted v s \<and> inj_on (v_tid v) (v_loops v)"

lemma rested_start [simp]: "rested (v\<lparr>v_start := sn\<rparr>) s = rested v s"
  by (simp add: rested_def alerted_def blind_view)

definition sched_ok :: "'k os \<Rightarrow> ('k \<Rightarrow> fd \<Rightarrow> fd \<rightharpoonup> epoll_event) \<Rightarrow> ('k \<Rightarrow> fd set) \<Rightarrow> 'k streams option \<Rightarrow> ('k \<Rightarrow> fd \<Rightarrow> nat) option \<Rightarrow>
    ('k, 'z) server_scheme \<times> work \<Rightarrow> bool" where
  "sched_ok os interest opened sts wk = (\<lambda>(s, w). \<exists>v. v_interest v = interest \<and> v_open v = opened \<and> v_streams v = sts \<and> v_wake v = wk \<and>
     v_busy v = dom w \<and> kernel_ok os v \<and> v_focus v = None \<and> rested v s \<and> work_ok v w)"

lemma sched_stepE:
  assumes "sched_ok os interest opened sts wk (s, w)"
  obtains v where "v_interest v = interest" "v_open v = opened" "v_streams v = sts" "v_wake v = wk" "v_busy v = dom w" "kernel_ok os v"
    "v_focus v = None" "rested v s" "work_ok v w"
  using assms by (auto simp: sched_ok_def)

lemma sched_okI:
  "v_interest v = interest \<Longrightarrow> v_open v = opened \<Longrightarrow> v_streams v = sts \<Longrightarrow> v_wake v = wk \<Longrightarrow> v_busy v = dom w \<Longrightarrow> kernel_ok os v \<Longrightarrow>
     v_focus v = None \<Longrightarrow> rested v s \<Longrightarrow> work_ok v w \<Longrightarrow> sched_ok os interest opened sts wk (s, w)"
  by (auto simp: sched_ok_def)

text \<open>Without the counters.\<close>

lemma sched_okE:
  assumes "sched_ok os interest opened sts wk (s, w)"
  obtains v where "v_interest v = interest" "v_open v = opened" "v_streams v = sts" "kernel_ok os v" "v_focus v = None" "safe v {#} {#} s" "work_ok v w"
proof -
  obtain v where v: "v_interest v = interest" "v_open v = opened" "v_streams v = sts" "kernel_ok os v"
    "v_focus v = None" "rested v s" "work_ok v w" using assms by (rule sched_stepE)
  then show ?thesis using kernel_blind [of os v] by (intro that [of "blind v"]) (simp_all add: rested_def work_ok_def on_list_def)
qed

lemma safe_cong:
  fixes s s' :: "('k, 'z) server_scheme"
  assumes "\<And>p. \<exists>r. chan s' p = (chan s p)\<lparr>ch_revents := r\<rparr>" and "refs s' = refs s" and "cur_tid s' = cur_tid s"
    and "\<And>x. el_threadId (loops s' x) = el_threadId (loops s x)"
    and "\<And>x. el_pendingFunctors (loops s' x) = el_pendingFunctors (loops s x)"
    and "\<And>x. pl_channels (el_poller (loops s' x)) = pl_channels (el_poller (loops s x))"
    and "\<And>x. pl_epollfd (el_poller (loops s' x)) = pl_epollfd (el_poller (loops s x))"
    and "\<And>x. el_wakeupFd (loops s' x) = el_wakeupFd (loops s x)"
    and "\<And>x. el_callingPendingFunctors (loops s' x) = el_callingPendingFunctors (loops s x)"
    and m: "reactor.more s' = reactor.more s" and k: "quiet v {} (kern s) (kern s')" and n: "v_start v = None"
  shows "safe v held rest s' = safe v held rest s"
proof -
  have ch: "ch_loop (chan s' p) = ch_loop (chan s p)" "ch_index (chan s' p) = ch_index (chan s p)"
    "ch_tie (chan s' p) = ch_tie (chan s p)" "ch_tied (chan s' p) = ch_tied (chan s p)"
    "ch_readCallback (chan s' p) = ch_readCallback (chan s p)" "ch_writeCallback (chan s' p) = ch_writeCallback (chan s p)"
    "ch_closeCallback (chan s' p) = ch_closeCallback (chan s p)" "ch_errorCallback (chan s' p) = ch_errorCallback (chan s p)"
    "ch_fd (chan s' p) = ch_fd (chan s p)" "ch_events (chan s' p) = ch_events (chan s p)" for p
    using assms(1) [of p] by auto
  note sv = server_more [OF m] conns_more [OF m]
  have "descs v s' = descs v s" by (rule descs_cong) (simp_all add: ch sv assms(2-7) quietD(1) [OF k])
  moreover have "flows v s' = flows v s" by (rule flows_eq) (simp_all add: ch sv assms(2) quietD(2) [OF k])
  moreover have "woken v s' = woken v s" by (rule woken_eq) (simp_all add: assms quietD(3) [OF k])
  ultimately show ?thesis
    by (simp add: safe_def wiring_defs loops_of_def ownership_of_def all_pending_def reader_only_def ch sv n assms(2-8))
qed

text \<open>A poll changes returned events, the event array and the kernel.\<close>

definition poll_frame :: "('k, 'z) reactor_scheme \<Rightarrow> ('k, 'z) reactor_scheme \<Rightarrow> bool" where
  "poll_frame s s' \<longleftrightarrow> (\<forall>p. (chan s' p)\<lparr>ch_revents := 0\<rparr> = (chan s p)\<lparr>ch_revents := 0\<rparr>) \<and> refs s' = refs s \<and>
     cur_tid s' = cur_tid s \<and> (\<forall>x. (loops s' x)\<lparr>el_poller := (el_poller (loops s' x))\<lparr>pl_events := []\<rparr>\<rparr> =
       (loops s x)\<lparr>el_poller := (el_poller (loops s x))\<lparr>pl_events := []\<rparr>\<rparr>) \<and> reactor.more s' = reactor.more s"

lemma poll_frame_trans: "poll_frame s t \<Longrightarrow> poll_frame t u \<Longrightarrow> poll_frame s u"
  by (simp add: poll_frame_def)

lemma poll_frame_steps:
  "poll_frame s (Channel_set_revents p r s)" "poll_frame s (s\<lparr>kern := k\<rparr>)" "poll_frame s (LOG_ERROR m n s)"
  "poll_frame s (upd_poller l (\<lambda>q. q\<lparr>pl_events := g q\<rparr>) s)"
  by (simp_all add: poll_frame_def Channel_set_revents_def)

lemma fill_frame: "fill_entries evs active s = Inr (active', s') \<Longrightarrow> poll_frame s s'"
proof (induction evs active s rule: fill_entries.induct)
  case (1 active s)
  then show ?case by (simp add: poll_frame_def)
next
  case (2 ev evs active s)
  then obtain p where p: "ev_ptr ev = Some p" by (auto split: option.splits)
  with 2 have "poll_frame (Channel_set_revents p (ev_events ev) s) s'" by simp
  with poll_frame_steps(1) show ?case by (rule poll_frame_trans)
qed

lemma poll_poll_frame:
  assumes "EpollPoller_poll os l t active s = Inr (now, active', s')"
  shows "poll_frame s s'"
proof -
  let ?pl = "el_poller (loops s l)"
  obtain n e evs k1 where w: "sys_epoll_wait os (pl_epollfd ?pl)
      (size_as_int (length (pl_events ?pl))) t (kern s) = ((n, e, evs), k1)"
    by (metis prod_cases3 surj_pair)
  obtain tm k2 where tm: "sys_time os k1 = (tm, k2)" by fastforce
  let ?s1 = "s\<lparr>kern := k2\<rparr>" and ?s2 = "upd_poller l (\<lambda>q. q\<lparr>pl_events := blit 0 evs (pl_events q)\<rparr>) (s\<lparr>kern := k2\<rparr>)"
  have s2: "poll_frame s ?s2" by (rule poll_frame_trans [OF poll_frame_steps(2,4)])
  have log: "poll_frame s (LOG_ERROR m i ?s1)" for m i by (rule poll_frame_trans [OF poll_frame_steps(2,3)])
  show ?thesis
  proof (cases "n > 0")
    case True
    then obtain a3 s3 where s3: "EpollPoller_fillActiveChannels l n active ?s2 = Inr (a3, s3)"
      and s': "s' = (if nat n = length (pl_events (el_poller (loops s3 l)))
        then upd_poller l (\<lambda>q. q\<lparr>pl_events := vector_resize (length (pl_events q) * 2) null_event (pl_events q)\<rparr>) s3 else s3)"
      using assms w tm by (auto simp: EpollPoller_poll_def Let_def and_then_eq_Inr)
    have "poll_frame ?s2 s3"
      using s3 by (auto simp: EpollPoller_fillActiveChannels_def Let_def intro: fill_frame split: if_splits)
    with s2 have "poll_frame s s3" by (rule poll_frame_trans)
    with s' show ?thesis using poll_frame_trans [OF _ poll_frame_steps(4)] by auto
  next
    case False
    with assms w tm log poll_frame_steps(2) show ?thesis by (auto simp: EpollPoller_poll_def Let_def split: if_splits)
  qed
qed

text \<open>Only the channels it reports and the loop it is of.\<close>

lemma fill_others:
  "fill_entries evs active s = Inr (active', s') \<Longrightarrow>
     set active \<subseteq> set active' \<and> loops s' = loops s \<and> (\<forall>p. p \<notin> set active' \<longrightarrow> chan s' p = chan s p)"
proof (induction evs active s rule: fill_entries.induct)
  case (2 ev evs active s)
  then obtain p where p: "ev_ptr ev = Some p" by (auto split: option.splits)
  with 2 have "set (active @ [p]) \<subseteq> set active' \<and> loops s' = loops (Channel_set_revents p (ev_events ev) s) \<and>
      (\<forall>q. q \<notin> set active' \<longrightarrow> chan s' q = chan (Channel_set_revents p (ev_events ev) s) q)" by simp
  then show ?case by (auto simp: Channel_set_revents_def)
qed simp

lemma poll_others:
  assumes "EpollPoller_poll os l t active s = Inr (now, active', s')"
  shows "p \<notin> set active' \<Longrightarrow> chan s' p = chan s p" and "x \<noteq> l \<Longrightarrow> loops s' x = loops s x"
proof -
  let ?pl = "el_poller (loops s l)"
  obtain n e evs k1 where w: "sys_epoll_wait os (pl_epollfd ?pl)
      (size_as_int (length (pl_events ?pl))) t (kern s) = ((n, e, evs), k1)"
    by (metis prod_cases3 surj_pair)
  obtain tm k2 where tm: "sys_time os k1 = (tm, k2)" by fastforce
  let ?s2 = "upd_poller l (\<lambda>q. q\<lparr>pl_events := blit 0 evs (pl_events q)\<rparr>) (s\<lparr>kern := k2\<rparr>)"
  have "(p \<notin> set active' \<longrightarrow> chan s' p = chan s p) \<and> (x \<noteq> l \<longrightarrow> loops s' x = loops s x)"
  proof (cases "n > 0")
    case True
    then obtain a3 s3 where s3: "EpollPoller_fillActiveChannels l n active ?s2 = Inr (a3, s3)"
      and s': "active' = a3" "s' = (if nat n = length (pl_events (el_poller (loops s3 l)))
        then upd_poller l (\<lambda>q. q\<lparr>pl_events := vector_resize (length (pl_events q) * 2) null_event (pl_events q)\<rparr>) s3 else s3)"
      using assms w tm by (auto simp: EpollPoller_poll_def Let_def and_then_eq_Inr)
    have "loops s3 = loops ?s2 \<and> (\<forall>p. p \<notin> set a3 \<longrightarrow> chan s3 p = chan ?s2 p)"
      using s3 by (auto simp: EpollPoller_fillActiveChannels_def Let_def dest: fill_others split: if_splits)
    then show ?thesis by (simp add: s')
  next
    case False
    with assms w tm show ?thesis by (auto simp: EpollPoller_poll_def Let_def split: if_splits)
  qed
  then show "p \<notin> set active' \<Longrightarrow> chan s' p = chan s p" "x \<noteq> l \<Longrightarrow> loops s' x = loops s x" by simp_all
qed

lemma revents_cong: "c\<lparr>ch_revents := 0\<rparr> = d\<lparr>ch_revents := 0\<rparr> \<Longrightarrow> \<exists>r. c = d\<lparr>ch_revents := r\<rparr>"
  by (cases c; cases d) auto

lemma loop_cong:
  "e\<lparr>el_poller := (el_poller e)\<lparr>pl_events := []\<rparr>\<rparr> = d\<lparr>el_poller := (el_poller d)\<lparr>pl_events := []\<rparr>\<rparr> \<Longrightarrow>
     el_threadId e = el_threadId d \<and> el_wakeupFd e = el_wakeupFd d \<and> el_pendingFunctors e = el_pendingFunctors d \<and>
     el_callingPendingFunctors e = el_callingPendingFunctors d \<and>
     pl_channels (el_poller e) = pl_channels (el_poller d) \<and> pl_epollfd (el_poller e) = pl_epollfd (el_poller d)"
  by (cases e; cases d; cases "el_poller e"; cases "el_poller d") simp

lemma fill_kern: "fill_entries evs active s = Inr (active', s') \<Longrightarrow> kern s' = kern s"
  by (induction evs active s rule: fill_entries.induct) (auto split: option.splits)

lemma poll_kern:
  assumes k: "kernel_ok os v" and p: "EpollPoller_poll os l t active s = Inr (now, active', s')"
  shows "quiet v {} (kern s) (kern s')"
proof -
  let ?pl = "el_poller (loops s l)"
  obtain n e evs k1 where w: "sys_epoll_wait os (pl_epollfd ?pl)
      (size_as_int (length (pl_events ?pl))) t (kern s) = ((n, e, evs), k1)"
    by (metis prod_cases3 surj_pair)
  obtain tm k2 where tm: "sys_time os k1 = (tm, k2)" by fastforce
  have "v_interest v k1 = v_interest v (kern s)"
    using k w unfolding kernel_ok_def epoll_wait_contract_def by blast
  moreover have "v_open v k1 = v_open v (kern s)"
    using kernel_contracts(2) [OF k] w unfolding descriptor_contract_def by (metis snd_conv)
  ultimately have "quiet v {} (kern s) k1" using streams_quiet(8) [OF kernel_streams [OF k] w] counters_quiet(9) [OF kernel_counters [OF k] w] by (simp add: quiet_def same_fds_def)
  then have "quiet v {} (kern s) k2" by (rule quiet_trans) (rule kernel_quiet(1) [OF k tm])
  moreover have "kern s' = k2"
    using p w tm by (auto simp: EpollPoller_poll_def EpollPoller_fillActiveChannels_def Let_def and_then_eq_Inr
        split: if_splits dest: fill_kern)
  ultimately show ?thesis by simp
qed

lemma safe_poll:
  fixes s :: "('k, 'z) server_scheme"
  assumes k: "kernel_ok os v" and ok: "safe v held rest s" and p: "EpollPoller_poll os l t active s = Inr (now, active', s')"
    and "v_start v = None"
  shows "safe v held rest s'"
proof -
  have f: "poll_frame s s'" by (rule poll_poll_frame [OF p])
  have "safe v held rest s' = safe v held rest s"
    by (rule safe_cong [OF _ _ _ _ _ _ _ _ _ _ poll_kern [OF k p] assms(4)])
      (use f in \<open>auto simp: poll_frame_def intro: revents_cong dest!: spec [where P = "\<lambda>x. _ x = _ x"] loop_cong\<close>)
  with ok show ?thesis by simp
qed

text \<open>A poll succeeds and reports channels in the poller only.\<close>

lemma poll_succeeds:
  fixes s :: "('k, 'z) server_scheme"
  assumes k: "kernel_ok os v" and ok: "safe v held rest s" and l: "l \<in> v_loops v"
  shows "\<exists>now active s'. EpollPoller_poll os l t [] s = Inr (now, active, s') \<and> reports_registered l active s"
proof -
  have reg: "registry_ok (v_interest v) l s" using ok l by (simp add: safe_def descs_def descriptors_ok_def)
  have w: "epoll_wait_contract os (v_interest v)" using k by (simp add: kernel_ok_def)
  have "\<forall>k. v_interest v (snd (sys_time os k)) = v_interest v k"
    using kernel_fds(1) [OF k prod.collapse [symmetric]] by (simp add: same_fds_def)
  from EpollPoller_poll_spec [OF reg w this, of t "[]"] show ?thesis unfolding reports_registered_def by auto
qed

lemma safe_as_thread:
  "safe v held rest s \<Longrightarrow> v_focus v = None \<Longrightarrow> v_wake v = None \<Longrightarrow> v_start v = None \<Longrightarrow> safe (v\<lparr>v_me := v_tid v l\<rparr>) held rest (as_thread l s)"
  using descs_cong [of "as_thread l s" s v] flows_eq [of "as_thread l s" s v]
  by (auto simp: as_thread_def safe_def wiring_defs loops_of_def ownership_of_def all_pending_def simp del: not_None_eq)

lemma wired_pin [simp]: "wired (v\<lparr>v_pin := m\<rparr>) s = wired v s"
  by (simp add: wired_def)

lemma safe_pin:
  assumes "safe v held rest s"
    and "\<And>c l. m c = Some l \<Longrightarrow> c < next_conn s \<and> tc_loop (conns s c) = l \<and> ch_index (chan s (ConnChannel c)) \<noteq> kNew"
  shows "safe (v\<lparr>v_pin := m\<rparr>) held rest s"
  using assms by (simp add: safe_def)

lemma work_known:
  assumes "work_ok v w" and "safe v held rest s" and "w l = Some (now, ps)" and "p \<in> set ps"
  shows "known (v_loops v) (next_conn s) p" "p = ConnChannel c \<Longrightarrow> v_pin v c = Some l" "p = WakeupChannel x \<Longrightarrow> x = l"
    "p = AcceptChannel \<Longrightarrow> l = v_main v"
proof -
  have "\<forall>p \<in> set (snd (now, ps)). on_list v l p" using assms(1,3) unfolding work_ok_def by blast
  then obtain n where n: "known (v_loops v) n p" "\<And>c. p = ConnChannel c \<Longrightarrow> v_pin v c = Some l" "\<And>x. p = WakeupChannel x \<Longrightarrow> x = l"
    "p = AcceptChannel \<Longrightarrow> l = v_main v"
    using assms(4) unfolding on_list_def by auto
  then show "p = ConnChannel c \<Longrightarrow> v_pin v c = Some l" "p = WakeupChannel x \<Longrightarrow> x = l" "p = AcceptChannel \<Longrightarrow> l = v_main v" by auto
  show "known (v_loops v) (next_conn s) p" using n assms(2) by (cases p) (auto simp: safe_def)
qed

lemma work_loop: "work_ok v w \<Longrightarrow> w l = Some x \<Longrightarrow> l \<in> v_loops v"
  unfolding work_ok_def by blast

lemma work_step:
  assumes "work_ok v w" and "v_loops v' = v_loops v"
    and "\<And>x p. x \<noteq> l \<Longrightarrow> on_list v x p \<Longrightarrow> on_list v' x p"
    and "\<And>t ps. r = Some (t, ps) \<Longrightarrow> l \<in> v_loops v \<and> (\<forall>p \<in> set ps. on_list v' l p)"
  shows "work_ok v' (w(l := r))"
  unfolding work_ok_def
proof (intro allI impI)
  fix x y assume y: "(w(l := r)) x = Some y"
  show "x \<in> v_loops v' \<and> (\<forall>p \<in> set (snd y). on_list v' x p)"
  proof (cases "x = l")
    case True
    with y assms(2,4) show ?thesis by (cases y) auto
  next
    case False
    with y have w: "w x = Some y" by simp
    with assms(1) have "x \<in> v_loops v" "\<forall>p \<in> set (snd y). on_list v x p" unfolding work_ok_def by blast+
    with assms(2) assms(3) [OF False] show ?thesis by auto
  qed
qed

lemma work_handle:
  assumes "work_ok v w" and "w l = Some (now, p # ps)"
  shows "work_ok (v\<lparr>v_me := t\<rparr>) (w(l \<mapsto> (now, ps)))"
proof (rule work_step [OF assms(1)])
  have "\<forall>q \<in> set (snd (now, p # ps)). on_list v l q" using assms unfolding work_ok_def by blast
  then show "Some (now, ps) = Some (u, qs) \<Longrightarrow> l \<in> v_loops v \<and> (\<forall>p \<in> set qs. on_list (v\<lparr>v_me := t\<rparr>) l p)" for u qs
    using work_loop [OF assms] by (simp add: on_list_def)
qed (simp_all add: on_list_def)

lemma work_drain:
  "work_ok v w \<Longrightarrow> work_ok (v\<lparr>v_me := t, v_pin := \<lambda>c. if v_pin v c = Some l then None else v_pin v c, v_busy := B\<rparr>) (w(l := None))"
  by (rule work_step) (auto simp: on_list_def)

lemma runs_Inr: "runs P r \<Longrightarrow> r = Inr s \<Longrightarrow> P s"
  by simp

lemma dispatchable_work:
  assumes "safe v {#} {#} s" and "v_focus v = None" and "known (v_loops v) (next_conn s) p"
    and "\<And>c. p = ConnChannel c \<Longrightarrow> v_pin v c = Some l" and "\<And>x. p = WakeupChannel x \<Longrightarrow> x = l" and "p = AcceptChannel \<Longrightarrow> l = v_main v"
    and "l \<in> B"
  shows "dispatchable (v\<lparr>v_me := v_tid v l, v_busy := B\<rparr>) p (as_thread l s)"
  using assms by (auto simp: dispatchable_def safe_def as_thread_def)

text \<open>The thread of a busy loop starts a step, and ends it.\<close>

lemma safe_start:
  assumes ok: "rested v s" and f: "v_focus v = None" and l: "l \<in> v_loops v" "l \<in> v_busy v"
  shows "safe (v\<lparr>v_me := v_tid v l, v_start := Some (snapshot_of s)\<rparr>) {#} {#} (as_thread l s)"
proof -
  let ?v = "v\<lparr>v_me := v_tid v l, v_start := Some (snapshot_of s)\<rparr>"
  have "safe (blind ?v) {#} {#} (as_thread l s)"
    using safe_as_thread [of "blind v" "{#}" "{#}" s l] ok f by (simp add: rested_def blind_view)
  moreover have "woken (v\<lparr>v_me := v_tid v l\<rparr>) s" using ok l by (intro woken_start) (simp_all add: rested_def)
  then have "woken ?v s" by simp
  then have "woken ?v (as_thread l s)" using woken_eq [of "as_thread l s" s ?v] by (simp add: as_thread_def)
  moreover have "confined ?v (as_thread l s)" by (simp add: confined_def as_thread_def)
  ultimately show ?thesis using safe_blind by blast
qed

lemma rested_end: "safe v {#} {#} s \<Longrightarrow> inj_on (v_tid v) (v_loops v) \<Longrightarrow> rested v s"
  using safe_blind [of v] by (auto simp: rested_def woken_def)

lemma alerted_poll:
  fixes s :: "('k, 'z) server_scheme"
  assumes k: "kernel_ok os v" and p: "EpollPoller_poll os l t active s = Inr (now, active', s')"
  shows "alerted v s' = alerted v s"
proof (rule alerted_eq)
  have "poll_frame s s'" by (rule poll_poll_frame [OF p])
  then show "el_pendingFunctors (loops s' x) = el_pendingFunctors (loops s x)" "el_wakeupFd (loops s' x) = el_wakeupFd (loops s x)" for x
    using loop_cong [of "loops s' x" "loops s x"] unfolding poll_frame_def by auto
  show "counters_kept v {} (kern s) (kern s')" by (rule quietD(3) [OF poll_kern [OF k p]])
qed

context safe_app
begin

lemma poll_keeps_sched:
  assumes inv: "sched_ok os interest opened sts wk (s, w)" and l: "l \<in> loops_of s"
    and p: "EpollPoller_poll os l kPollTimeMs [] (as_thread l s) = Inr (now, active, s')"
  shows "sched_ok os interest opened sts wk (upd_loop l (\<lambda>e. e\<lparr>el_pollReturnTime := now, el_activeChannels := active\<rparr>) s', w(l \<mapsto> (now, active)))"
proof -
  obtain v where io: "v_interest v = interest" "v_open v = opened" "v_streams v = sts" "v_wake v = wk" "v_busy v = dom w" "kernel_ok os v"
    and v: "v_focus v = None" "rested v s" and work: "work_ok v w" by (rule sched_stepE [OF inv])
  let ?m = "\<lambda>c. if ConnChannel c \<in> set active then Some l else v_pin v c"
  let ?v = "v\<lparr>v_me := v_tid v l, v_pin := ?m, v_busy := insert l (dom w)\<rparr>" and ?b = "blind v"
  let ?s = "upd_loop l (\<lambda>e. e\<lparr>el_pollReturnTime := now, el_activeChannels := active\<rparr>) s'"
  have ok: "safe ?b {#} {#} s" and f: "v_focus ?b = None" and k: "kernel_ok os ?b"
    using v io(6) kernel_blind [of os v] by (simp_all add: rested_def)
  have L: "l \<in> v_loops v" using l ok unfolding safe_def wired_def by simp
  have reg: "reports_registered l active s"
    using poll_succeeds [OF _ safe_as_thread [OF ok f blind_sel(10,12)], of os l l kPollTimeMs] k L p
    by (auto simp: reports_registered_def Poller_hasChannel_def as_thread_def)
  have known: "known (v_loops v) (next_conn s) p" if "p \<in> set active" for p
  proof -
    have "pl_channels (el_poller (loops s l)) (ch_fd (chan s p)) = Some p"
      using reg that by (auto simp: reports_registered_def Poller_hasChannel_def split: option.splits)
    with ok L show ?thesis unfolding safe_def wired_def by simp
  qed
  have act: "c < next_conn s \<and> tc_loop (conns s c) = l \<and> ch_index (chan s (ConnChannel c)) \<noteq> kNew" if "ConnChannel c \<in> set active" for c
  proof -
    have c: "c < next_conn s" using known [OF that] by simp
    with safe_conn [OF ok c] reg that show ?thesis
      by (auto simp: reports_registered_def conn_wired_def Let_def kAdded_def kNew_def)
  qed
  have own: "x = l" if "WakeupChannel x \<in> set active" for x
  proof -
    have "x \<in> v_loops ?b" using known [OF that] by simp
    then have "wakeup_watched x s" using ok unfolding safe_def wired_def by blast
    with reg that show ?thesis by (auto simp: reports_registered_def wakeup_watched_def Let_def)
  qed
  have main: "l = v_main v" if "AcceptChannel \<in> set active"
  proof -
    have "ch_loop (chan s AcceptChannel) = v_main v" using ok by (simp add: safe_def wired_def)
    with reg that show ?thesis by (auto simp: reports_registered_def)
  qed
  have old: "c < next_conn s \<and> tc_loop (conns s c) = x \<and> ch_index (chan s (ConnChannel c)) \<noteq> kNew" if "v_pin v c = Some x" for c x
    using ok that unfolding safe_def by simp
  have "safe (?b\<lparr>v_me := v_tid ?b l\<rparr>\<lparr>v_pin := ?m\<rparr>) {#} {#} (as_thread l s)"
    using act old by (intro safe_pin safe_as_thread ok f) (auto simp: as_thread_def split: if_splits)
  then have "safe (blind ?v) {#} {#} (as_thread l s)" by (simp add: blind_view)
  then have "safe (blind ?v) {#} {#} s'" using k by (intro safe_poll [OF _ _ p]) (simp_all add: blind_view)
  moreover have "safe (blind ?v) {#} {#} ?s = safe (blind ?v) {#} {#} s'" by (rule safe_cong) auto
  moreover have "alerted ?v ?s = alerted ?v (as_thread l s)"
    using alerted_poll [OF _ p, of ?v] io(6) alerted_eq [of ?s s' ?v] by simp
  moreover have "alerted ?v (as_thread l s)"
    using v(2) io(5) by (auto simp: rested_def alerted_def as_thread_def)
  ultimately have "rested ?v ?s" using v(2) by (simp add: rested_def)
  moreover have "work_ok ?v (w(l \<mapsto> (now, active)))"
  proof (rule work_step [OF work])
    fix x p assume "x \<noteq> l" "on_list v x p"
    then have "ConnChannel c \<notin> set active" if "p = ConnChannel c" for c
      using act [of c] old [of c x] that by (auto simp: on_list_def)
    with \<open>on_list v x p\<close> show "on_list ?v x p" by (simp add: on_list_def)
  next
    have "on_list ?v l p" if "p \<in> set active" for p
      using known [OF that] own main that by (auto simp: on_list_def)
    with L show "Some (now, active) = Some (t, ps) \<Longrightarrow> l \<in> v_loops v \<and> (\<forall>p \<in> set ps. on_list ?v l p)" for t ps
      by simp
  qed simp
  ultimately show ?thesis
    using v(1) io by (intro sched_okI [of ?v]) simp_all
qed

lemma runs_handle:
  assumes io: "kernel_ok os v" and v: "v_focus v = None" "rested v s" and w: "work_ok v w" "w l = Some (now, p # ps)" and l: "l \<in> v_busy v"
  shows "runs (safe (v\<lparr>v_me := v_tid v l, v_start := Some (snapshot_of s)\<rparr>) {#} {#})
    (Channel_handleEvent os (run_callback os inet (server_app os usr)) now p (as_thread l s))"
proof (rule runs_handleEvent)
  have ok: "safe (blind v) {#} {#} s" "v_focus (blind v) = None" using v by (simp_all add: rested_def)
  have wb: "work_ok (blind v) w" using w(1) by (simp add: work_ok_def on_list_def)
  show "safe (v\<lparr>v_me := v_tid v l, v_start := Some (snapshot_of s)\<rparr>) {#} {#} (as_thread l s)" by (rule safe_start [OF v(2,1) work_loop [OF w] l])
  have "dispatchable ((blind v)\<lparr>v_me := v_tid (blind v) l, v_busy := v_busy v\<rparr>) p (as_thread l s)"
    using work_known [OF wb ok(1) w(2)] l by (intro dispatchable_work [OF ok]) auto
  then show "dispatchable (v\<lparr>v_me := v_tid v l, v_start := Some (snapshot_of s)\<rparr>) p (as_thread l s)" by (simp add: dispatchable_def)
qed (simp_all add: v io)

lemma runs_drain:
  assumes io: "kernel_ok os v" and v: "v_focus v = None" "rested v s" and l: "l \<in> v_loops v" "l \<in> v_busy v"
  shows "runs (\<lambda>s'. rested (v\<lparr>v_me := v_tid v l, v_pin := \<lambda>c. if v_pin v c = Some l then None else v_pin v c, v_busy := v_busy v - {l}\<rparr>) s' \<and>
      confined (v\<lparr>v_me := v_tid v l, v_start := Some (snapshot_of s)\<rparr>) s')
    (EventLoop_doPendingFunctors os (exec_task os (server_app os usr)) l (as_thread l s))"
proof -
  let ?m = "\<lambda>c. if v_pin v c = Some l then None else v_pin v c"
  let ?v = "v\<lparr>v_me := v_tid v l, v_start := Some (snapshot_of s)\<rparr>"
  have "safe ?v {#} {#} (as_thread l s)" by (rule safe_start [OF v(2,1) l])
  then have "safe (?v\<lparr>v_pin := ?m\<rparr>) {#} {#} (as_thread l s)"
    by (rule safe_pin) (use v(2) in \<open>auto simp: rested_def as_thread_def safe_def split: if_splits\<close>)
  then have "runs (\<lambda>s'. safe (blind (?v\<lparr>v_pin := ?m\<rparr>)) {#} {#} s' \<and>
        alerted (?v\<lparr>v_pin := ?m\<rparr>\<lparr>v_busy := v_busy (?v\<lparr>v_pin := ?m\<rparr>) - {l}\<rparr>) s' \<and> confined (?v\<lparr>v_pin := ?m\<rparr>) s')
      (EventLoop_doPendingFunctors os (exec_task os (server_app os usr)) l (as_thread l s))"
    using v(1) l io by (intro runs_doPendingFunctors) (auto simp: as_thread_def)
  then show ?thesis by (rule runs_mono) (use v(2) in \<open>simp add: rested_def blind_view alerted_def\<close>)
qed

lemma step_keeps_sched:
  assumes "server_step os inet usr st st'" and "sched_ok os interest opened sts wk st"
  shows "sched_ok os interest opened sts wk st'"
  using assms
proof (induction rule: server_step.induct)
  case (poll l s w now active s')
  from poll(4,1,3) show ?case by (rule poll_keeps_sched)
next
  case (handle w l now p ps s s')
  then obtain v where io: "v_interest v = interest" "v_open v = opened" "v_streams v = sts" "v_wake v = wk" "v_busy v = dom w" "kernel_ok os v"
    and v: "v_focus v = None" "rested v s" "work_ok v w" by (auto elim: sched_stepE)
  have l: "l \<in> v_busy v" using handle(1) io(5) by auto
  have "safe (v\<lparr>v_me := v_tid v l, v_start := Some (snapshot_of s)\<rparr>) {#} {#} s'" by (rule runs_Inr [OF runs_handle [OF io(6) v handle(1) l] handle(2)])
  from rested_end [OF this] have "rested (v\<lparr>v_me := v_tid v l\<rparr>) s'" using v(2) by (simp add: rested_def alerted_def blind_view)
  moreover have "dom (w(l \<mapsto> (now, ps))) = dom w" using handle(1) by auto
  ultimately show ?case using work_handle [OF v(3) handle(1), of "v_tid v l"] v(1) io
    by (intro sched_okI [of "v\<lparr>v_me := v_tid v l\<rparr>"]) simp_all
next
  case (drain w l now s s')
  then obtain v where io: "v_interest v = interest" "v_open v = opened" "v_streams v = sts" "v_wake v = wk" "v_busy v = dom w" "kernel_ok os v"
    and v: "v_focus v = None" "rested v s" "work_ok v w" by (auto elim: sched_stepE)
  let ?v = "v\<lparr>v_me := v_tid v l, v_pin := \<lambda>c. if v_pin v c = Some l then None else v_pin v c, v_busy := v_busy v - {l}\<rparr>"
  have l: "l \<in> v_busy v" using drain(1) io(5) by auto
  have "rested ?v s'"
    by (rule conjunct1 [OF runs_Inr [OF runs_drain [OF io(6) v(1,2) work_loop [OF v(3) drain(1)] l] drain(2)]])
  with work_drain [OF v(3), where l = l and t = "v_tid v l" and B = "v_busy v - {l}"] v(1) io show ?case by (intro sched_okI [of ?v]) simp_all
qed

text \<open>What a step writes belongs to the loop that takes it.\<close>

lemma poll_reports_own:
  fixes s :: "('k, 'z) server_scheme"
  assumes k: "kernel_ok os v" and ok: "safe v held rest s" and l: "l \<in> v_loops v"
    and p: "EpollPoller_poll os l t [] s = Inr (now, active, s')" and q: "q \<in> set active"
  shows "ch_loop (chan s q) = l"
  using poll_succeeds [OF k ok l, of t] p q by (auto simp: reports_registered_def)

lemma poll_confined:
  fixes s :: "('k, 'z) server_scheme"
  assumes k: "kernel_ok os v" and ok: "safe v held rest s" and l: "l \<in> v_loops v"
    and p: "EpollPoller_poll os l t [] s = Inr (now, active, s')"
  shows "stays (\<lambda>x. x = l) (v_loops v) (v_main v) (snapshot_of s)
    (snapshot_of (upd_loop l (\<lambda>e. e\<lparr>el_pollReturnTime := now, el_activeChannels := active\<rparr>) s'))"
proof -
  have m: "reactor.more s' = reactor.more s" using poll_poll_frame [OF p] by (simp add: poll_frame_def)
  have ch: "chan s' q = chan s q" if "ch_loop (chan s q) \<noteq> l" for q
    using poll_others(1) [OF p, of q] poll_reports_own [OF k ok l p, of q] that by blast
  have "ch_loop (chan s (ConnChannel c)) = tc_loop (conns s c)" if "c < next_conn s" for c
    using safe_conn [OF ok that] by (simp add: conn_wired_def Let_def)
  moreover have "ch_loop (chan s (WakeupChannel x)) = x" if "x \<in> v_loops v" for x
    using ok that unfolding safe_def wired_def wakeup_watched_def Let_def by blast
  moreover have "ch_loop (chan s AcceptChannel) = v_main v" using ok by (simp add: safe_def wired_def)
  ultimately show ?thesis
    using ch poll_others(2) [OF p] server_more [OF m] conns_more [OF m]
    by (simp add: stays_def conns_stay_def server_stays_def loop_stays_def)
qed

lemma stays_mono:
  assumes "stays m L main a b" and "\<And>x. x \<in> L \<Longrightarrow> m x \<Longrightarrow> m' x" and "main \<in> L" and "\<And>c. c < sn_next_conn a \<Longrightarrow> tc_loop (sn_conns a c) \<in> L"
  shows "stays m' L main a b"
  using assms unfolding stays_def conns_stay_def by blast

lemma confined_stays:
  fixes s s' :: "('k, 'z) server_scheme"
  assumes v: "rested v s" and l: "l \<in> v_loops v" and c: "confined (v\<lparr>v_me := v_tid v l, v_start := Some (snapshot_of s)\<rparr>) s'"
  shows "stays (\<lambda>x. x = l) (loops_of s) (sv_loop s) (snapshot_of s) (snapshot_of s')"
proof -
  have ok: "safe (blind v) {#} {#} s" and inj: "inj_on (v_tid v) (v_loops v)" using v by (simp_all add: rested_def)
  then have L: "v_loops v = loops_of s" and m: "v_main v = sv_loop s" by (simp_all add: safe_def wired_def)
  have "stays (\<lambda>x. v_tid v x = v_tid v l) (v_loops v) (v_main v) (snapshot_of s) (snapshot_of s')"
    using c by (simp add: confined_def)
  then have "stays (\<lambda>x. x = l) (v_loops v) (v_main v) (snapshot_of s) (snapshot_of s')"
  proof (rule stays_mono)
    show "x = l" if "x \<in> v_loops v" "v_tid v x = v_tid v l" for x using inj_onD [OF inj that(2,1) l] .
    show "v_main v \<in> v_loops v" unfolding L m by (simp add: loops_of_def)
    show "tc_loop (sn_conns (snapshot_of s) c) \<in> v_loops v" if "c < sn_next_conn (snapshot_of s)" for c
      using safe_conn [OF ok, of c] that by (simp add: conn_wired_def Let_def)
  qed
  then show ?thesis unfolding L m .
qed

lemma step_confined:
  assumes "server_step os inet usr st st'" and "sched_ok os interest opened sts wk st"
  shows "\<exists>l \<in> loops_of (fst st). (\<forall>x. x \<noteq> l \<longrightarrow> snd st' x = snd st x) \<and>
    stays (\<lambda>x. x = l) (loops_of (fst st)) (sv_loop (fst st)) (snapshot_of (fst st)) (snapshot_of (fst st'))"
  using assms
proof (induction rule: server_step.induct)
  case (poll l s w now active s')
  then obtain v where v: "kernel_ok os v" "v_focus v = None" "rested v s" by (auto elim: sched_stepE)
  let ?b = "(blind v)\<lparr>v_me := v_tid v l\<rparr>"
  have ok: "safe (blind v) {#} {#} s" using v(3) by (simp add: rested_def)
  then have L: "v_loops v = loops_of s" and m: "v_main v = sv_loop s" by (simp_all add: safe_def wired_def)
  have "safe ?b {#} {#} (as_thread l s)" using safe_as_thread [OF ok, of l] v(2) by simp
  from poll_confined [OF _ this _ poll(3)] poll(1) v(1) kernel_blind [of os v]
  have "stays (\<lambda>x. x = l) (loops_of s) (sv_loop s) (snapshot_of s)
      (snapshot_of (upd_loop l (\<lambda>e. e\<lparr>el_pollReturnTime := now, el_activeChannels := active\<rparr>) s'))"
    by (simp add: L m as_thread_def)
  with poll(1) show ?case by (intro bexI [of _ l]) simp_all
next
  case (handle w l now p ps s s')
  then obtain v where v: "v_busy v = dom w" "kernel_ok os v" "v_focus v = None" "rested v s" "work_ok v w" by (auto elim: sched_stepE)
  have b: "l \<in> v_busy v" using handle(1) v(1) by auto
  note l = work_loop [OF v(5) handle(1)]
  have "safe (v\<lparr>v_me := v_tid v l, v_start := Some (snapshot_of s)\<rparr>) {#} {#} s'"
    by (rule runs_Inr [OF runs_handle [OF v(2-) handle(1) b] handle(2)])
  from confined_stays [OF v(4) l safe_confinement [OF this]] l v(4) show ?case
    by (intro bexI [of _ l]) (simp_all add: rested_def safe_def wired_def)
next
  case (drain w l now s s')
  then obtain v where v: "v_busy v = dom w" "kernel_ok os v" "v_focus v = None" "rested v s" "work_ok v w" by (auto elim: sched_stepE)
  have b: "l \<in> v_busy v" using drain(1) v(1) by auto
  note l = work_loop [OF v(5) drain(1)]
  have "confined (v\<lparr>v_me := v_tid v l, v_start := Some (snapshot_of s)\<rparr>) s'"
    by (rule conjunct2 [OF runs_Inr [OF runs_drain [OF v(2-4) l b] drain(2)]])
  from confined_stays [OF v(4) l this] l v(4) show ?case
    by (intro bexI [of _ l]) (simp_all add: rested_def safe_def wired_def)
qed

lemma reachable_sched:
  "(server_step os inet usr)\<^sup>*\<^sup>* st st' \<Longrightarrow> sched_ok os interest opened sts wk st \<Longrightarrow> sched_ok os interest opened sts wk st'"
  by (induction rule: rtranclp_induct) (auto intro: step_keeps_sched)

end

section \<open>The echo server\<close>

lemma onConnection_runs: "runs (\<lambda>s'. s' = s) (EchoServer_onConnection c s)"
  by (simp add: EchoServer_onConnection_def toIpPort_eq)

lemma sendInLoop_input:
  fixes s :: "('k, 'z) server_scheme"
  assumes "TcpConnection_sendInLoop os c data s = Inr s'"
  shows "tc_inputBuffer (conns s' d) = tc_inputBuffer (conns s d)"
proof -
  have q: "conns u = conns t" if "queue_shared os c x t = Inr u" for x and t u :: "('k, 'z) server_scheme"
    using that by (auto simp: queue_shared_def split: if_splits)
  let ?s0 = "if tc_state (conns s c) = kDisconnected then LOG_ERROR ''disconnected, give up writing'' 0 s else s"
  obtain n r b s1 where 1: "sendInLoop_write os c data ?s0 = Inr (n, r, b, s1)"
    and 2: "(if \<not> b \<and> 0 < r then sendInLoop_buffer os c data n r s1 else Inr s1) = Inr s'"
    using assms unfolding TcpConnection_sendInLoop_def Let_def and_then_eq_Inr by auto
  have "conns s1 = conns s"
    using 1 by (auto simp: sendInLoop_write_def Let_def and_then_eq_Inr dest!: q split: if_splits prod.splits option.splits)
  moreover have "tc_inputBuffer (conns s' d) = tc_inputBuffer (conns s1 d)"
    using 2 by (auto simp: sendInLoop_buffer_def Let_def and_then_eq_Inr dest!: q split: if_splits option.splits)
  ultimately show ?thesis by simp
qed

lemma onMessage_safe:
  fixes s :: "('k, 'z) server_scheme"
  assumes io: "kernel_ok os v" and h: "v_hand v = None" and f: "v_focus v = Some c" and ok: "safe (v\<lparr>v_hand := Some []\<rparr>) held rest s"
  shows "runs (safe v held rest) (EchoServer_onMessage os c t s)"
proof -
  let ?b = "tc_inputBuffer (conns s c)" and ?v = "v\<lparr>v_hand := Some []\<rparr>"
  let ?took = "upd_conn c (\<lambda>tc. tc\<lparr>tc_inputBuffer := Buffer_retrieveAll ?b\<rparr>) s"
  have fv: "v_focus ?v = Some c" using f by simp
  note b = focus_buffers [OF ok fv]
  have len: "length (contents ?b) < 2 ^ 63" using buffer_ok_bounds(2) [OF b(1)] b(1) by simp
  have "conn_flow v (Some []) c s" using safe_flow [OF ok fv] safe_focus [OF ok fv] by simp
  then have "conn_flow ?v (Some (contents ?b)) c (upd_conn c (\<lambda>tc. tc\<lparr>tc_inputBuffer := Buffer_retrieveAll ?b\<rparr>) (s\<lparr>kern := kern s\<rparr>))"
    using b(1) by (simp add: conn_flow_def Let_def)
  then have "safe (?v\<lparr>v_hand := Some (contents ?b)\<rparr>) held rest
      (upd_conn c (\<lambda>tc. tc\<lparr>tc_inputBuffer := Buffer_retrieveAll ?b\<rparr>) (s\<lparr>kern := kern s\<rparr>))"
    using b by (intro safe_step [OF ok fv]) simp_all
  then have took: "safe (v\<lparr>v_hand := Some (contents ?b)\<rparr>) held rest ?took" by simp
  have "runs (safe v held rest) (TcpConnection_sendInLoop os c (contents ?b) ?took)"
  proof (cases "TcpConnection_sendInLoop os c (contents ?b) ?took")
    case (Inr u)
    with runs_sendInLoop [OF io took f len] have u: "safe ?v held rest u" by simp
    have "contents (tc_inputBuffer (conns u c)) = []" using sendInLoop_input [OF Inr, of c] b(1) by simp
    moreover have "conn_flow v (Some []) c u" using safe_flow [OF u fv] safe_focus [OF u fv] by simp
    ultimately have "conn_flow ?v None c u" by (simp add: conn_flow_done)
    then have "safe (?v\<lparr>v_hand := None\<rparr>) held rest u" by (rule safe_hand [OF u fv])
    with h have "safe v held rest u" by (simp add: view_same_hand)
    with Inr show ?thesis by simp
  qed (use runs_sendInLoop [OF io took f len] in simp)
  moreover have "EventLoop_isInLoopThread (tc_loop (conns ?took c)) ?took" using safe_focus(7) [OF took] f by simp
  ultimately have "runs (safe v held rest) (TcpConnection_send os c (contents ?b) ?took)"
    by (simp add: TcpConnection_send_def EventLoop_runInLoop_def)
  then show ?thesis by (simp add: EchoServer_onMessage_def Buffer_retrieveAllAsString_spec [OF b(1)])
qed

interpretation echo: safe_app os "echo_app os :: ('k, 'z) server_scheme app" for os :: "'k os"
proof
  fix v held rest c f and s :: "('k, 'z) server_scheme"
  assume "safe v held rest s"
  then show "runs (safe v held rest) (app_connection (echo_app os) f c s)"
    using onConnection_runs [of s c] by (auto simp: echo_app_def intro: runs_mono)
qed (auto simp: echo_app_def intro: onMessage_safe)

section \<open>An iteration of a loop is a run\<close>

lemma as_thread_self: "cur_tid s = el_threadId (loops s l) \<Longrightarrow> as_thread l s = s"
  by (simp add: as_thread_def)

context safe_app
begin

lemma handle_keeps_thread:
  assumes "sched_ok os interest opened sts wk (s, w)" and "w l = Some (now, p # ps)"
    and "Channel_handleEvent os (run_callback os inet (server_app os usr)) now p (as_thread l s) = Inr s'"
  shows "as_thread l s' = s'"
proof -
  obtain v where v: "v_busy v = dom w" "kernel_ok os v" "v_focus v = None" "rested v s" "work_ok v w"
    using assms(1) by (rule sched_stepE)
  have "l \<in> v_busy v" using assms(2) v(1) by auto
  then have "safe (v\<lparr>v_me := v_tid v l, v_start := Some (snapshot_of s)\<rparr>) {#} {#} s'" by (rule runs_Inr [OF runs_handle [OF v(2-) assms(2)] assms(3)])
  then show ?thesis unfolding safe_def wired_def by (intro as_thread_self) simp
qed

lemma serve_steps:
  assumes "for_each (Channel_handleEvent os (run_callback os inet (server_app os usr)) now) ps s = Inr s'"
    and "w l = Some (now, ps)" and "sched_ok os interest opened sts wk (s, w)" and "as_thread l s = s"
  shows "(server_step os inet usr)\<^sup>*\<^sup>* (s, w) (s', w(l \<mapsto> (now, []))) \<and> as_thread l s' = s'"
  using assms
proof (induction ps arbitrary: s w)
  case Nil
  then have "w(l \<mapsto> (now, [])) = w" by (simp add: fun_upd_idem)
  with Nil show ?case by simp
next
  case (Cons p ps)
  then obtain s1 where h: "Channel_handleEvent os (run_callback os inet (server_app os usr)) now p (as_thread l s) = Inr s1"
    and rest: "for_each (Channel_handleEvent os (run_callback os inet (server_app os usr)) now) ps s1 = Inr s'"
    by (auto simp: and_then_eq_Inr)
  have st: "server_step os inet usr (s, w) (s1, w(l \<mapsto> (now, ps)))"
    using Cons.prems(2) h by (rule server_step.handle)
  have "(server_step os inet usr)\<^sup>*\<^sup>* (s1, w(l \<mapsto> (now, ps))) (s', (w(l \<mapsto> (now, ps)))(l \<mapsto> (now, []))) \<and> as_thread l s' = s'"
    using Cons.prems(2,3) h by (intro Cons.IH [OF rest] step_keeps_sched [OF st]) (auto intro: handle_keeps_thread)
  then show ?case using converse_rtranclp_into_rtranclp [of "server_step os inet usr", OF st]
    unfolding fun_upd_upd by blast
qed

lemma iteration_steps:
  assumes ok: "sched_ok os interest opened sts wk (s, w)" and l: "l \<in> loops_of s" "w l = None"
    and body: "EventLoop_loop_body os (run_callback os inet (server_app os usr)) (exec_task os (server_app os usr)) l
      (as_thread l s) = Inr s'"
  shows "(server_step os inet usr)\<^sup>*\<^sup>* (s, w) (s', w)"
proof -
  obtain now active s1 where poll: "EpollPoller_poll os l kPollTimeMs [] (as_thread l s) = Inr (now, active, s1)"
    using body by (auto simp: EventLoop_loop_body_def and_then_eq_Inr)
  let ?s2 = "upd_loop l (\<lambda>e. e\<lparr>el_pollReturnTime := now, el_activeChannels := active\<rparr>) s1"
  obtain s3 where serve: "for_each (Channel_handleEvent os (run_callback os inet (server_app os usr)) now) active ?s2 = Inr s3"
    and drain: "EventLoop_doPendingFunctors os (exec_task os (server_app os usr)) l s3 = Inr s'"
    using body poll by (auto simp: EventLoop_loop_body_def and_then_eq_Inr Let_def)
  have st: "server_step os inet usr (s, w) (?s2, w(l \<mapsto> (now, active)))" using l poll by (rule server_step.poll)
  have "cur_tid s1 = el_threadId (loops s l)" "el_threadId (loops s1 l) = el_threadId (loops s l)"
    using poll_poll_frame [OF poll] loop_cong [of "loops s1 l" "loops (as_thread l s) l"]
    unfolding poll_frame_def by (auto simp: as_thread_def)
  then have "as_thread l ?s2 = ?s2" by (intro as_thread_self) simp
  note steps = serve_steps [OF serve _ step_keeps_sched [OF st ok] this]
  have run: "(server_step os inet usr)\<^sup>*\<^sup>* (?s2, w(l \<mapsto> (now, active))) (s3, (w(l \<mapsto> (now, active)))(l \<mapsto> (now, [])))"
    and th: "as_thread l s3 = s3" using steps by auto
  have "server_step os inet usr (s3, w(l \<mapsto> (now, []))) (s', (w(l \<mapsto> (now, [])))(l := None))"
    using drain th by (intro server_step.drain) simp_all
  then have "server_step os inet usr (s3, (w(l \<mapsto> (now, active)))(l \<mapsto> (now, []))) (s', w)"
    using l(2) by (simp add: fun_upd_idem)
  with st run show ?thesis
    by (meson converse_rtranclp_into_rtranclp rtranclp.rtrancl_into_rtrancl)
qed

end

end
