(* ===== verification/Startup.thy ===== *)
theory Startup
  imports Interleaving
begin

text \<open>
  From \<^verbatim>\<open>main\<close> of the echo server to its loops: the constructors and \<^verbatim>\<open>start\<close> establish the invariant
  of \<open>Interleaving\<close>, so that what the interleaved loops keep holds from the first step on.
\<close>

section \<open>Loops under construction\<close>

text \<open>What is observed of the kernel, as in the views of \<open>Lifetime\<close>, and the contracts that the set-up needs.\<close>

definition boot_kernel ::
  "'k os \<Rightarrow> ('k \<Rightarrow> fd \<Rightarrow> fd \<rightharpoonup> epoll_event) \<Rightarrow> ('k \<Rightarrow> fd set) \<Rightarrow> ('k \<Rightarrow> (poller \<times> 'k) result) \<Rightarrow> bool" where
  "boot_kernel os interest opened newDefaultPoller \<longleftrightarrow> epoll_ctl_contract os interest \<and>
     descriptor_contract os interest opened \<and> fresh_poller interest opened newDefaultPoller"

lemma boot_kernelD:
  assumes "boot_kernel os interest opened newDefaultPoller"
  shows "epoll_ctl_contract os interest" "descriptor_contract os interest opened" "fresh_poller interest opened newDefaultPoller"
  using assms by (simp_all add: boot_kernel_def)

text \<open>The loops \<^term>\<open>L\<close> and the other channels \<^term>\<open>A\<close> are constructed.\<close>

definition booted ::
  "('k \<Rightarrow> fd \<Rightarrow> fd \<rightharpoonup> epoll_event) \<Rightarrow> ('k \<Rightarrow> fd set) \<Rightarrow> loop_ptr set \<Rightarrow> chan_ptr set \<Rightarrow> ('k, 'z) reactor_scheme \<Rightarrow> bool" where
  "booted interest opened L A s \<longleftrightarrow> (\<forall>l \<in> L. el_pendingFunctors (loops s l) = [] \<and>
     reader_only (Bind_EventLoop_handleRead l) (chan s (WakeupChannel l)) \<and>
     wakeup_watched l s \<and> t_loopInThisThread s (el_threadId (loops s l)) = Some l \<and>
     (\<forall>f p. pl_channels (el_poller (loops s l)) f = Some p \<longrightarrow> known L 0 p)) \<and>
     descriptors_ok interest opened L (WakeupChannel ` L \<union> A) s"

text \<open>The wakeup channel of a new loop, up to its registration.\<close>

lemma wakeup_descriptors:
  fixes s s' :: "('k, 'z) reactor_scheme"
  assumes k: "boot_kernel os interest opened newDefaultPoller"
    and ok: "descriptors_ok interest opened L P s" and l: "l \<notin> L" and w: "WakeupChannel l \<notin> P"
    and pl: "newDefaultPoller (kern s) = Inr (pl, k1)" and ev: "creatEventfd os k1 = Inr (evtfd, k2)"
    and s': "chan s' = (chan s)(WakeupChannel l := Channel_ctor l evtfd)" "loops s' = (loops s)(l := e)" "el_poller e = pl" "kern s' = k2"
  shows "descriptors_ok interest opened (insert l L) (insert (WakeupChannel l) P) s'"
proof -
  let ?t1 = "s\<lparr>kern := k1, loops := (loops s)(l := e)\<rparr>"
  have t1: "descriptors_ok interest opened (insert l L) P ?t1"
    using pl s'(3) by (intro descriptors_loop [OF ok boot_kernelD(3) [OF k] _ l]) simp_all
  have f: "0 \<le> evtfd" "fst (fst (sys_eventfd os k1)) = evtfd" "snd (sys_eventfd os k1) = k2"
    using ev by (auto simp: creatEventfd_def Let_def split: prod.splits if_splits)
  then have "opens interest opened evtfd (kern ?t1) k2"
    using boot_kernelD(2) [OF k] unfolding descriptor_contract_def by simp (metis f(2,3))
  note t2 = descriptors_opens [OF t1 this]
  have "unused opened (insert l L) P (ch_fd (Channel_ctor l evtfd)) (?t1\<lparr>kern := k2\<rparr>)"
    using t2(2) f(1) by (simp add: Channel_ctor_def)
  from descriptors_channel [OF t2(1) w this, where s' = s'] show ?thesis using s' by (simp add: Channel_ctor_def kNew_def)
qed

lemma EventLoop_ctor_booted:
  assumes k: "boot_kernel os interest opened newDefaultPoller" and boot: "booted interest opened L A s"
    and l: "l \<notin> L" and A: "A \<subseteq> {AcceptChannel}" and c: "EventLoop_ctor os newDefaultPoller l s = Inr s'"
  shows "booted interest opened (insert l L) A s'" "refs s' = refs s" "reactor.more s' = reactor.more s" "cur_tid s' = cur_tid s"
    "chan s' AcceptChannel = chan s AcceptChannel"
proof -
  obtain pl k1 evtfd k2 where pl: "newDefaultPoller (kern s) = Inr (pl, k1)" and ev: "creatEventfd os k1 = Inr (evtfd, k2)"
    and s': "s' = Channel_enableReading os (WakeupChannel l)
        (Channel_setReadCallback (WakeupChannel l) (Bind_EventLoop_handleRead l)
          (s\<lparr>kern := k2,
             loops := (loops s)(l := \<lparr>el_looping = False, el_quit = False, el_threadId = cur_tid s,
                 el_pollReturnTime = 0, el_poller = pl, el_wakeupFd = evtfd, el_activeChannels = [],
                 el_callingPendingFunctors = False, el_pendingFunctors = []\<rparr>),
             chan := (chan s)(WakeupChannel l := Channel_ctor l evtfd),
             t_loopInThisThread := (t_loopInThisThread s)(cur_tid s \<mapsto> l)\<rparr>))"
    and alone: "t_loopInThisThread s (cur_tid s) = None"
    using c by (auto simp: EventLoop_ctor_def and_then_eq_Inr Let_def split: option.splits)
  show "refs s' = refs s" "reactor.more s' = reactor.more s" "cur_tid s' = cur_tid s"
    by (simp_all add: s' Channel_enableReading_def Channel_setReadCallback_def)
  show "chan s' AcceptChannel = chan s AcceptChannel"
    by (simp add: s' Channel_enableReading_def Channel_setReadCallback_def Channel_update_def EventLoop_updateChannel_def
        updateChannel_chan)
  have e: "pl_channels pl = Map.empty" using boot_kernelD(3) [OF k] pl unfolding fresh_poller_def by blast
  have lo: "el_pendingFunctors (loops s' x) = (if x = l then [] else el_pendingFunctors (loops s x))"
    "pl_channels (el_poller (loops s' x)) = (if x = l then [evtfd \<mapsto> WakeupChannel l] else pl_channels (el_poller (loops s x)))" for x
    by (simp_all add: s' e Channel_enableReading_def Channel_setReadCallback_def Channel_update_def EventLoop_updateChannel_def
        updateChannel_loops Channel_ctor_def kNew_def)
  have ch: "reader_only (Bind_EventLoop_handleRead x) (chan s' (WakeupChannel x)) \<longleftrightarrow>
      x = l \<or> reader_only (Bind_EventLoop_handleRead x) (chan s (WakeupChannel x))" for x
    by (simp add: s' reader_only_def Channel_enableReading_def Channel_setReadCallback_def Channel_update_def
        EventLoop_updateChannel_def updateChannel_chan Channel_ctor_def)
  have "el_wakeupFd (loops s' x) = (if x = l then evtfd else el_wakeupFd (loops s x))"
    "ch_fd (chan s' (WakeupChannel x)) = (if x = l then evtfd else ch_fd (chan s (WakeupChannel x)))"
    "ch_loop (chan s' (WakeupChannel x)) = (if x = l then l else ch_loop (chan s (WakeupChannel x)))" for x
    by (simp_all add: s' Channel_enableReading_def Channel_setReadCallback_def Channel_ctor_def)
  moreover have "ch_events (chan s' (WakeupChannel x)) = (if x = l then kReadEvent else ch_events (chan s (WakeupChannel x)))"
    "ch_index (chan s' (WakeupChannel x)) = (if x = l then kAdded else ch_index (chan s (WakeupChannel x)))" for x
    by (simp_all add: s' Channel_enableReading_def Channel_setReadCallback_def Channel_update_def EventLoop_updateChannel_def
        updateChannel_chan Channel_ctor_def kNew_def kAdded_def kReadEvent_def)
  ultimately have wk: "wakeup_watched x s' \<longleftrightarrow> x = l \<or> wakeup_watched x s" for x by (simp add: wakeup_watched_def Let_def)
  have th: "t_loopInThisThread s' = (t_loopInThisThread s)(cur_tid s \<mapsto> l)"
    "el_threadId (loops s' x) = (if x = l then cur_tid s else el_threadId (loops s x))" for x
    by (simp_all add: s' Channel_enableReading_def Channel_setReadCallback_def)
  have kn: "known (insert l L) 0 p" if "known L 0 p" for p using that by (cases p) auto
  have d: "descriptors_ok interest opened L (WakeupChannel ` L \<union> A) s" using boot by (simp add: booted_def)
  let ?P = "insert (WakeupChannel l) (WakeupChannel ` L \<union> A)"
  let ?t = "Channel_setReadCallback (WakeupChannel l) (Bind_EventLoop_handleRead l)
          (s\<lparr>kern := k2,
             loops := (loops s)(l := \<lparr>el_looping = False, el_quit = False, el_threadId = cur_tid s,
                 el_pollReturnTime = 0, el_poller = pl, el_wakeupFd = evtfd, el_activeChannels = [],
                 el_callingPendingFunctors = False, el_pendingFunctors = []\<rparr>),
             chan := (chan s)(WakeupChannel l := Channel_ctor l evtfd),
             t_loopInThisThread := (t_loopInThisThread s)(cur_tid s \<mapsto> l)\<rparr>)"
  let ?u = "?t\<lparr>chan := (chan s)(WakeupChannel l := Channel_ctor l evtfd)\<rparr>"
  have "descriptors_ok interest opened (insert l L) ?P ?u"
    using l A by (intro wakeup_descriptors [OF k d l _ pl ev]) (auto simp: Channel_setReadCallback_def)
  moreover have "descriptors_ok interest opened (insert l L) ?P ?t = descriptors_ok interest opened (insert l L) ?P ?u"
    by (rule descriptors_cong) (simp_all add: Channel_setReadCallback_def)
  ultimately have "descriptors_ok interest opened (insert l L) ?P s'"
    unfolding s' Channel_enableReading_def by (intro descriptors_mask boot_kernelD(1,2) [OF k]) simp_all
  with boot kn show "booted interest opened (insert l L) A s'"
    by (auto simp: booted_def lo ch wk th alone split: if_splits)
qed

lemma booted_cong:
  "booted interest opened L A s \<Longrightarrow> loops s' = loops s \<Longrightarrow> chan s' = chan s \<Longrightarrow> kern s' = kern s \<Longrightarrow>
     t_loopInThisThread s' = t_loopInThisThread s \<Longrightarrow> booted interest opened L A s'"
  using descriptors_cong [of s' s interest opened] by (simp add: booted_def wakeup_watched_def)

text \<open>The constructor of a loop admits one loop per thread.\<close>

lemma booted_threads: "booted interest opened L A s \<Longrightarrow> inj_on (\<lambda>l. el_threadId (loops s l)) L"
  unfolding booted_def by (auto intro!: inj_onI) (metis option.inject)

lemma Acceptor_ctor_booted:
  fixes s s' :: "('k, 'z) server_scheme"
  assumes k: "boot_kernel os interest opened newDefaultPoller" and boot: "booted interest opened L {} s" and l: "l \<in> L"
    and c: "Acceptor_ctor os l addr reuse s = Inr s'"
  shows "booted interest opened L {AcceptChannel} s'" "reader_only Bind_Acceptor_handleRead (chan s' AcceptChannel)"
    "refs s' = refs s" "cur_tid s' = cur_tid s" "accnet.more s' = accnet.more s" "ch_loop (chan s' AcceptChannel) = l"
proof -
  obtain f e k1 where sock: "sys_socket os (kern s) = ((f, e), k1)" by (metis surj_pair)
  obtain r k2 where bind: "sys_bind os f addr
      (sys_setsockopt os f SO_REUSEPORT (optval True) (sys_setsockopt os f SO_REUSEADDR (optval True) k1)) = (r, k2)"
    by fastforce
  have s': "s' = Channel_setReadCallback AcceptChannel Bind_Acceptor_handleRead (s\<lparr>
      the_acceptor := \<lparr>ac_loop = l, ac_socket = f, ac_newConnectionCallback = False, ac_listening = False\<rparr>,
      chan := (chan s)(AcceptChannel := Channel_ctor l f), kern := k2\<rparr>)" and f: "0 \<le> f"
    using c sock bind by (auto simp: Acceptor_ctor_def createNonblocking_def Let_def Socket_setReusePort_def
        Socket_setReuseAddr_def Socket_bindAddress_def split: if_splits)
  show "reader_only Bind_Acceptor_handleRead (chan s' AcceptChannel)" "refs s' = refs s" "cur_tid s' = cur_tid s"
    "accnet.more s' = accnet.more s" "ch_loop (chan s' AcceptChannel) = l"
    by (simp_all add: s' Channel_setReadCallback_def upd_chan_def Channel_ctor_def reader_only_def)
  have fr: "loops s' = loops s" "chan s' (WakeupChannel x) = chan s (WakeupChannel x)" "t_loopInThisThread s' = t_loopInThisThread s" for x
    by (simp_all add: s' Channel_setReadCallback_def upd_chan_def)
  let ?P = "WakeupChannel ` L"
  have q: "quiet_calls os (\<lambda>k. (interest k, opened k))" and so: "opens interest opened f (kern s) k1"
    using boot_kernelD(2) [OF k] sock unfolding descriptor_contract_def by (simp, metis fst_conv snd_conv)
  have "(interest k2, opened k2) = (interest k1, opened k1)"
    using q bind unfolding quiet_calls_def by (metis snd_conv)
  with so have op: "opens interest opened f (kern s) k2" by (simp add: opens_def)
  have "descriptors_ok interest opened L ?P s" using boot by (simp add: booted_def)
  note d = descriptors_opens [OF this op]
  have "descriptors_ok interest opened L (insert AcceptChannel ?P) s'"
    by (rule descriptors_channel [OF d(1), of _ "chan s' AcceptChannel"])
      (use f d(2) l in \<open>auto simp: s' Channel_setReadCallback_def Channel_ctor_def kNew_def\<close>)
  then show "booted interest opened L {AcceptChannel} s'" using boot by (simp add: booted_def wakeup_watched_def fr)
qed

section \<open>Starting the pool\<close>

text \<open>Live loops have addresses of their own.\<close>

definition own_addresses :: "(nat \<Rightarrow> int \<times> loop_ptr) \<Rightarrow> bool" where
  "own_addresses fresh \<longleftrightarrow> inj (\<lambda>i. snd (fresh i)) \<and> (\<forall>i. snd (fresh i) \<noteq> 0)"

definition pool_booted ::
  "('k \<Rightarrow> fd \<Rightarrow> fd \<rightharpoonup> epoll_event) \<Rightarrow> ('k \<Rightarrow> fd set) \<Rightarrow> (nat \<Rightarrow> int \<times> loop_ptr) \<Rightarrow> ('k, 'z) reactor_scheme \<Rightarrow> nat \<Rightarrow>
     thread_pool \<times> ('k, 'z) reactor_scheme \<Rightarrow> bool" where
  "pool_booted interest opened fresh s0 i = (\<lambda>(tp, s). tp_loops tp = map (\<lambda>j. snd (fresh j)) [0..<i] \<and>
     booted interest opened (insert 0 (set (tp_loops tp))) {AcceptChannel} s \<and> tp_next tp = 0 \<and> tp_baseloop tp = 0 \<and>
     refs s = refs s0 \<and> reactor.more s = reactor.more s0 \<and> cur_tid s = cur_tid s0 \<and>
     chan s AcceptChannel = chan s0 AcceptChannel)"

lemma start_thread_booted:
  assumes k: "boot_kernel os interest opened newDefaultPoller" and addr: "own_addresses fresh"
    and inv: "pool_booted interest opened fresh s0 i (tp, s)"
    and st: "start_thread os newDefaultPoller fresh None i (tp, s) = Inr (tp', s')"
  shows "pool_booted interest opened fresh s0 (Suc i) (tp', s')"
proof -
  let ?L = "insert 0 (set (tp_loops tp))"
  obtain lt num where lt: "EventLoopThread_ctor (snprintf_buf (length (tp_name tp) + 32) (tp_name tp @ show_int (int i))) s =
      (lt, s\<lparr>numCreated := num\<rparr>)"
    unfolding EventLoopThread_ctor_def
    by (cases "Thread_ctor (numCreated s) (snprintf_buf (length (tp_name tp) + 32) (tp_name tp @ show_int (int i)))") simp
  let ?s = "s\<lparr>numCreated := num, cur_tid := fst (fresh i)\<rparr>"
  obtain s1 where c: "EventLoop_ctor os newDefaultPoller (snd (fresh i)) ?s = Inr s1"
    and tp': "tp_loops tp' = tp_loops tp @ [snd (fresh i)]" "tp_next tp' = tp_next tp" "tp_baseloop tp' = tp_baseloop tp"
    and s': "s' = s1\<lparr>cur_tid := cur_tid s\<rparr>"
    using st lt by (auto simp: start_thread_def EventLoopThread_startLoop_def and_then_eq_Inr Let_def split: prod.splits)
  have boot: "booted interest opened ?L {AcceptChannel} ?s" using inv by (auto simp: pool_booted_def intro: booted_cong)
  have new: "snd (fresh i) \<notin> ?L"
    using inv addr by (auto simp: pool_booted_def own_addresses_def dest: injD)
  note b = EventLoop_ctor_booted [OF k boot new _ c, simplified]
  have "booted interest opened (insert (snd (fresh i)) ?L) {AcceptChannel} s'" using b(1) by (auto simp: s' intro: booted_cong)
  then show ?thesis using inv b(2-5) by (simp add: pool_booted_def tp' s' insert_commute)
qed

lemma pool_start_booted:
  assumes k: "boot_kernel os interest opened newDefaultPoller" and addr: "own_addresses fresh"
    and boot: "booted interest opened {0} {AcceptChannel} s"
    and st: "EventLoopThreadPool_start os newDefaultPoller fresh None
      (EventLoopThreadPool_setThreadNum n (EventLoopThreadPool_ctor 0 name)) s = Inr (tp, s')"
  shows "pool_booted interest opened fresh s (nat n) (tp, s')" "pool_ok tp"
proof -
  let ?tp = "(EventLoopThreadPool_setThreadNum n (EventLoopThreadPool_ctor 0 name))\<lparr>tp_started := True\<rparr>"
  have run: "for_each (start_thread os newDefaultPoller fresh None) [0..<nat n] (?tp, s) = Inr (tp, s')"
    using st by (auto simp: EventLoopThreadPool_start_def and_then_eq_Inr EventLoopThreadPool_setThreadNum_def split: if_splits)
  have init: "pool_booted interest opened fresh s 0 (?tp, s)"
    using boot by (simp add: pool_booted_def EventLoopThreadPool_setThreadNum_def EventLoopThreadPool_ctor_def)
  show inv: "pool_booted interest opened fresh s (nat n) (tp, s')"
    by (rule for_each_upto [OF run, where P = "pool_booted interest opened fresh s"])
      (auto intro: init start_thread_booted [OF k addr])
  then show "pool_ok tp" by (auto simp: pool_booted_def pool_ok_def)
qed

section \<open>The state that main hands to its loops\<close>

text \<open>No connection object exists yet, and no channel is in a poller.\<close>

definition no_connections :: "('k, 'z) server_scheme \<Rightarrow> bool" where
  "no_connections s \<longleftrightarrow> refs s = (\<lambda>_. 0) \<and> next_conn s = 0 \<and> (\<forall>p. ch_index (chan s p) = kNew)"

lemma booted_pending:
  assumes "booted interest opened (loops_of s) A s"
  shows "all_pending s = {#}"
  using assms by (simp add: all_pending_def booted_def)

definition fresh_view ::
  "('k \<Rightarrow> fd \<Rightarrow> fd \<rightharpoonup> epoll_event) \<Rightarrow> ('k \<Rightarrow> fd set) \<Rightarrow> 'k streams option \<Rightarrow> ('k \<Rightarrow> fd \<Rightarrow> nat) option \<Rightarrow>
     ('k, 'z) server_scheme \<Rightarrow> 'k view" where
  "fresh_view interest opened sts wk s = \<lparr>v_interest = interest, v_open = opened, v_loops = loops_of s,
     v_tid = \<lambda>l. el_threadId (loops s l), v_me = cur_tid s, v_focus = None, v_pin = Map.empty, v_streams = sts, v_hand = None,
     v_wake = wk, v_busy = {}, v_main = sv_loop s, v_start = None\<rparr>"

lemma fresh_view_sel [simp]:
  "v_interest (fresh_view interest opened sts wk s) = interest" "v_open (fresh_view interest opened sts wk s) = opened"
  "v_loops (fresh_view interest opened sts wk s) = loops_of s" "v_tid (fresh_view interest opened sts wk s) = (\<lambda>l. el_threadId (loops s l))"
  "v_me (fresh_view interest opened sts wk s) = cur_tid s" "v_focus (fresh_view interest opened sts wk s) = None"
  "v_pin (fresh_view interest opened sts wk s) = Map.empty" "v_streams (fresh_view interest opened sts wk s) = sts"
  "v_hand (fresh_view interest opened sts wk s) = None" "v_wake (fresh_view interest opened sts wk s) = wk"
  "v_busy (fresh_view interest opened sts wk s) = {}" "v_main (fresh_view interest opened sts wk s) = sv_loop s"
  "v_start (fresh_view interest opened sts wk s) = None" "blind (fresh_view interest opened sts wk s) = fresh_view interest opened sts None s"
  by (simp_all add: fresh_view_def blind_def)

lemma safe_fresh:
  fixes s :: "('k, 'z) server_scheme"
  assumes boot: "booted interest opened (loops_of s) {AcceptChannel} s"
    and none: "next_conn s = 0" "refs s = (\<lambda>_. 0)" "sv_connections s = Map.empty"
    and pool: "pool_ok (sv_threadPool s)" "tp_baseloop (sv_threadPool s) = sv_loop s"
    and cb: "sv_connectionCallback s \<noteq> None" "sv_messageCallback s \<noteq> None"
    and num: "length (sv_ipPort s) \<le> 21" "sv_nextConnId s = 1" and acc: "reader_only Bind_Acceptor_handleRead (chan s AcceptChannel)"
      "ch_loop (chan s AcceptChannel) = sv_loop s"
  shows "safe (fresh_view interest opened sts None s) {#} {#} s"
proof -
  have "own_ok {#} {#} (ownership_of s)"
    using none booted_pending [OF boot] by (simp add: own_ok_def own_parts held_by_def)
  moreover have "names_numbered s" "placed (loops_of s) s"
    using num none boot by (simp_all add: names_numbered_def placed_def booted_def)
  moreover have "reader_only (Bind_EventLoop_handleRead l) (chan s (WakeupChannel l))"
    "pl_channels (el_poller (loops s l)) f = Some p \<Longrightarrow> known (loops_of s) (next_conn s) p" if "l \<in> loops_of s" for l f p
    using boot that none(1) unfolding booted_def by auto
  moreover have "\<forall>l \<in> loops_of s. wakeup_watched l s"
    using boot unfolding booted_def by blast
  moreover have "p \<in> live L s \<longleftrightarrow> p \<in> WakeupChannel ` L \<union> {AcceptChannel}" for L p
    using none by (cases p) (auto simp: live_def)
  then have "live L s = WakeupChannel ` L \<union> {AcceptChannel}" for L by blast
  then have "descs (fresh_view interest opened sts None s) s" using boot by (simp add: booted_def descs_def)
  ultimately show ?thesis
    using pool cb acc none by (simp add: safe_def wired_def flows_def)
qed

text \<open>The one functor that the set-up may queue wakes its loop.\<close>

lemma listen_alerted:
  fixes s s' :: "('k, 'z) server_scheme"
  assumes k: "counters_ok os v" and none: "\<And>l. l \<in> v_loops v \<Longrightarrow> el_pendingFunctors (loops s l) = []"
    and run: "EventLoop_runInLoop os l Bind_listen (Acceptor_listen os) s = Inr s'"
  shows "alerted v s'"
proof (cases "EventLoop_isInLoopThread l s")
  case True
  then have "el_pendingFunctors (loops s' x) = el_pendingFunctors (loops s x)" for x
    using run by (auto simp: EventLoop_runInLoop_def Acceptor_listen_def Socket_listen_def Let_def Channel_enableReading_def split: if_splits prod.splits)
  with none show ?thesis by (simp add: alerted_def)
next
  case False
  then have s': "s' = EventLoop_queueInLoop os l Bind_listen s" using run by (simp add: EventLoop_runInLoop_def)
  have "0 < counter (kern s') (el_wakeupFd (loops s' x))"
    if "v_wake v = Some counter" "x \<in> v_loops v" "el_pendingFunctors (loops s' x) \<noteq> []" for counter x
  proof -
    have "x = l" using none [OF that(2)] that(3) by (cases "x = l") (simp_all add: s')
    with queue_wakes [OF k that(1) disjI1 [OF False]] show ?thesis by (simp add: s')
  qed
  then show ?thesis unfolding alerted_def by blast
qed

lemma EchoServer_ctor_booted:
  fixes s s' :: "('k, 'z) server_scheme"
  assumes k: "boot_kernel os interest opened newDefaultPoller" and boot: "booted interest opened {l} {} s"
    and c: "EchoServer_ctor os l addr name s = Inr s'"
  shows "booted interest opened {l} {AcceptChannel} s'" "reader_only Bind_Acceptor_handleRead (chan s' AcceptChannel)" "refs s' = refs s"
    "next_conn s' = next_conn s" "sv_loop s' = l" "length (sv_ipPort s') \<le> 21" "sv_nextConnId s' = 1" "sv_connections s' = Map.empty"
    "sv_connectionCallback s' \<noteq> None" "sv_messageCallback s' \<noteq> None" "sv_threadInitCallback s' = None" "sv_started s' = 0"
    "sv_threadPool s' = EventLoopThreadPool_setThreadNum 3 (EventLoopThreadPool_ctor l name)" "ch_loop (chan s' AcceptChannel) = l"
proof -
  obtain ipPort s1 where ip: "InetAddress_toIpPort addr = Inr ipPort" and a: "Acceptor_ctor os l addr False s = Inr s1"
    and s': "s' = TcpServer_setThreadNum 3 (TcpServer_setMessageCallback (Some 0) (TcpServer_setConnectionCallback (Some 0)
      (Acceptor_setNewConnectionCallback (s1\<lparr>sv_loop := l, sv_ipPort := ipPort, sv_name := name,
             sv_threadPool := EventLoopThreadPool_ctor l name, sv_connectionCallback := None,
             sv_messageCallback := None, sv_writeCompleteCallback := None, sv_threadInitCallback := None,
             sv_nextConnId := 1, sv_started := 0, sv_connections := Map.empty\<rparr>))))"
    using c by (auto simp: EchoServer_ctor_def TcpServer_ctor_def CheckLoopNotNull_def and_then_eq_Inr)
  note b = Acceptor_ctor_booted [OF k boot _ a, simplified]
  note sel = s' TcpServer_setThreadNum_def TcpServer_setMessageCallback_def TcpServer_setConnectionCallback_def
    Acceptor_setNewConnectionCallback_def upd_acceptor_def
  show "booted interest opened {l} {AcceptChannel} s'" using b(1) by (auto simp: sel intro: booted_cong)
  show "reader_only Bind_Acceptor_handleRead (chan s' AcceptChannel)" "refs s' = refs s" "ch_loop (chan s' AcceptChannel) = l" using b(2,3,6) by (simp_all add: sel)
  show "next_conn s' = next_conn s" using server_accnet_more(10) [OF b(5)] by (simp add: sel)
  show "length (sv_ipPort s') \<le> 21" using length_toIpPort [OF ip] by (simp add: sel)
  show "sv_loop s' = l" "sv_nextConnId s' = 1" "sv_connections s' = Map.empty"
    "sv_connectionCallback s' \<noteq> None" "sv_messageCallback s' \<noteq> None" "sv_threadInitCallback s' = None" "sv_started s' = 0"
    "sv_threadPool s' = EventLoopThreadPool_setThreadNum 3 (EventLoopThreadPool_ctor l name)"
    by (simp_all add: sel)
qed

text \<open>What the properties below assume of the kernel, of \<^verbatim>\<open>newDefaultPoller\<close>, of the addresses of the loops and of
  the state before \<^verbatim>\<open>main\<close>.\<close>

definition environment_ok ::
  "'k os \<Rightarrow> ('k \<Rightarrow> fd \<Rightarrow> fd \<rightharpoonup> epoll_event) \<Rightarrow> ('k \<Rightarrow> fd set) \<Rightarrow> ('k \<Rightarrow> (poller \<times> 'k) result) \<Rightarrow>
     (nat \<Rightarrow> int \<times> loop_ptr) \<Rightarrow> ('k, 'z) server_scheme \<Rightarrow> bool" where
  "environment_ok os interest opened newDefaultPoller fresh s0 \<longleftrightarrow> readv_contract os \<and> (\<exists>wire. write_contract os wire) \<and>
     epoll_ctl_contract os interest \<and> epoll_wait_contract os interest \<and> descriptor_contract os interest opened \<and>
     fresh_poller interest opened newDefaultPoller \<and> own_addresses fresh \<and> no_connections s0"

text \<open>Before the acceptor listens, which is the last thing that \<^verbatim>\<open>main\<close> does.\<close>

lemma echo_setup_ready:
  fixes s0 s1 :: "('k, 'z) server_scheme"
  assumes su: "echo_setup os inet newDefaultPoller fresh s0 = Inr s1"
    and env: "environment_ok os interest opened newDefaultPoller fresh s0"
  obtains s :: "('k, 'z) server_scheme" where "booted interest opened (loops_of s) {AcceptChannel} s" "safe (fresh_view interest opened sts None s) {#} {#} s"
    "sv_loop s = 0" "EventLoop_runInLoop os 0 Bind_listen (Acceptor_listen os) s = Inr s1"
proof -
  have k: "boot_kernel os interest opened newDefaultPoller" and addr: "own_addresses fresh" and none: "no_connections s0"
    using env by (simp_all add: environment_ok_def boot_kernel_def)
  obtain sa sb where a: "EventLoop_ctor os newDefaultPoller 0 s0 = Inr sa"
    and b: "EchoServer_ctor os 0 (InetAddress_ctor inet 8002 ''127.0.0.1'') ''EchoServer'' sa = Inr sb"
    and c: "EchoServer_start os newDefaultPoller fresh sb = Inr s1"
    using su by (auto simp: echo_setup_def and_then_eq_Inr)
  have "booted interest opened {} {} s0" using none by (simp add: booted_def descriptors_ok_def no_connections_def)
  note ca = EventLoop_ctor_booted [OF k this _ _ a, simplified]
  note cb = EchoServer_ctor_booted [OF k ca(1) b]
  let ?start = "sb\<lparr>sv_started := 1\<rparr>"
  obtain tp sc where tp: "EventLoopThreadPool_start os newDefaultPoller fresh None
        (EventLoopThreadPool_setThreadNum 3 (EventLoopThreadPool_ctor 0 ''EchoServer'')) ?start = Inr (tp, sc)"
    and s1: "EventLoop_runInLoop os (sv_loop sc) Bind_listen (Acceptor_listen os) (sc\<lparr>sv_threadPool := tp\<rparr>) = Inr s1"
    using c cb(11-13) by (auto simp: EchoServer_start_def TcpServer_start_def Let_def and_then_eq_Inr)
  have "booted interest opened {0} {AcceptChannel} ?start" using cb(1) by (auto intro: booted_cong)
  note pb = pool_start_booted [OF k addr this tp]
  let ?s = "sc\<lparr>sv_threadPool := tp\<rparr>"
  have m: "reactor.more sc = reactor.more ?start" and pool: "booted interest opened (insert 0 (set (tp_loops tp))) {AcceptChannel} sc"
      "tp_baseloop tp = 0"
    and fr: "refs sc = refs sb" "chan sc AcceptChannel = chan sb AcceptChannel"
    using pb(1) by (auto simp: pool_booted_def)
  note sv = server_more [OF m]
  have "loops_of ?s = insert 0 (set (tp_loops tp))" using sv cb(5) by (simp add: loops_of_def)
  then have boot: "booted interest opened (loops_of ?s) {AcceptChannel} ?s" using pool(1) by (auto intro: booted_cong)
  have "safe (fresh_view interest opened sts None ?s) {#} {#} ?s"
  proof (rule safe_fresh [OF boot])
    have "next_conn s0 = next_conn sa" using server_more(10) [OF ca(3)] by simp
    with none show "next_conn ?s = 0" "refs ?s = (\<lambda>_. 0)" using sv cb ca fr by (simp_all add: no_connections_def)
  qed (use sv cb pb(2) pool(2) fr in simp_all)
  moreover have "sv_loop sc = 0" using sv cb(5) by simp
  ultimately show ?thesis using boot s1 by (intro that [of ?s]) simp_all
qed

lemma echo_setup_sched:
  fixes s0 s1 :: "('k, 'z) server_scheme"
  assumes su: "echo_setup os inet newDefaultPoller fresh s0 = Inr s1"
    and env: "environment_ok os interest opened newDefaultPoller fresh s0"
    and st: "\<And>st. sts = Some st \<Longrightarrow> streams_ok os st" and wk: "\<And>counter. wk = Some counter \<Longrightarrow> eventfd_contract os counter"
  shows "sched_ok os interest opened sts wk (s1, Map.empty)" and "0 \<in> loops_of s1" and "el_pendingFunctors (loops s1 0) \<in> {[], [Bind_listen]}"
proof -
  obtain s :: "('k, 'z) server_scheme" where boot: "booted interest opened (loops_of s) {AcceptChannel} s"
    and ok: "safe (fresh_view interest opened sts None s) {#} {#} s" and main: "sv_loop s = 0"
    and run: "EventLoop_runInLoop os 0 Bind_listen (Acceptor_listen os) s = Inr s1"
    using echo_setup_ready [OF su env] by blast
  let ?v = "fresh_view interest opened sts wk s" and ?b = "fresh_view interest opened sts None s"
  have io: "kernel_ok os ?v" "kernel_ok os ?b"
    using env st wk by (auto simp: environment_ok_def counters_ok_def intro!: kernel_okI)
  have l: "0 \<in> loops_of s" using main by (simp add: loops_of_def)
  have none: "el_pendingFunctors (loops s l) = []" if "l \<in> loops_of s" for l using boot that by (simp add: booted_def)
  have "runs (safe ?b {#} {#}) (EventLoop_runInLoop os 0 Bind_listen (Acceptor_listen os) s)"
    using ok l main by (auto simp: EventLoop_runInLoop_def runs_in_def intro: runs_listen [OF io(2)] safe_queue [OF io(2)])
  note safe = runs_Inr [OF this run]
  moreover have "alerted ?v s1" using none by (intro listen_alerted [OF kernel_counters [OF io(1)] _ run]) simp
  ultimately have "rested ?v s1" using booted_threads [OF boot] by (simp add: rested_def)
  then show "sched_ok os interest opened sts wk (s1, Map.empty)"
    using io by (intro sched_okI [of ?v]) (simp_all add: work_ok_def)
  show "0 \<in> loops_of s1" using safe l unfolding safe_def wired_def by simp
  show "el_pendingFunctors (loops s1 0) \<in> {[], [Bind_listen]}"
    using run none [OF l] by (auto simp: EventLoop_runInLoop_def Acceptor_listen_def Socket_listen_def Let_def Channel_enableReading_def
        split: if_splits prod.splits)
qed

text \<open>Without observed streams and counters nothing is assumed of them.\<close>

lemma echo_setup_boot:
  assumes "echo_setup os inet newDefaultPoller fresh s0 = Inr s1" and "environment_ok os interest opened newDefaultPoller fresh s0"
  shows "sched_ok os interest opened None None (s1, Map.empty)" and "0 \<in> loops_of s1" and "el_pendingFunctors (loops s1 0) \<in> {[], [Bind_listen]}"
  using echo_setup_sched [OF assms, of None None] by auto

lemma echo_reachable:
  assumes "environment_ok os interest opened newDefaultPoller fresh s0"
    and "echo_setup os inet newDefaultPoller fresh s0 = Inr s1"
    and "(server_step os inet (echo_app os))\<^sup>*\<^sup>* (s1, Map.empty) (s, w)"
  shows "sched_ok os interest opened None None (s, w)"
  by (rule echo.reachable_sched [OF assms(3) echo_setup_boot(1) [OF assms(2,1)]])

section \<open>What holds in every reachable state\<close>

lemma held_by_mset: "held_by c (mset ts) = length (filter (\<lambda>t. task_owns t = Some c) ts)"
  by (induction ts) (simp_all add: held_by_def)

lemma held_by_sum:
  "finite A \<Longrightarrow> held_by c (\<Sum>l \<in> A. mset (f l)) = (\<Sum>l \<in> A. length (filter (\<lambda>t. task_owns t = Some c) (f l)))"
  by (induction rule: finite_induct) (simp_all add: held_by_mset held_by_def [of c "{#}"])

lemma sched_facts:
  assumes "sched_ok os interest opened sts wk (s, w)"
  shows "refs s c = of_bool (c \<in> ran (sv_connections s)) + held_by c (all_pending s)"
    and "c < next_conn s \<Longrightarrow> ch_index (chan s (ConnChannel c)) \<noteq> kNew \<Longrightarrow> refs s c \<noteq> 0"
    and "w l = Some (now, ps) \<Longrightarrow> ConnChannel c \<in> set ps \<Longrightarrow> refs s c \<noteq> 0"
    and "c < next_conn s \<Longrightarrow> ch_index (chan s (ConnChannel c)) \<noteq> kNew \<Longrightarrow> c \<in> ran (sv_connections s) \<or> leaving c (all_pending s)"
    and "l \<in> loops_of s \<Longrightarrow> Bind_connectDestroyed c \<in> set (el_pendingFunctors (loops s l)) \<Longrightarrow> tc_loop (conns s c) = l"
proof -
  obtain v where v: "v_focus v = None" "safe v {#} {#} s" "work_ok v w" using assms by (auto elim: sched_okE)
  then have own: "own_ok {#} {#} (ownership_of s)" by (simp add: safe_def)
  then show "refs s c = of_bool (c \<in> ran (sv_connections s)) + held_by c (all_pending s)"
    by (simp add: own_ok_def counts_ok_def)
  show alive: "refs s c \<noteq> 0" if "c < next_conn s" "ch_index (chan s (ConnChannel c)) \<noteq> kNew"
    using own_alive(4) [OF own, of c] that by simp
  show "refs s c \<noteq> 0" if "w l = Some (now, ps)" "ConnChannel c \<in> set ps"
    using alive v(2) work_known [OF v(3,2) that] by (simp add: safe_def)
  show "c \<in> ran (sv_connections s) \<or> leaving c (all_pending s)" if "c < next_conn s" "ch_index (chan s (ConnChannel c)) \<noteq> kNew"
    using own that by (simp add: own_ok_def anchors_ok_def)
  show "tc_loop (conns s c) = l" if "l \<in> loops_of s" "Bind_connectDestroyed c \<in> set (el_pendingFunctors (loops s l))"
    using v(2) that unfolding safe_def wired_def placed_def by blast
qed

lemma sched_descriptors:
  assumes "sched_ok os interest opened sts wk (s, w)"
  shows "descriptors_ok interest opened (loops_of s) (live (loops_of s) s) s"
proof -
  obtain v where v: "v_interest v = interest" "v_open v = opened" "safe v {#} {#} s" using assms by (auto elim: sched_okE)
  then have "v_loops v = loops_of s" unfolding safe_def wired_def by blast
  with v show ?thesis by (simp add: safe_def descs_def)
qed

definition faulty :: "'a result \<Rightarrow> bool" where
  "faulty r \<longleftrightarrow> r = Inl NullPointer \<or> r = Inl BadWeakPtr \<or> r = Inl BadFunctionCall \<or> r = Inl OutOfBounds"

lemma runs_not_faulty: "runs P r \<Longrightarrow> \<not> faulty r"
  by (auto simp: faulty_def)

end
