(* ===== verification/EchoRun.thy ===== *)
theory EchoRun
  imports Startup
begin

text \<open>
  One run of the echo server, computed from the definitions: \<^verbatim>\<open>main\<close> sets the server up, the main loop accepts a
  connection and hands it to the first I/O loop, which registers it, reads the bytes 104, 105 and answers them. The
  kernel is the one of \<open>Sim_Kernel\<close> with writes that take everything. The properties of \<open>EchoSystem\<close> are applied to this run.
\<close>

section \<open>A kernel whose writes take everything\<close>

definition sim_write_all :: "fd \<Rightarrow> byte list \<Rightarrow> sim \<Rightarrow> (int \<times> errno) \<times> sim" where
  "sim_write_all f bs k = ((int (length bs), 0), k\<lparr>sim_wire := (sim_wire k)(f := sim_wire k f @ bs),
     sim_eventfd := (sim_eventfd k)(f := sim_eventfd k f + horner_sum unat 256 bs)\<rparr>)"

definition eager_os :: "sim os" where
  "eager_os = sim_os\<lparr>sys_write := sim_write_all\<rparr>"

lemma eager_sys [simp]:
  "sys_epoll_create1 eager_os = sys_epoll_create1 sim_os" "sys_epoll_ctl eager_os = sys_epoll_ctl sim_os"
  "sys_epoll_wait eager_os = sys_epoll_wait sim_os" "sys_eventfd eager_os = sys_eventfd sim_os" "sys_read eager_os = sys_read sim_os"
  "sys_readv eager_os = sys_readv sim_os" "sys_write eager_os = sim_write_all" "sys_close eager_os = sys_close sim_os"
  "sys_shutdown_wr eager_os = sys_shutdown_wr sim_os" "sys_so_error eager_os = sys_so_error sim_os"
  "sys_setsockopt eager_os = sys_setsockopt sim_os" "sys_socket eager_os = sys_socket sim_os" "sys_bind eager_os = sys_bind sim_os"
  "sys_listen eager_os = sys_listen sim_os" "sys_accept4 eager_os = sys_accept4 sim_os"
  "sys_getsockname eager_os = sys_getsockname sim_os" "sys_time eager_os = sys_time sim_os"
  by (simp_all add: eager_os_def)

lemma eager_write_contract: "write_contract eager_os sim_wire"
  by (auto simp: write_contract_def sim_write_all_def)

lemma sim_fresh_poller: "fresh_poller sim_interest sim_opened (EpollPoller_ctor sim_os)"
  by (auto simp: fresh_poller_def EpollPoller_ctor_def Let_def sim_new_ep_def sim_new_fd_def sim_opened_def split: if_splits)

definition boot_ids :: "nat \<Rightarrow> int \<times> loop_ptr" where
  "boot_ids i = (200 + int i, 20 + i)"

lemma eager_readv: "readv_contract eager_os"
  using sim_readv_contract by (simp only: readv_contract_def eager_sys)

lemma eager_environment:
  assumes "no_connections s0"
  shows "environment_ok eager_os sim_interest sim_opened (EpollPoller_ctor sim_os) boot_ids s0"
proof -
  have "epoll_ctl_contract eager_os sim_interest" "epoll_wait_contract eager_os sim_interest"
    using sim_epoll_ctl_contract sim_epoll_wait_contract
    by (simp_all only: epoll_ctl_contract_def epoll_wait_contract_def eager_sys)
  moreover have "descriptor_contract eager_os sim_interest sim_opened"
    using sim_descriptor_contract
    by (auto simp: descriptor_contract_def quiet_calls_def sim_write_all_def sim_opened_def)
  moreover have "own_addresses boot_ids" by (simp add: own_addresses_def boot_ids_def inj_def)
  ultimately show ?thesis using assms sim_fresh_poller eager_readv eager_write_contract unfolding environment_ok_def by blast
qed

lemma eager_streams: "stream_contract eager_os sim_wire sim_recv" "full_writes eager_os"
proof -
  show "stream_contract eager_os sim_wire sim_recv"
    using sim_stream_contract eager_write_contract
    by (auto simp: stream_contract_def Let_def sim_write_all_def)
qed (simp add: full_writes_def sim_write_all_def)

lemma horner_positive: "b \<in> set bs \<Longrightarrow> b \<noteq> 0 \<Longrightarrow> 0 < horner_sum unat (256 :: nat) (bs :: byte list)"
  by (induction bs) (auto simp: unat_gt_0)

lemma eager_eventfd: "eventfd_contract eager_os sim_eventfd"
  unfolding eventfd_contract_def
  by (auto simp: sim_write_all_def sim_os_def sim_readv_def sim_ctl_def sim_wait_def sim_new_fd_def Let_def
      split: list.splits if_splits dest: horner_positive)

text \<open>Up to the first functor that is queued for another thread, the set-up does not write.\<close>

lemma eager_update: "Channel_update eager_os p s = Channel_update sim_os p s"
  by (simp add: Channel_update_def EventLoop_updateChannel_def EpollPoller_updateChannel_def EpollPoller_update_def Let_def)

lemma eager_loop_ctor: "EventLoop_ctor eager_os ndp l s = EventLoop_ctor sim_os ndp l s"
  unfolding EventLoop_ctor_def creatEventfd_def Channel_enableReading_def eager_update eager_sys ..

lemma eager_echo_ctor: "EchoServer_ctor eager_os l addr name s = EchoServer_ctor sim_os l addr name s"
  by (simp add: EchoServer_ctor_def TcpServer_ctor_def Acceptor_ctor_def createNonblocking_def Socket_setReuseAddr_def
      Socket_setReusePort_def Socket_bindAddress_def)

lemma eager_pool_start:
  fixes s :: "(sim, 'z) reactor_scheme"
  shows "EventLoopThreadPool_start eager_os ndp fresh None tp s = EventLoopThreadPool_start sim_os ndp fresh None tp s"
proof -
  have "start_thread eager_os ndp fresh None i x = start_thread sim_os ndp fresh None i x"
    for i and x :: "thread_pool \<times> (sim, 'z) reactor_scheme"
    by (cases x) (simp add: start_thread_def EventLoopThread_startLoop_def eager_loop_ctor)
  then have "start_thread eager_os ndp fresh None = (start_thread sim_os ndp fresh None ::
      nat \<Rightarrow> thread_pool \<times> (sim, 'z) reactor_scheme \<Rightarrow> _)" by (intro ext)
  then show ?thesis by (simp add: EventLoopThreadPool_start_def)
qed

section \<open>The constructors and the start of the pool\<close>

lemmas reactor_run = EpollPoller_ctor_def creatEventfd_def sim_new_fd_def sim_new_ep_def
     Channel_enableReading_def Channel_setReadCallback_def Channel_ctor_def Channel_update_def EventLoop_updateChannel_def
     EpollPoller_updateChannel_def EpollPoller_update_def sim_ctl_def kNew_def Channel_set_events_def
     upd_chan_def upd_poller_def upd_loop_def Channel_set_index_def Let_def

definition fresh_loop :: "int \<Rightarrow> fd \<Rightarrow> loop_ptr \<Rightarrow> eventloop" where
  "fresh_loop tid f l = \<lparr>el_looping = False, el_quit = False, el_threadId = tid, el_pollReturnTime = 0,
     el_poller = \<lparr>pl_epollfd = f, pl_channels = [f + 1 \<mapsto> WakeupChannel l], pl_events = replicate KIntEventListSize null_event\<rparr>,
     el_wakeupFd = f + 1, el_activeChannels = [], el_callingPendingFunctors = False, el_pendingFunctors = []\<rparr>"

definition reading_channel :: "loop_ptr \<Rightarrow> fd \<Rightarrow> event_callback \<Rightarrow> channel" where
  "reading_channel l f cb = (Channel_ctor l f)\<lparr>ch_events := kReadEvent, ch_index := kAdded, ch_readCallback := Some cb\<rparr>"

definition loop_kernel :: "loop_ptr \<Rightarrow> sim \<Rightarrow> sim" where
  "loop_kernel l k = k\<lparr>sim_next_fd := sim_next_fd k + 2,
     sim_closed := removeAll (sim_next_fd k + 1) (removeAll (sim_next_fd k) (sim_closed k)),
     sim_interest := (sim_interest k)(sim_next_fd k := [sim_next_fd k + 1 \<mapsto> \<lparr>ev_events = kReadEvent, ev_ptr = Some (WakeupChannel l)\<rparr>])\<rparr>"

lemma loop_ctor_run:
  assumes "t_loopInThisThread s (cur_tid s) = None" and "0 \<le> sim_next_fd (kern s)"
  shows "EventLoop_ctor sim_os (EpollPoller_ctor sim_os) l s = Inr (s\<lparr>kern := loop_kernel l (kern s),
    loops := (loops s)(l := fresh_loop (cur_tid s) (sim_next_fd (kern s)) l),
    chan := (chan s)(WakeupChannel l := reading_channel l (sim_next_fd (kern s) + 1) (Bind_EventLoop_handleRead l)),
    t_loopInThisThread := (t_loopInThisThread s)(cur_tid s \<mapsto> l)\<rparr>)"
  using assms by (simp add: EventLoop_ctor_def reactor_run fresh_loop_def reading_channel_def loop_kernel_def kAdded_def)

lemma start_thread_run:
  fixes s :: "(sim, 'z) reactor_scheme"
  assumes "fresh i = (tid, l)" and "t_loopInThisThread s tid = None" and "0 \<le> sim_next_fd (kern s)"
  shows "\<exists>t n. start_thread sim_os (EpollPoller_ctor sim_os) fresh None i (tp, s) =
    Inr (tp\<lparr>tp_threads := tp_threads tp @ [t], tp_loops := tp_loops tp @ [l]\<rparr>, s\<lparr>kern := loop_kernel l (kern s),
    loops := (loops s)(l := fresh_loop tid (sim_next_fd (kern s)) l),
    chan := (chan s)(WakeupChannel l := reading_channel l (sim_next_fd (kern s) + 1) (Bind_EventLoop_handleRead l)),
    t_loopInThisThread := (t_loopInThisThread s)(tid \<mapsto> l), numCreated := n\<rparr>)"
proof -
  obtain lt num where lt: "EventLoopThread_ctor (snprintf_buf (length (tp_name tp) + 32) (tp_name tp @ show_int (int i))) s =
      (lt, s\<lparr>numCreated := num\<rparr>)"
    unfolding EventLoopThread_ctor_def
    by (cases "Thread_ctor (numCreated s) (snprintf_buf (length (tp_name tp) + 32) (tp_name tp @ show_int (int i)))") simp
  with assms show ?thesis
    by (intro exI [of _ "lt\<lparr>lt_loop := Some l, lt_thread := Thread_start tid (lt_thread lt)\<rparr>"] exI [of _ num])
      (simp add: start_thread_def EventLoopThread_startLoop_def loop_ctor_run Let_def)
qed

lemma echo_ctor_run:
  fixes s :: "(sim, 'z) server_scheme"
  assumes "0 \<le> sim_next_fd (kern s)"
  shows "EchoServer_ctor sim_os 0 addr name s = Inr (s\<lparr>
      kern := (kern s)\<lparr>sim_next_fd := sim_next_fd (kern s) + 1, sim_closed := removeAll (sim_next_fd (kern s)) (sim_closed (kern s))\<rparr>,
      chan := (chan s)(AcceptChannel := (Channel_ctor 0 (sim_next_fd (kern s)))\<lparr>ch_readCallback := Some Bind_Acceptor_handleRead\<rparr>),
      sv_loop := 0, sv_ipPort := InetAddress_toIp addr @ '':'' @ show_nat (unat (InetAddress_toPort addr)), sv_name := name,
      sv_writeCompleteCallback := None, sv_threadInitCallback := None, sv_nextConnId := 1, sv_started := 0,
      sv_connections := Map.empty, the_acceptor := \<lparr>ac_loop = 0, ac_socket = sim_next_fd (kern s),
        ac_newConnectionCallback = True, ac_listening = False\<rparr>,
      sv_connectionCallback := Some 0, sv_messageCallback := Some 0,
      sv_threadPool := EventLoopThreadPool_setThreadNum 3 (EventLoopThreadPool_ctor 0 name)\<rparr>)"
  using assms
  by (simp add: EchoServer_ctor_def TcpServer_ctor_def CheckLoopNotNull_def toIpPort_eq Acceptor_ctor_def createNonblocking_def
      sim_os_def sim_new_fd_def sim_new_ep_def Let_def Socket_setReusePort_def Socket_setReuseAddr_def Socket_bindAddress_def
      Channel_setReadCallback_def upd_chan_def Acceptor_setNewConnectionCallback_def upd_acceptor_def
      TcpServer_setConnectionCallback_def TcpServer_setMessageCallback_def TcpServer_setThreadNum_def)

lemma pool_start_run:
  fixes s :: "(sim, 'z) reactor_scheme"
  assumes "t_loopInThisThread s = [100 \<mapsto> 0]" and "sim_next_fd (kern s) = 6" and "cur_tid s = 100"
  shows "\<exists>ts n. EventLoopThreadPool_start sim_os (EpollPoller_ctor sim_os) boot_ids None
      (EventLoopThreadPool_setThreadNum 3 (EventLoopThreadPool_ctor 0 name)) s = 
    Inr (\<lparr>tp_baseloop = 0, tp_next = 0, tp_numThreads = 3, tp_started = True, tp_name = name, tp_threads = ts, tp_loops = [20, 21, 22]\<rparr>,
     s\<lparr>kern := loop_kernel 22 (loop_kernel 21 (loop_kernel 20 (kern s))),
       loops := (loops s)(20 := fresh_loop 200 6 20, 21 := fresh_loop 201 8 21, 22 := fresh_loop 202 10 22),
       chan := (chan s)(WakeupChannel 20 := reading_channel 20 7 (Bind_EventLoop_handleRead 20),
         WakeupChannel 21 := reading_channel 21 9 (Bind_EventLoop_handleRead 21),
         WakeupChannel 22 := reading_channel 22 11 (Bind_EventLoop_handleRead 22)),
       t_loopInThisThread := [100 \<mapsto> 0, 200 \<mapsto> 20, 201 \<mapsto> 21, 202 \<mapsto> 22], numCreated := n\<rparr>)"
proof -
  let ?start = "start_thread sim_os (EpollPoller_ctor sim_os) boot_ids None :: nat \<Rightarrow> thread_pool \<times> (sim, 'z) reactor_scheme \<Rightarrow> _"
  let ?tp = "(EventLoopThreadPool_setThreadNum 3 (EventLoopThreadPool_ctor 0 name))\<lparr>tp_started := True\<rparr>"
  note run = start_thread_run [where fresh = boot_ids]
  obtain t1 n1 where 1: "?start 0 (?tp, s) = Inr (?tp\<lparr>tp_threads := tp_threads ?tp @ [t1], tp_loops := tp_loops ?tp @ [20]\<rparr>,
     s\<lparr>kern := loop_kernel 20 (kern s), loops := (loops s)(20 := fresh_loop 200 6 20),
       chan := (chan s)(WakeupChannel 20 := reading_channel 20 7 (Bind_EventLoop_handleRead 20)),
       t_loopInThisThread := [100 \<mapsto> 0, 200 \<mapsto> 20], numCreated := n1\<rparr>)"  (is "_ = Inr (?tp1, ?s1)")
    using run [of 0 200 20 s ?tp] assms by (auto simp: boot_ids_def)
  obtain t2 n2 where 2: "?start (Suc 0) (?tp1, ?s1) = Inr (?tp1\<lparr>tp_threads := tp_threads ?tp1 @ [t2], tp_loops := tp_loops ?tp1 @ [21]\<rparr>,
     ?s1\<lparr>kern := loop_kernel 21 (kern ?s1), loops := (loops ?s1)(21 := fresh_loop 201 8 21),
       chan := (chan ?s1)(WakeupChannel 21 := reading_channel 21 9 (Bind_EventLoop_handleRead 21)),
       t_loopInThisThread := [100 \<mapsto> 0, 200 \<mapsto> 20, 201 \<mapsto> 21], numCreated := n2\<rparr>)"  (is "_ = Inr (?tp2, ?s2)")
    using run [of 1 201 21 ?s1 ?tp1] assms by (auto simp: boot_ids_def loop_kernel_def)
  obtain t3 n3 where 3: "?start 2 (?tp2, ?s2) = Inr (?tp2\<lparr>tp_threads := tp_threads ?tp2 @ [t3], tp_loops := tp_loops ?tp2 @ [22]\<rparr>,
     ?s2\<lparr>kern := loop_kernel 22 (kern ?s2), loops := (loops ?s2)(22 := fresh_loop 202 10 22),
       chan := (chan ?s2)(WakeupChannel 22 := reading_channel 22 11 (Bind_EventLoop_handleRead 22)),
       t_loopInThisThread := [100 \<mapsto> 0, 200 \<mapsto> 20, 201 \<mapsto> 21, 202 \<mapsto> 22], numCreated := n3\<rparr>)"
    using run [of 2 202 22 ?s2 ?tp2] assms by (auto simp: boot_ids_def loop_kernel_def)
  have "[0..<3] = [0, Suc 0, 2]" by (simp add: upt_rec)
  with 1 2 3 show ?thesis
    by (intro exI [of _ "[t1, t2, t3]"] exI [of _ n3])
      (simp add: EventLoopThreadPool_start_def EventLoopThreadPool_setThreadNum_def EventLoopThreadPool_ctor_def)
qed

lemma listen_run:
  fixes s :: "(sim, 'z) server_scheme"
  assumes "el_threadId (loops s l) = cur_tid s" and "chan s AcceptChannel = (Channel_ctor l f)\<lparr>ch_readCallback := Some Bind_Acceptor_handleRead\<rparr>"
    and "sim_interest (kern s) (pl_epollfd (el_poller (loops s l))) f = None"
  shows "EventLoop_runInLoop eager_os l Bind_listen (Acceptor_listen eager_os) s = Inr (s\<lparr>
      the_acceptor := (the_acceptor s)\<lparr>ac_listening := True\<rparr>,
      loops := (loops s)(l := (loops s l)\<lparr>el_poller := (el_poller (loops s l))\<lparr>pl_channels :=
        (pl_channels (el_poller (loops s l)))(f \<mapsto> AcceptChannel)\<rparr>\<rparr>),
      chan := (chan s)(AcceptChannel := reading_channel l f Bind_Acceptor_handleRead),
      kern := (kern s)\<lparr>sim_interest := (sim_interest (kern s))(pl_epollfd (el_poller (loops s l)) :=
        (sim_interest (kern s) (pl_epollfd (el_poller (loops s l))))(f \<mapsto> \<lparr>ev_events = kReadEvent, ev_ptr = Some AcceptChannel\<rparr>))\<rparr>\<rparr>)"
  using assms by (simp add: EventLoop_runInLoop_def EventLoop_isInLoopThread_def Acceptor_listen_def Socket_listen_def reactor_run sim_os_def
     upd_acceptor_def reading_channel_def)

section \<open>The set-up\<close>

text \<open>One client waits to connect, and every descriptor has two bytes to read.\<close>

definition hello_kernel :: sim where
  "hello_kernel = sim_init\<lparr>sim_peers := [\<lparr>sin_family = 2, sin_port = 5, sin_addr = 7\<rparr>], sim_inbox := (\<lambda>_. [104, 105]),
     sim_ready := [\<lparr>ev_events = EPOLLIN, ev_ptr = Some AcceptChannel\<rparr>, \<lparr>ev_events = EPOLLIN, ev_ptr = Some (ConnChannel 0)\<rparr>]\<rparr>"

definition hello_state :: "sim server" where
  "hello_state = sim_server\<lparr>kern := hello_kernel, refs := (\<lambda>_. 0), next_conn := 0, chan := (\<lambda>_. Channel_ctor 0 0),
     t_loopInThisThread := Map.empty\<rparr>"

lemma hello_sel: "kern hello_state = hello_kernel" "cur_tid hello_state = 100" "t_loopInThisThread hello_state = Map.empty"
  "sim_clock hello_kernel = 0" "sim_next_fd hello_kernel = 3" "sim_interest hello_kernel = (\<lambda>_. Map.empty)" "sim_closed hello_kernel = []" "sim_inbox hello_kernel = (\<lambda>_. [104, 105])"
  "refs hello_state = (\<lambda>_. 0)" "next_conn hello_state = 0" "chan hello_state = (\<lambda>_. Channel_ctor 0 0)"
  by (simp_all add: hello_state_def hello_kernel_def sim_init_def)

text \<open>The state after \<^verbatim>\<open>main\<close> has set the server up.\<close>

definition hello_up :: "sim server \<Rightarrow> bool" where
  "hello_up s \<longleftrightarrow> cur_tid s = 100 \<and> loops s 0 = (fresh_loop 100 3 0)\<lparr>el_poller := (el_poller (fresh_loop 100 3 0))\<lparr>pl_channels :=
       [4 \<mapsto> WakeupChannel 0, 5 \<mapsto> AcceptChannel]\<rparr>\<rparr> \<and> loops s 20 = fresh_loop 200 6 20 \<and>
     chan s AcceptChannel = reading_channel 0 5 Bind_Acceptor_handleRead \<and>
     the_acceptor s = \<lparr>ac_loop = 0, ac_socket = 5, ac_newConnectionCallback = True, ac_listening = True\<rparr> \<and>
     refs s = (\<lambda>_. 0) \<and> next_conn s = 0 \<and> sv_connectionCallback s = Some 0 \<and> sv_messageCallback s = Some 0 \<and>
     sv_writeCompleteCallback s = None \<and> sv_nextConnId s = 1 \<and> length (sv_ipPort s) \<le> 21 \<and> sv_connections s = Map.empty \<and> sv_loop s = 0 \<and>
     (\<exists>ts. sv_threadPool s = \<lparr>tp_baseloop = 0, tp_next = 0, tp_numThreads = 3, tp_started = True, tp_name = ''EchoServer'',
       tp_threads = ts, tp_loops = [20, 21, 22]\<rparr>) \<and>
     sim_clock (kern s) = 0 \<and> sim_next_fd (kern s) = 12 \<and> sim_closed (kern s) = [] \<and> sim_peers (kern s) = sim_peers hello_kernel \<and>
     sim_inbox (kern s) = (\<lambda>_. [104, 105]) \<and> sim_ready (kern s) = sim_ready hello_kernel \<and>
     sim_interest (kern s) 3 = [4 \<mapsto> \<lparr>ev_events = kReadEvent, ev_ptr = Some (WakeupChannel 0)\<rparr>,
       5 \<mapsto> \<lparr>ev_events = kReadEvent, ev_ptr = Some AcceptChannel\<rparr>] \<and>
     sim_interest (kern s) 6 = [7 \<mapsto> \<lparr>ev_events = kReadEvent, ev_ptr = Some (WakeupChannel 20)\<rparr>]"

lemma hello_setup:
  obtains s1 where "echo_setup eager_os dotted_inet_addr (EpollPoller_ctor sim_os) boot_ids hello_state = Inr s1" "hello_up s1"
proof -
  let ?sa = "hello_state\<lparr>kern := loop_kernel 0 hello_kernel, loops := (loops hello_state)(0 := fresh_loop 100 3 0),
    chan := (chan hello_state)(WakeupChannel 0 := reading_channel 0 4 (Bind_EventLoop_handleRead 0)), t_loopInThisThread := [100 \<mapsto> 0]\<rparr>"
  have a: "EventLoop_ctor sim_os (EpollPoller_ctor sim_os) 0 hello_state = Inr ?sa"
    using loop_ctor_run [of hello_state 0] by (simp add: hello_sel)
  let ?addr = "InetAddress_ctor dotted_inet_addr 8002 ''127.0.0.1''"
  have k: "sim_next_fd (loop_kernel 0 hello_kernel) = 5" by (simp add: loop_kernel_def hello_sel)
  obtain sb where b: "EchoServer_ctor sim_os 0 ?addr ''EchoServer'' ?sa = Inr sb" 
     "sb = ?sa\<lparr>
      kern := (kern ?sa)\<lparr>sim_next_fd := 6, sim_closed := removeAll 5 (sim_closed (kern ?sa))\<rparr>,
      chan := (chan ?sa)(AcceptChannel := (Channel_ctor 0 5)\<lparr>ch_readCallback := Some Bind_Acceptor_handleRead\<rparr>),
      sv_loop := 0, sv_ipPort := InetAddress_toIp ?addr @ '':'' @ show_nat (unat (InetAddress_toPort ?addr)), sv_name := ''EchoServer'',
      sv_writeCompleteCallback := None, sv_threadInitCallback := None, sv_nextConnId := 1, sv_started := 0,
      sv_connections := Map.empty, the_acceptor := \<lparr>ac_loop = 0, ac_socket = 5, ac_newConnectionCallback = True, ac_listening = False\<rparr>,
      sv_connectionCallback := Some 0, sv_messageCallback := Some 0,
      sv_threadPool := EventLoopThreadPool_setThreadNum 3 (EventLoopThreadPool_ctor 0 ''EchoServer'')\<rparr>"
    using echo_ctor_run [of ?sa ?addr "''EchoServer''"] k by simp
  obtain ts n where c: "EventLoopThreadPool_start sim_os (EpollPoller_ctor sim_os) boot_ids None (sv_threadPool sb) (sb\<lparr>sv_started := 1\<rparr>) =
    Inr (\<lparr>tp_baseloop = 0, tp_next = 0, tp_numThreads = 3, tp_started = True, tp_name = ''EchoServer'', tp_threads = ts, tp_loops = [20, 21, 22]\<rparr>,
     sb\<lparr>sv_started := 1, kern := loop_kernel 22 (loop_kernel 21 (loop_kernel 20 (kern sb))),
       loops := (loops sb)(20 := fresh_loop 200 6 20, 21 := fresh_loop 201 8 21, 22 := fresh_loop 202 10 22),
       chan := (chan sb)(WakeupChannel 20 := reading_channel 20 7 (Bind_EventLoop_handleRead 20),
         WakeupChannel 21 := reading_channel 21 9 (Bind_EventLoop_handleRead 21),
         WakeupChannel 22 := reading_channel 22 11 (Bind_EventLoop_handleRead 22)),
       t_loopInThisThread := [100 \<mapsto> 0, 200 \<mapsto> 20, 201 \<mapsto> 21, 202 \<mapsto> 22], numCreated := n\<rparr>)"
    using pool_start_run [of "sb\<lparr>sv_started := 1\<rparr>" "''EchoServer''"] b(2) by (auto simp: hello_sel)
  let ?tp = "\<lparr>tp_baseloop = 0, tp_next = 0, tp_numThreads = 3, tp_started = True, tp_name = ''EchoServer'', tp_threads = ts, tp_loops = [20, 21, 22]\<rparr>"
  let ?sc = "sb\<lparr>sv_started := 1, kern := loop_kernel 22 (loop_kernel 21 (loop_kernel 20 (kern sb))),
       loops := (loops sb)(20 := fresh_loop 200 6 20, 21 := fresh_loop 201 8 21, 22 := fresh_loop 202 10 22),
       chan := (chan sb)(WakeupChannel 20 := reading_channel 20 7 (Bind_EventLoop_handleRead 20),
         WakeupChannel 21 := reading_channel 21 9 (Bind_EventLoop_handleRead 21),
         WakeupChannel 22 := reading_channel 22 11 (Bind_EventLoop_handleRead 22)),
       t_loopInThisThread := [100 \<mapsto> 0, 200 \<mapsto> 20, 201 \<mapsto> 21, 202 \<mapsto> 22], numCreated := n, sv_threadPool := ?tp\<rparr>"
  have el: "el_threadId (loops ?sc 0) = cur_tid ?sc" "chan ?sc AcceptChannel = (Channel_ctor 0 5)\<lparr>ch_readCallback := Some Bind_Acceptor_handleRead\<rparr>"
    "sim_interest (kern ?sc) (pl_epollfd (el_poller (loops ?sc 0))) 5 = None"
    by (simp_all add: b(2) fresh_loop_def hello_sel loop_kernel_def)
  from listen_run [of ?sc 0, OF el] obtain s1 where d: "EventLoop_runInLoop eager_os 0 Bind_listen (Acceptor_listen eager_os) ?sc = Inr s1" "hello_up s1"
    using length_toIpPort [OF toIpPort_eq [of ?addr]]
    by (simp add: hello_up_def) (simp add: b(2) fresh_loop_def hello_sel loop_kernel_def)
  show ?thesis
  proof (rule that [OF _ d(2)])
    show "echo_setup eager_os dotted_inet_addr (EpollPoller_ctor sim_os) boot_ids hello_state = Inr s1"
      using a b(1) c d(1) by (simp add: echo_setup_def EchoServer_start_def TcpServer_start_def Let_def eager_loop_ctor eager_echo_ctor eager_pool_start b(2))
  qed
qed

section \<open>Accepting, connecting, echoing\<close>

abbreviation hello_app :: "(sim, 'z) server_scheme app" where
  "hello_app \<equiv> server_app eager_os (echo_app eager_os)"

abbreviation hello_call :: "event_callback \<Rightarrow> int \<Rightarrow> (sim, 'z) server_scheme \<Rightarrow> (sim, 'z) server_scheme result" where
  "hello_call \<equiv> run_callback eager_os dotted_inet_addr hello_app"

abbreviation hello_step :: "(sim, 'z) server_scheme \<times> work \<Rightarrow> (sim, 'z) server_scheme \<times> work \<Rightarrow> bool" where
  "hello_step \<equiv> server_step eager_os dotted_inet_addr (echo_app eager_os)"

text \<open>What is ready for an epoll descriptor.\<close>

definition ready_for_ep :: "fd \<Rightarrow> sim \<Rightarrow> epoll_event list" where
  "ready_for_ep ep k = filter (\<lambda>ev. ev_ptr ev \<noteq> None \<and>
     (\<exists>f \<in> {0..<sim_next_fd k}. map_option ev_ptr (sim_interest k ep f) = Some (ev_ptr ev))) (sim_ready k)"

lemma poll_run:
  fixes s :: "(sim, 'z) reactor_scheme"
  assumes len: "length (pl_events (el_poller (loops s l))) = 16"
  shows "ready_for_ep (pl_epollfd (el_poller (loops s l))) (kern s) = [] \<Longrightarrow>
      EpollPoller_poll eager_os l t [] s = Inr (sim_clock (kern s), [], s)"
    and "ready_for_ep (pl_epollfd (el_poller (loops s l))) (kern s) = [\<lparr>ev_events = e, ev_ptr = Some p\<rparr>] \<Longrightarrow>
      EpollPoller_poll eager_os l t [] s = Inr (sim_clock (kern s), [p], Channel_set_revents p e
        (upd_poller l (\<lambda>q. q\<lparr>pl_events := blit 0 [\<lparr>ev_events = e, ev_ptr = Some p\<rparr>] (pl_events q)\<rparr>) s))"
proof -
  let ?ep = "pl_epollfd (el_poller (loops s l))"
  have w: "sim_wait ?ep 16 t (kern s) = ((int (length (take 16 (ready_for_ep ?ep (kern s)))), 0, take 16 (ready_for_ep ?ep (kern s))), kern s)"
    unfolding sim_wait_def Let_def ready_for_ep_def by simp
  have sz: "size_as_int 16 = 16" using size_as_int_small [of 16] by simp
  show "ready_for_ep ?ep (kern s) = [] \<Longrightarrow> EpollPoller_poll eager_os l t [] s = Inr (sim_clock (kern s), [], s)"
    using w by (simp add: EpollPoller_poll_def Let_def len sz)
  assume r: "ready_for_ep ?ep (kern s) = [\<lparr>ev_events = e, ev_ptr = Some p\<rparr>]"
  obtain x xs where ev: "pl_events (el_poller (loops s l)) = x # xs" "length xs = 15"
    using len by (cases "pl_events (el_poller (loops s l))") auto
  show "EpollPoller_poll eager_os l t [] s = Inr (sim_clock (kern s), [p], Channel_set_revents p e
        (upd_poller l (\<lambda>q. q\<lparr>pl_events := blit 0 [\<lparr>ev_events = e, ev_ptr = Some p\<rparr>] (pl_events q)\<rparr>) s))"
    using w r by (simp add: EpollPoller_poll_def Let_def len sz EpollPoller_fillActiveChannels_def ev blit_def Channel_set_revents_def)
qed

lemma as_thread_same: "el_threadId (loops s l) = cur_tid s \<Longrightarrow> as_thread l s = s"
  by (simp add: as_thread_def)

lemma ready_for_epI:
  assumes "sim_interest k ep f = Some \<lparr>ev_events = m, ev_ptr = Some p\<rparr>" and "f \<in> {0..<sim_next_fd k}"
  shows "\<exists>f \<in> {0..<sim_next_fd k}. map_option ev_ptr (sim_interest k ep f) = Some (Some p)"
  using assms by (intro bexI [of _ f]) simp_all

lemma hello_poll_main:
  assumes "hello_up s"
  shows "ready_for_ep 3 (kern s) = [\<lparr>ev_events = EPOLLIN, ev_ptr = Some AcceptChannel\<rparr>]"
proof -
  have k: "sim_interest (kern s) 3 = [4 \<mapsto> \<lparr>ev_events = kReadEvent, ev_ptr = Some (WakeupChannel 0)\<rparr>,
       5 \<mapsto> \<lparr>ev_events = kReadEvent, ev_ptr = Some AcceptChannel\<rparr>]" "sim_next_fd (kern s) = 12"
      "sim_ready (kern s) = [\<lparr>ev_events = EPOLLIN, ev_ptr = Some AcceptChannel\<rparr>, \<lparr>ev_events = EPOLLIN, ev_ptr = Some (ConnChannel 0)\<rparr>]"
    using assms by (simp_all add: hello_up_def hello_kernel_def)
  have "\<exists>f \<in> {0..<sim_next_fd (kern s)}. map_option ev_ptr (sim_interest (kern s) 3 f) = Some (Some AcceptChannel)"
    by (rule ready_for_epI [where f = 5]) (simp_all add: k)
  moreover have "\<not> (\<exists>f \<in> {0..<sim_next_fd (kern s)}. map_option ev_ptr (sim_interest (kern s) 3 f) = Some (Some (ConnChannel 0)))"
    by (simp add: k)
  ultimately show ?thesis by (simp only: ready_for_ep_def k(3) filter.simps epoll_event.simps) simp
qed

lemma polled_one:
  fixes s :: "(sim, 'z) server_scheme"
  assumes tid: "el_threadId (loops s l) = cur_tid s" and l: "l \<in> loops_of s" and w: "w l = None" and z: "sim_clock (kern s) = 0"
    and len: "length (pl_events (el_poller (loops s l))) = 16"
    and r: "ready_for_ep (pl_epollfd (el_poller (loops s l))) (kern s) = [\<lparr>ev_events = e, ev_ptr = Some p\<rparr>]"
  shows "\<exists>s2. hello_step (s, w) (s2, w(l \<mapsto> (0, [p]))) \<and> as_thread l s2 = s2 \<and> kern s2 = kern s \<and>
    chan s2 = (chan s)(p := (chan s p)\<lparr>ch_revents := e\<rparr>) \<and> refs s2 = refs s \<and> cur_tid s2 = cur_tid s \<and>
    reactor.more s2 = reactor.more s \<and> (\<forall>x. x \<noteq> l \<longrightarrow> loops s2 x = loops s x) \<and> el_threadId (loops s2 l) = cur_tid s"
proof -
  let ?s1 = "Channel_set_revents p e (upd_poller l (\<lambda>q. q\<lparr>pl_events :=
      blit 0 [\<lparr>ev_events = e, ev_ptr = Some p\<rparr>] (pl_events q)\<rparr>) s)"
  let ?s2 = "upd_loop l (\<lambda>x. x\<lparr>el_pollReturnTime := 0, el_activeChannels := [p]\<rparr>) ?s1"
  have "EpollPoller_poll eager_os l kPollTimeMs [] (as_thread l s) = Inr (0, [p], ?s1)"
    unfolding as_thread_same [OF tid] using poll_run(2) [OF len r] z by simp
  with l w have "hello_step (s, w) (?s2, w(l \<mapsto> (0, [p])))" by (rule server_step.poll)
  then show ?thesis
    using tid by (intro exI [of _ ?s2]) (simp add: Channel_set_revents_def as_thread_same)
qed

definition hello_accepted :: "sim server \<Rightarrow> bool" where
  "hello_accepted s \<longleftrightarrow> loops s 20 = (fresh_loop 200 6 20)\<lparr>el_pendingFunctors := [Bind_connectEstablished 0]\<rparr> \<and> 20 \<in> loops_of s \<and>
     chan s (ConnChannel 0) = server_channel 20 12 0 \<and>
     tc_loop (conns s 0) = 20 \<and> tc_inputBuffer (conns s 0) = fresh_buffer \<and> tc_outputBuffer (conns s 0) = fresh_buffer \<and>
     tc_connectionCallback (conns s 0) = Some 0 \<and> tc_messageCallback (conns s 0) = Some 0 \<and> tc_writeCompleteCallback (conns s 0) = None \<and>
     refs s 0 = 2 \<and> next_conn s = 1 \<and> sim_clock (kern s) = 0 \<and>
     sim_next_fd (kern s) = 13 \<and> sim_inbox (kern s) = (\<lambda>_. [104, 105]) \<and> sim_ready (kern s) = sim_ready hello_kernel \<and>
     sim_wire (kern s) 12 = [] \<and> sim_recv (kern s) 12 = [] \<and>
     sim_interest (kern s) 6 = [7 \<mapsto> \<lparr>ev_events = kReadEvent, ev_ptr = Some (WakeupChannel 20)\<rparr>]"

text \<open>\<^verbatim>\<open>newConnection\<close> in the main loop, after \<^verbatim>\<open>accept4\<close> has returned descriptor 12.\<close>

lemma hello_handoff:
  assumes up: "hello_up s" and m: "reactor.more s3 = reactor.more s" and tid: "cur_tid s3 = 100" and refs: "refs s3 = (\<lambda>_. 0)"
    and l: "loops s3 20 = fresh_loop 200 6 20" and clock: "sim_clock (kern s3) = 0"
    and k: "sim_next_fd (kern s3) = 13" "sim_inbox (kern s3) = (\<lambda>_. [104, 105])" "sim_ready (kern s3) = sim_ready hello_kernel"
      "sim_wire (kern s3) 12 = []" "sim_recv (kern s3) 12 = []"
      "sim_interest (kern s3) 6 = [7 \<mapsto> \<lparr>ev_events = kReadEvent, ev_ptr = Some (WakeupChannel 20)\<rparr>]"
  shows "\<exists>s'. TcpServer_newConnection eager_os hello_app 12 peer s3 = Inr s' \<and> hello_accepted s' \<and>
    chan s' AcceptChannel = chan s3 AcceptChannel"
proof -
  note sv = server_more [OF m]
  obtain ts where tp: "sv_threadPool s = \<lparr>tp_baseloop = 0, tp_next = 0, tp_numThreads = 3, tp_started = True, tp_name = ''EchoServer'',
       tp_threads = ts, tp_loops = [20, 21, 22]\<rparr>" using up by (auto simp: hello_up_def)
  have names: "names_ok s3" "sv_nextConnId s3 < 2147483647" using up by (simp_all add: names_ok_def sv hello_up_def)
  have nl: "EventLoopThreadPool_getNextLoop (sv_threadPool s3) = Inr (20, (sv_threadPool s)\<lparr>tp_next := 1\<rparr>)"
    by (simp add: sv tp EventLoopThreadPool_getNextLoop_def)
  from newConnection_run [OF names nl, of eager_os hello_app 12 peer]
  obtain s9 loc where run: "TcpServer_newConnection eager_os hello_app 12 peer s3 =
      and_then (EventLoop_runInLoop eager_os 20 (Bind_connectEstablished 0)
         (TcpConnection_connectEstablished eager_os hello_app 0) s9) (\<lambda>s10. Inr (release eager_os 0 s10))"
    and new: "created s3 20 ((sv_threadPool s)\<lparr>tp_next := 1\<rparr>) 12 loc peer s9" and k9: "kern s9 = kern s3"
    using sv(10) up by (auto simp: hello_up_def sim_os_def)
  have s9: "conns s9 0 = server_conn s3 20 (connName (sv_name s3) (sv_ipPort s3) (sv_nextConnId s3)) 12 loc peer"
      "chan s9 (ConnChannel 0) = server_channel 20 12 0" "loops s9 = loops s3" "refs s9 = (\<lambda>_. 0)(0 := 2)"
      "chan s9 AcceptChannel = chan s3 AcceptChannel" "cur_tid s9 = 100" "next_conn s9 = 1" "sv_threadPool s9 = (sv_threadPool s)\<lparr>tp_next := 1\<rparr>"
      "kern s9 = kern s3"
    using createdD [OF new] k9 tid refs sv(10) up by (simp_all add: hello_up_def)
  let ?q = "EventLoop_queueInLoop eager_os 20 (Bind_connectEstablished 0) s9"
  have w: "el_wakeupFd (fresh_loop 200 6 20) = 7" "el_pendingFunctors (fresh_loop 200 6 20) = []" "el_threadId (fresh_loop 200 6 20) = 200"
    by (simp_all add: fresh_loop_def)
  have q: "loops ?q 20 = (fresh_loop 200 6 20)\<lparr>el_pendingFunctors := [Bind_connectEstablished 0]\<rparr>" "chan ?q = chan s9" "refs ?q = (\<lambda>_. 0)(0 := 3)"
      "reactor.more ?q = reactor.more s9" "kern ?q = (kern s9)\<lparr>sim_wire := (sim_wire (kern s9))(7 := sim_wire (kern s9) 7 @ one_bytes),
        sim_eventfd := (sim_eventfd (kern s9))(7 := sim_eventfd (kern s9) 7 + 1)\<rparr>"
    using l s9(3,4,6) w
    by (simp_all add: EventLoop_queueInLoop_def EventLoop_isInLoopThread_def EventLoop_wakeup_def retain_task_def sim_write_all_def one_bytes_def)
  let ?s10 = "release eager_os 0 ?q"
  have rel: "kern ?s10 = kern ?q" "refs ?s10 0 = 2" "reactor.more ?s10 = reactor.more s9" using q(3,4) by (simp_all add: release_def)
  note sv10 = server_more [OF rel(3)] conns_more [OF rel(3)]
  have "TcpServer_newConnection eager_os hello_app 12 peer s3 = Inr ?s10"
    using run l s9(3,6) w(3) by (simp add: EventLoop_runInLoop_def EventLoop_isInLoopThread_def)
  moreover have "hello_accepted ?s10"
    using up s9 q rel(2) clock k
    by (simp add: hello_accepted_def rel(1) sv10 loops_of_def server_conn_def new_conn_def sv hello_up_def tp)
  ultimately show ?thesis using q(2) s9(5) by (intro exI [of _ ?s10]) simp
qed

lemma hello_accept_steps:
  assumes up: "hello_up s"
  shows "\<exists>s2 s'. hello_step (s, Map.empty) (s2, [0 \<mapsto> (0, [AcceptChannel])]) \<and>
    hello_step (s2, [0 \<mapsto> (0, [AcceptChannel])]) (s', [0 \<mapsto> (0, [])]) \<and> 20 \<in> loops_of s2 \<and> hello_accepted s'"
proof -
  have "el_threadId (loops s 0) = cur_tid s" "0 \<in> loops_of s" "sim_clock (kern s) = 0" "length (pl_events (el_poller (loops s 0))) = 16"
    and ep: "pl_epollfd (el_poller (loops s 0)) = 3"
    using up by (simp_all add: hello_up_def fresh_loop_def KIntEventListSize_def loops_of_def)
  from polled_one [where w = Map.empty, OF this(1,2) _ this(3,4)] hello_poll_main [OF up]
  obtain s2 where 1: "hello_step (s, Map.empty) (s2, [0 \<mapsto> (0, [AcceptChannel])])" and l2: "as_thread 0 s2 = s2"
    and s2: "kern s2 = kern s" "chan s2 AcceptChannel = (chan s AcceptChannel)\<lparr>ch_revents := EPOLLIN\<rparr>" "refs s2 = refs s" "cur_tid s2 = cur_tid s"
      "reactor.more s2 = reactor.more s" "loops s2 20 = loops s 20"
    unfolding ep by force
  let ?peer = "\<lparr>sin_family = 2, sin_port = 5, sin_addr = 7\<rparr>"
  obtain k1 where acc: "sys_accept4 sim_os 5 (kern s) = ((12, 0, ?peer), k1)"
    and k1: "sim_clock k1 = 0" "sim_next_fd k1 = 13" "sim_inbox k1 = (\<lambda>_. [104, 105])" "sim_ready k1 = sim_ready hello_kernel" "sim_wire k1 12 = []"
      "sim_recv k1 12 = []" "sim_interest k1 6 = [7 \<mapsto> \<lparr>ev_events = kReadEvent, ev_ptr = Some (WakeupChannel 20)\<rparr>]"
    using up by (simp add: hello_up_def hello_kernel_def sim_os_def sim_new_fd_def)
  have m: "reactor.more (s2\<lparr>kern := k1\<rparr>) = reactor.more s" using s2(5) by simp
  from hello_handoff [OF up m, of ?peer] k1 s2 up obtain s3
    where nc: "TcpServer_newConnection eager_os hello_app 12 ?peer (s2\<lparr>kern := k1\<rparr>) = Inr s3"
      and s3: "hello_accepted s3" "chan s3 AcceptChannel = chan s2 AcceptChannel"
    by (auto simp: hello_up_def)
  have h: "Channel_handleEvent eager_os hello_call 0 AcceptChannel (as_thread 0 s2) = Inr s3"
    using up s2(1,2) acc server_more(11) [OF s2(5)] nc s3(2)
    by (simp add: l2 Channel_handleEvent_def Channel_handleEventWithGuard_def reading_channel_def Channel_ctor_def call_if_set_def
      Acceptor_handleRead_def Socket_accept_def hello_up_def)
  have "hello_step (s2, [0 \<mapsto> (0, [AcceptChannel])]) (s3, [0 \<mapsto> (0, [])])"
    using server_step.handle [OF _ h, of "[0 \<mapsto> (0, [AcceptChannel])]" "[]"] by simp
  moreover have "20 \<in> loops_of s2" using up server_more [OF s2(5)] by (auto simp: loops_of_def hello_up_def)
  ultimately show ?thesis using 1 s3(1) by blast
qed

lemma hello_accept:
  assumes up: "hello_up s"
  shows "\<exists>s'. hello_step\<^sup>*\<^sup>* (s, Map.empty) (s', [0 \<mapsto> (0, [])]) \<and> hello_accepted s'"
  using hello_accept_steps [OF up] by (meson converse_rtranclp_into_rtranclp r_into_rtranclp)

definition hello_open :: "sim server \<Rightarrow> bool" where
  "hello_open s \<longleftrightarrow> el_poller (loops s 20) = (el_poller (fresh_loop 200 6 20))\<lparr>pl_channels := [7 \<mapsto> WakeupChannel 20, 12 \<mapsto> ConnChannel 0]\<rparr> \<and>
     el_threadId (loops s 20) = 200 \<and> el_wakeupFd (loops s 20) = 7 \<and> cur_tid s = 200 \<and> 20 \<in> loops_of s \<and>
     chan s (ConnChannel 0) = (server_channel 20 12 0)\<lparr>ch_events := kReadEvent, ch_index := kAdded, ch_tie := Some 0, ch_tied := True\<rparr> \<and>
     tc_state (conns s 0) = kConnected \<and>
     tc_loop (conns s 0) = 20 \<and> tc_inputBuffer (conns s 0) = fresh_buffer \<and> tc_outputBuffer (conns s 0) = fresh_buffer \<and>
     tc_messageCallback (conns s 0) = Some 0 \<and> tc_writeCompleteCallback (conns s 0) = None \<and>
     refs s 0 = 1 \<and> next_conn s = 1 \<and> sim_clock (kern s) = 0 \<and>
     sim_next_fd (kern s) = 13 \<and> sim_inbox (kern s) = (\<lambda>_. [104, 105]) \<and> sim_ready (kern s) = sim_ready hello_kernel \<and>
     sim_wire (kern s) 12 = [] \<and> sim_recv (kern s) 12 = [] \<and>
     sim_interest (kern s) 6 = [7 \<mapsto> \<lparr>ev_events = kReadEvent, ev_ptr = Some (WakeupChannel 20)\<rparr>,
       12 \<mapsto> \<lparr>ev_events = kReadEvent, ev_ptr = Some (ConnChannel 0)\<rparr>]"

text \<open>\<^verbatim>\<open>connectEstablished\<close> in the I/O loop.\<close>

lemma hello_established:
  assumes refs: "refs s 0 = 2" and ch: "chan s (ConnChannel 0) = server_channel 20 12 0" and l: "el_poller (loops s 20) = el_poller (fresh_loop 200 6 20)"
    and cb: "tc_connectionCallback (conns s 0) = Some 0"
    and i: "sim_interest (kern s) 6 = [7 \<mapsto> \<lparr>ev_events = kReadEvent, ev_ptr = Some (WakeupChannel 20)\<rparr>]"
  obtains s' where "TcpConnection_connectEstablished eager_os hello_app 0 s = Inr s'" "refs s' 0 = 2" "cur_tid s' = cur_tid s"
    "chan s' (ConnChannel 0) = (server_channel 20 12 0)\<lparr>ch_events := kReadEvent, ch_index := kAdded, ch_tie := Some 0, ch_tied := True\<rparr>"
    "el_poller (loops s' 20) = (el_poller (fresh_loop 200 6 20))\<lparr>pl_channels := [7 \<mapsto> WakeupChannel 20, 12 \<mapsto> ConnChannel 0]\<rparr>"
    "el_threadId (loops s' 20) = el_threadId (loops s 20)" "el_wakeupFd (loops s' 20) = el_wakeupFd (loops s 20)"
    "reactor.more s' = reactor.more (TcpConnection_setState 0 kConnected s)"
    "kern s' = (kern s)\<lparr>sim_interest := (sim_interest (kern s))(6 := [7 \<mapsto> \<lparr>ev_events = kReadEvent, ev_ptr = Some (WakeupChannel 20)\<rparr>,
       12 \<mapsto> \<lparr>ev_events = kReadEvent, ev_ptr = Some (ConnChannel 0)\<rparr>])\<rparr>"
proof -
  define u where "u = TcpConnection_setState 0 kConnected s"
  define a where "a = release eager_os 0 (Channel_tie (ConnChannel 0) 0 (retain 0 u))"
  define b where "b = Channel_enableReading eager_os (ConnChannel 0) a"
  have u: "refs u 0 = 2" "kern u = kern s" "cur_tid u = cur_tid s" "chan u = chan s" "loops u = loops s"
      "tc_connectionCallback (conns u 0) = Some 0"
    using refs cb by (simp_all add: u_def TcpConnection_setState_def)
  have a: "refs a 0 = 2" "kern a = kern s" "cur_tid a = cur_tid s" "chan a (ConnChannel 0) = (server_channel 20 12 0)\<lparr>ch_tie := Some 0, ch_tied := True\<rparr>"
      "loops a = loops s" "reactor.more a = reactor.more u"
    using u ch by (simp_all add: a_def Channel_tie_def) (simp add: release_def Let_def)
  have b: "refs b 0 = 2" "cur_tid b = cur_tid s" "reactor.more b = reactor.more u"
     "chan b (ConnChannel 0) = (server_channel 20 12 0)\<lparr>ch_events := kReadEvent, ch_index := kAdded, ch_tie := Some 0, ch_tied := True\<rparr>"
     "el_poller (loops b 20) = (el_poller (fresh_loop 200 6 20))\<lparr>pl_channels := [7 \<mapsto> WakeupChannel 20, 12 \<mapsto> ConnChannel 0]\<rparr>"
     "el_threadId (loops b 20) = el_threadId (loops s 20)" "el_wakeupFd (loops b 20) = el_wakeupFd (loops s 20)"
     "kern b = (kern s)\<lparr>sim_interest := (sim_interest (kern s))(6 := [7 \<mapsto> \<lparr>ev_events = kReadEvent, ev_ptr = Some (WakeupChannel 20)\<rparr>,
       12 \<mapsto> \<lparr>ev_events = kReadEvent, ev_ptr = Some (ConnChannel 0)\<rparr>])\<rparr>"
    using a l i by (simp_all add: b_def reactor_run server_channel_def Channel_ctor_def fresh_loop_def)
  let ?s' = "release eager_os 0 (retain 0 b)"
  show ?thesis
  proof (rule that)
    show "TcpConnection_connectEstablished eager_os hello_app 0 s = Inr ?s'"
      unfolding TcpConnection_connectEstablished_def u_def [symmetric]
      using u(1,6) b(1,3) by (simp add: with_shared_def a_def [symmetric] b_def [symmetric] call_fn_def server_app_def echo_app_def
        conns_more [OF b(3)] EchoServer_onConnection_def toIpPort_eq del: release_sel)
  qed (use b in \<open>simp_all add: u_def release_def\<close>)
qed

lemma hello_connect:
  assumes up: "hello_accepted s"
  shows "\<exists>s'. EventLoop_loop_body eager_os hello_call (exec_task eager_os hello_app) 20 (as_thread 20 s) = Inr s' \<and>
    hello_step\<^sup>*\<^sup>* (s, [0 \<mapsto> (0, [])]) (s', [0 \<mapsto> (0, [])]) \<and> hello_open s'"
proof -
  let ?t = "as_thread 20 s"
  have t: "kern ?t = kern s" "loops ?t = loops s" "chan ?t = chan s" "refs ?t = refs s" "cur_tid ?t = 200" "reactor.more ?t = reactor.more s"
    using up by (simp_all add: as_thread_def hello_accepted_def fresh_loop_def)
  note tv = server_more [OF t(6)] conns_more [OF t(6)]
  have ep: "pl_epollfd (el_poller (loops ?t 20)) = 6" "length (pl_events (el_poller (loops ?t 20))) = 16"
    using up by (simp_all add: t hello_accepted_def fresh_loop_def KIntEventListSize_def)
  have "ready_for_ep 6 (kern s) = []"
    using up by (simp add: ready_for_ep_def hello_accepted_def hello_kernel_def)
  then have poll: "EpollPoller_poll eager_os 20 kPollTimeMs [] ?t = Inr (0, [], ?t)"
    using poll_run(1) [of ?t 20 kPollTimeMs] ep up by (simp add: t(1) hello_accepted_def)
  let ?s1 = "upd_loop 20 (\<lambda>e. e\<lparr>el_pollReturnTime := 0, el_activeChannels := []\<rparr>) ?t"
  have "20 \<in> loops_of s" using up by (simp add: hello_accepted_def)
  from server_step.poll [OF this _ poll, of "[0 \<mapsto> (0, [])]"]
  have 1: "hello_step (s, [0 \<mapsto> (0, [])]) (?s1, [0 \<mapsto> (0, []), 20 \<mapsto> (0, [])])" by simp
  have l1: "as_thread 20 ?s1 = ?s1" using t(5) up by (intro as_thread_same) (simp add: t hello_accepted_def fresh_loop_def)
  let ?s2 = "upd_loop 20 (\<lambda>e. e\<lparr>el_callingPendingFunctors := True, el_pendingFunctors := []\<rparr>) ?s1"
  have s2: "refs ?s2 0 = 2" "chan ?s2 (ConnChannel 0) = server_channel 20 12 0" "el_poller (loops ?s2 20) = el_poller (fresh_loop 200 6 20)"
     "tc_connectionCallback (conns ?s2 0) = Some 0"
     "sim_interest (kern ?s2) 6 = [7 \<mapsto> \<lparr>ev_events = kReadEvent, ev_ptr = Some (WakeupChannel 20)\<rparr>]"
     "el_threadId (loops ?s2 20) = 200" "el_wakeupFd (loops ?s2 20) = 7"
    using up by (simp_all add: t tv hello_accepted_def fresh_loop_def)
  from s2(1-5) obtain s3 where run: "TcpConnection_connectEstablished eager_os hello_app 0 ?s2 = Inr s3" and s3: "refs s3 0 = 2" "cur_tid s3 = cur_tid ?s2"
    "chan s3 (ConnChannel 0) = (server_channel 20 12 0)\<lparr>ch_events := kReadEvent, ch_index := kAdded, ch_tie := Some 0, ch_tied := True\<rparr>"
    "el_poller (loops s3 20) = (el_poller (fresh_loop 200 6 20))\<lparr>pl_channels := [7 \<mapsto> WakeupChannel 20, 12 \<mapsto> ConnChannel 0]\<rparr>"
    "el_threadId (loops s3 20) = el_threadId (loops ?s2 20)" "el_wakeupFd (loops s3 20) = el_wakeupFd (loops ?s2 20)"
    "reactor.more s3 = reactor.more (TcpConnection_setState 0 kConnected ?s2)"
    "kern s3 = (kern ?s2)\<lparr>sim_interest := (sim_interest (kern ?s2))(6 := [7 \<mapsto> \<lparr>ev_events = kReadEvent, ev_ptr = Some (WakeupChannel 20)\<rparr>,
       12 \<mapsto> \<lparr>ev_events = kReadEvent, ev_ptr = Some (ConnChannel 0)\<rparr>])\<rparr>"
    by (rule hello_established)
  define s4 where "s4 = release eager_os 0 (upd_loop 20 (\<lambda>e. e\<lparr>el_callingPendingFunctors := False\<rparr>) s3)"
  have d: "refs s4 0 = 1" "kern s4 = kern s3" "cur_tid s4 = cur_tid s3" "loops s4 20 = (loops s3 20)\<lparr>el_callingPendingFunctors := False\<rparr>"
      "chan s4 = chan s3" "reactor.more s4 = reactor.more (TcpConnection_setState 0 kConnected ?s2)"
    using s3(1,7) by (simp_all add: s4_def) (simp add: release_def)
  have op: "hello_open s4"
    using up s2(6,7) by (simp add: hello_open_def hello_accepted_def server_more [OF d(6)] conns_more [OF d(6)] d(1-5) s3 t tv loops_of_def
      TcpConnection_setState_def)
  have "el_pendingFunctors (loops ?s1 20) = [Bind_connectEstablished 0]" using up by (simp add: t hello_accepted_def)
  with run have d: "EventLoop_doPendingFunctors eager_os (exec_task eager_os hello_app) 20 (as_thread 20 ?s1) = Inr s4"
    by (simp add: l1 EventLoop_doPendingFunctors_def Let_def release_task_def s4_def)
  have drop: "[0 \<mapsto> (0, []), 20 \<mapsto> (0, [])](20 := None) = [0 :: loop_ptr \<mapsto> (0 :: int, [] :: chan_ptr list)]" by (auto simp: fun_eq_iff)
  from server_step.drain [OF _ d, of "[0 \<mapsto> (0, []), 20 \<mapsto> (0, [])]"]
  have "hello_step (?s1, [0 \<mapsto> (0, []), 20 \<mapsto> (0, [])]) (s4, [0 \<mapsto> (0, [])])"
    by (simp add: drop)
  with 1 have "hello_step\<^sup>*\<^sup>* (s, [0 \<mapsto> (0, [])]) (s4, [0 \<mapsto> (0, [])])" by (meson converse_rtranclp_into_rtranclp r_into_rtranclp)
  moreover have "EventLoop_loop_body eager_os hello_call (exec_task eager_os hello_app) 20 ?t = Inr s4"
    using d by (simp add: EventLoop_loop_body_def poll l1)
  ultimately show ?thesis using op by blast
qed

text \<open>\<^verbatim>\<open>handleRead\<close> in the I/O loop, through the echo callback.\<close>

lemma hello_echo:
  assumes up: "hello_open s" and u: "refs u 0 = 2" "kern u = kern s" "cur_tid u = 200" "el_threadId (loops u 20) = 200" "conns u = conns s"
    "chan u (ConnChannel 0) = (chan s (ConnChannel 0))\<lparr>ch_revents := EPOLLIN\<rparr>" "next_conn u = next_conn s"
  obtains e where "TcpConnection_handleRead eager_os hello_app 0 0 u = Inr (release eager_os 0 e)" "refs e 0 = 3"
    "chan e (ConnChannel 0) = chan u (ConnChannel 0)" "next_conn e = next_conn s" "sim_recv (kern e) 12 = [104, 105]"
    "sim_closed (kern e) = sim_closed (kern s)" "sim_next_fd (kern e) = 13"
proof -
  let ?k = "(kern s)\<lparr>sim_inbox := (\<lambda>_. [104, 105])(12 := []), sim_recv := (sim_recv (kern s))(12 := [104, 105])\<rparr>"
  have open_conn: "tc_state (conns s 0) = kConnected" "tc_loop (conns s 0) = 20" "sim_next_fd (kern s) = 13"
    using up by (simp_all add: hello_open_def)
  have "sys_readv eager_os 12 (if writableBytes fresh_buffer < extrabuf_size then [writableBytes fresh_buffer, extrabuf_size]
      else [writableBytes fresh_buffer]) (kern s) = ((2, 0, [104, 105]), ?k)"
    using up by (simp add: sim_readv_def Let_def hello_open_def writableBytes_def fresh_buffer_def extrabuf_size_def)
  from Buffer_readFd_spec [OF Buffer_ctor_initial(2) eager_readv this]
  obtain b where b: "Buffer_readFd eager_os 12 fresh_buffer (kern s) = Inr (2, 0, b, ?k)" "buffer_ok b" "contents b = [104, 105]"
    by (auto simp: Buffer_ctor_initial(3)) (auto simp: fresh_buffer_def vector_max_size_def)
  define m where "m = retain 0 (upd_conn 0 (\<lambda>tc. tc\<lparr>tc_inputBuffer := b\<rparr>) (u\<lparr>kern := ?k\<rparr>))"
  define n where "n = upd_conn 0 (\<lambda>tc. tc\<lparr>tc_inputBuffer := Buffer_retrieveAll b\<rparr>) m"
  define e where "e = n\<lparr>kern := snd (sim_write_all 12 [104, 105] ?k)\<rparr>"
  have m: "cur_tid m = 200" "refs m 0 = 3" "kern m = ?k" "chan m (ConnChannel 0) = chan u (ConnChannel 0)"
      "el_threadId (loops m 20) = 200" "conns m 0 = (conns s 0)\<lparr>tc_inputBuffer := b\<rparr>" "next_conn m = next_conn s"
    using u by (simp_all add: m_def)
  have n: "tc_state (conns n 0) = kConnected" "\<not> Channel_isWriting (chan n (ConnChannel 0))" "readableBytes (tc_outputBuffer (conns n 0)) = 0"
      "ch_fd (chan n (ConnChannel 0)) = 12" "kern n = ?k" "tc_writeCompleteCallback (conns n 0) = None" "tc_loop (conns n 0) = 20"
      "el_threadId (loops n 20) = cur_tid n"
    using m u(6) up by (simp_all add: n_def hello_open_def server_channel_def Channel_ctor_def Channel_isWriting_def fresh_buffer_def readableBytes_def
      kReadEvent_def kWriteEvent_def)
  have "TcpConnection_sendInLoop eager_os 0 [104, 105] n = Inr e"
    using n by (simp add: TcpConnection_sendInLoop_def sendInLoop_write_def sim_write_all_def e_def Let_def)
  then have echo: "EchoServer_onMessage eager_os 0 0 m = Inr e"
    using m(1,5,6) b(2,3) n(1,7,8) open_conn
    by (simp add: EchoServer_onMessage_def Buffer_retrieveAllAsString_spec TcpConnection_send_def n_def [symmetric]
      TcpConnection_connected_def EventLoop_isInLoopThread_def)
  have "TcpConnection_handleRead eager_os hello_app 0 0 u = Inr (release eager_os 0 e)"
    using u up b(1) echo
    by (simp add: TcpConnection_handleRead_def with_shared_def hello_open_def server_channel_def Channel_ctor_def m_def [symmetric] call_fn_def
      server_app_def echo_app_def del: release_sel)
  then show ?thesis by (rule that) (use m open_conn(3) in \<open>simp_all add: e_def n_def sim_write_all_def\<close>)
qed

text \<open>The state after the answer.\<close>

definition hello_done :: "sim server \<Rightarrow> bool" where
  "hello_done s \<longleftrightarrow> next_conn s = 1 \<and> refs s 0 = 1 \<and> ch_fd (chan s (ConnChannel 0)) = 12 \<and> ch_index (chan s (ConnChannel 0)) = kAdded \<and>
     sim_recv (kern s) 12 = [104, 105] \<and> sim_next_fd (kern s) = 13"

lemma hello_read:
  assumes up: "hello_open s"
  shows "\<exists>s'. hello_step\<^sup>*\<^sup>* (s, [0 \<mapsto> (0, [])]) (s', [0 \<mapsto> (0, []), 20 \<mapsto> (0, [])]) \<and> hello_done s'"
proof -
  let ?ev = "\<lparr>ev_events = EPOLLIN, ev_ptr = Some (ConnChannel 0)\<rparr>"
  have ep: "el_threadId (loops s 20) = cur_tid s" "20 \<in> loops_of s" "sim_clock (kern s) = 0" "length (pl_events (el_poller (loops s 20))) = 16"
      "pl_epollfd (el_poller (loops s 20)) = 6"
    using up by (simp_all add: hello_open_def fresh_loop_def KIntEventListSize_def)
  have k: "sim_interest (kern s) 6 = [7 \<mapsto> \<lparr>ev_events = kReadEvent, ev_ptr = Some (WakeupChannel 20)\<rparr>,
       12 \<mapsto> \<lparr>ev_events = kReadEvent, ev_ptr = Some (ConnChannel 0)\<rparr>]" "sim_next_fd (kern s) = 13"
      "sim_ready (kern s) = [\<lparr>ev_events = EPOLLIN, ev_ptr = Some AcceptChannel\<rparr>, ?ev]"
    using up by (simp_all add: hello_open_def hello_kernel_def)
  have "\<exists>f \<in> {0..<sim_next_fd (kern s)}. map_option ev_ptr (sim_interest (kern s) 6 f) = Some (Some (ConnChannel 0))"
    by (rule ready_for_epI [where f = 12]) (simp_all add: k)
  moreover have "\<not> (\<exists>f \<in> {0..<sim_next_fd (kern s)}. map_option ev_ptr (sim_interest (kern s) 6 f) = Some (Some AcceptChannel))"
    by (simp add: k)
  ultimately have "ready_for_ep 6 (kern s) = [?ev]" by (simp only: ready_for_ep_def k(3) filter.simps epoll_event.simps) simp
  with polled_one [where w = "[0 \<mapsto> (0, [])]", OF ep(1,2) _ ep(3,4)] ep(5)
  obtain s2 where 1: "hello_step (s, [0 \<mapsto> (0, [])]) (s2, [0 \<mapsto> (0, []), 20 \<mapsto> (0, [ConnChannel 0])])" and l2: "as_thread 20 s2 = s2"
    and s2: "kern s2 = kern s" "chan s2 (ConnChannel 0) = (chan s (ConnChannel 0))\<lparr>ch_revents := EPOLLIN\<rparr>" "refs s2 = refs s"
      "cur_tid s2 = cur_tid s" "reactor.more s2 = reactor.more s" "el_threadId (loops s2 20) = cur_tid s"
    by force
  define u where "u = retain 0 s2"
  have u: "refs u 0 = 2" "kern u = kern s" "cur_tid u = 200" "el_threadId (loops u 20) = 200" "conns u = conns s"
    "chan u (ConnChannel 0) = (chan s (ConnChannel 0))\<lparr>ch_revents := EPOLLIN\<rparr>" "next_conn u = next_conn s"
    using s2 up by (simp_all add: u_def hello_open_def server_more [OF s2(5)] conns_more [OF s2(5)])
  obtain e where rd: "TcpConnection_handleRead eager_os hello_app 0 0 u = Inr (release eager_os 0 e)"
    and e: "refs e 0 = 3" "chan e (ConnChannel 0) = chan u (ConnChannel 0)" "next_conn e = next_conn s" "sim_recv (kern e) 12 = [104, 105]"
      "sim_closed (kern e) = sim_closed (kern s)" "sim_next_fd (kern e) = 13"
    by (rule hello_echo [OF up u])
  let ?s3 = "release eager_os 0 (release eager_os 0 e)"
  have h: "Channel_handleEvent eager_os hello_call 0 (ConnChannel 0) (as_thread 20 s2) = Inr ?s3"
    unfolding l2 using s2(2,3) up u(1,6) e(2) rd
    by (simp add: Channel_handleEvent_def Channel_handleEventWithGuard_def u_def [symmetric] hello_open_def server_channel_def Channel_ctor_def
      call_if_set_def on_live_def)
  have "hello_step (s2, [0 \<mapsto> (0, []), 20 \<mapsto> (0, [ConnChannel 0])]) (?s3, [0 \<mapsto> (0, []), 20 \<mapsto> (0, [])])"
    using server_step.handle [OF _ h, of "[0 \<mapsto> (0, []), 20 \<mapsto> (0, [ConnChannel 0])]" "[]"] by simp
  moreover have "kern ?s3 = kern e" using e(1) by (simp add: release_def Let_def)
  then have "hello_done ?s3" using e up u(6) by (simp add: hello_done_def hello_open_def server_channel_def Channel_ctor_def)
  ultimately show ?thesis using 1 by (meson converse_rtranclp_into_rtranclp r_into_rtranclp)
qed

section \<open>The run\<close>

abbreviation hello_setup_ok :: "sim server \<Rightarrow> bool" where
  "hello_setup_ok s1 \<equiv> echo_setup eager_os dotted_inet_addr (EpollPoller_ctor sim_os) boot_ids hello_state = Inr s1"

lemma hello_environment: "environment_ok eager_os sim_interest sim_opened (EpollPoller_ctor sim_os) boot_ids hello_state"
  by (rule eager_environment) (simp add: no_connections_def hello_sel Channel_ctor_def kNew_def)

text \<open>The whole run, and the iteration of the first I/O loop in the middle of it.\<close>

lemma hello_run:
  obtains s1 s where "hello_setup_ok s1" "hello_step\<^sup>*\<^sup>* (s1, Map.empty) (s, [0 \<mapsto> (0, []), 20 \<mapsto> (0, [])])" "hello_done s"
proof -
  obtain s1 where s1: "hello_setup_ok s1" "hello_up s1" by (rule hello_setup)
  obtain s2 where s2: "hello_step\<^sup>*\<^sup>* (s1, Map.empty) (s2, [0 \<mapsto> (0, [])])" "hello_accepted s2" using hello_accept [OF s1(2)] by blast
  obtain s3 where s3: "hello_step\<^sup>*\<^sup>* (s2, [0 \<mapsto> (0, [])]) (s3, [0 \<mapsto> (0, [])])" "hello_open s3" using hello_connect [OF s2(2)] by blast
  obtain s4 where s4: "hello_step\<^sup>*\<^sup>* (s3, [0 \<mapsto> (0, [])]) (s4, [0 \<mapsto> (0, []), 20 \<mapsto> (0, [])])" "hello_done s4" using hello_read [OF s3(2)] by blast
  show ?thesis by (rule that [OF s1(1) rtranclp_trans [OF rtranclp_trans [OF s2(1) s3(1)] s4(1)] s4(2)])
qed

lemma hello_handed:
  obtains s1 s where "hello_setup_ok s1" "hello_step\<^sup>*\<^sup>* (s1, Map.empty) (s, [0 \<mapsto> (0, [])])" "hello_accepted s"
proof -
  obtain s1 where s1: "hello_setup_ok s1" "hello_up s1" by (rule hello_setup)
  with hello_accept [OF s1(2)] that show ?thesis by blast
qed

lemma hello_handing:
  obtains s1 s2 s where "hello_setup_ok s1" "hello_step\<^sup>*\<^sup>* (s1, Map.empty) (s2, [0 \<mapsto> (0, [AcceptChannel])])"
    "hello_step (s2, [0 \<mapsto> (0, [AcceptChannel])]) (s, [0 \<mapsto> (0, [])])" "20 \<in> loops_of s2" "hello_accepted s"
proof -
  obtain s1 where s1: "hello_setup_ok s1" "hello_up s1" by (rule hello_setup)
  with hello_accept_steps [OF s1(2)] that show ?thesis by blast
qed

lemma hello_iteration:
  obtains s1 s s' where "hello_setup_ok s1" "hello_step\<^sup>*\<^sup>* (s1, Map.empty) (s, [0 \<mapsto> (0, [])])" "20 \<in> loops_of s"
    "EventLoop_loop_body eager_os hello_call (exec_task eager_os hello_app) 20 (as_thread 20 s) = Inr s'" "hello_open s'"
proof -
  obtain s1 s2 where s1: "hello_setup_ok s1" and s2: "hello_step\<^sup>*\<^sup>* (s1, Map.empty) (s2, [0 \<mapsto> (0, [])])" "hello_accepted s2"
    by (rule hello_handed)
  then have "20 \<in> loops_of s2" by (simp add: hello_accepted_def)
  with s1 s2 hello_connect [OF s2(2)] that show ?thesis by blast
qed

end
