(* ===== verification/EchoSystem.thy ===== *)
theory EchoSystem
  imports EchoRun
begin

text \<open>
  The echo server as a whole: what holds in every state that its loops can reach after \<^verbatim>\<open>main\<close> has set it up,
  whatever a kernel answers that keeps the contracts of \<open>Posix\<close> and however the loops interleave. No step fails with a
  dangling pointer, connections are counted exactly, the store is well-typed, descriptors have one owner, and what a connection sends
  is what it received. The last section applies each property to the run of \<open>EchoRun\<close>.
\<close>

section \<open>Streams\<close>

lemma echo_reachable_streams:
  assumes "environment_ok os interest opened newDefaultPoller fresh s0" and "streams_ok os st"
    and "echo_setup os inet newDefaultPoller fresh s0 = Inr s1"
    and "(server_step os inet (echo_app os))\<^sup>*\<^sup>* (s1, Map.empty) (s, w)"
  shows "sched_ok os interest opened (Some st) None (s, w)"
  by (rule echo.reachable_sched [OF assms(4) echo_setup_sched(1) [OF assms(3,1)]]) (use assms(2) in simp_all)

lemma sched_flows:
  assumes "sched_ok os interest opened (Some st) wk (s, w)" and "c < next_conn s" "refs s c \<noteq> 0"
  defines "f \<equiv> ch_fd (chan s (ConnChannel c))"
  shows "contents (tc_inputBuffer (conns s c)) = []"
    and "in_order (st_short st) (Channel_isWriting (chan s (ConnChannel c))) (st_wire st (kern s) f)
      (contents (tc_outputBuffer (conns s c))) [] (st_recv st (kern s) f)"
proof -
  obtain v where v: "v_streams v = Some st" "v_focus v = None" "safe v {#} {#} s" using assms(1) by (rule sched_okE)
  then have "conn_flow v (hand_of v c) c s" using assms(2,3) unfolding safe_def flows_def by blast
  with v(1,2) show "contents (tc_inputBuffer (conns s c)) = []"
    "in_order (st_short st) (Channel_isWriting (chan s (ConnChannel c))) (st_wire st (kern s) f)
      (contents (tc_outputBuffer (conns s c))) [] (st_recv st (kern s) f)"
    by (simp_all add: conn_flow_def Let_def f_def)
qed

section \<open>Wakeups\<close>

lemma sched_alerted:
  assumes "sched_ok os interest opened sts (Some counter) (s, w)"
  shows "\<forall>l \<in> loops_of s. w l = None \<longrightarrow> el_pendingFunctors (loops s l) \<noteq> [] \<longrightarrow> 0 < counter (kern s) (el_wakeupFd (loops s l))"
proof -
  obtain v where v: "v_wake v = Some counter" "v_busy v = dom w" "rested v s" using assms by (rule sched_stepE)
  then have "v_loops v = loops_of s" unfolding rested_def safe_def wired_def by simp
  with v show ?thesis by (auto simp: rested_def alerted_def)
qed

lemma sched_watched:
  assumes ok: "sched_ok os interest opened sts wk (s, w)" and l: "l \<in> loops_of s"
  shows "interest (kern s) (pl_epollfd (el_poller (loops s l))) (el_wakeupFd (loops s l)) =
    Some \<lparr>ev_events = kReadEvent, ev_ptr = Some (WakeupChannel l)\<rparr>"
proof -
  obtain v where "safe v {#} {#} s" using ok by (rule sched_okE)
  with l have w: "wakeup_watched l s" unfolding safe_def wired_def by blast
  then have ch: "el_wakeupFd (loops s l) = ch_fd (chan s (WakeupChannel l))" "ch_loop (chan s (WakeupChannel l)) = l"
    "ch_events (chan s (WakeupChannel l)) = kReadEvent" "ch_index (chan s (WakeupChannel l)) = kAdded"
    by (simp_all add: wakeup_watched_def Let_def)
  have reg: "registry_ok interest l s" using sched_descriptors [OF ok] l by (simp add: descriptors_ok_def)
  then have "pl_channels (el_poller (loops s l)) (ch_fd (chan s (WakeupChannel l))) = Some (WakeupChannel l)"
    using ch by (intro map_okD(2)) (simp_all add: registry_ok_def kAdded_def kNew_def)
  with reg ch show ?thesis by (simp add: registry_ok_def watched_def)
qed

section \<open>Types of the store\<close>

text \<open>Which callbacks a channel may hold: those bound to the object that owns it.\<close>

fun bound_for :: "chan_ptr \<Rightarrow> event_callback \<Rightarrow> bool" where
  "bound_for (WakeupChannel l) (Bind_EventLoop_handleRead l') \<longleftrightarrow> l' = l"
| "bound_for AcceptChannel Bind_Acceptor_handleRead \<longleftrightarrow> True"
| "bound_for (ConnChannel c) (Bind_TcpConnection_handleRead c') \<longleftrightarrow> c' = c"
| "bound_for (ConnChannel c) (Bind_TcpConnection_handleWrite c') \<longleftrightarrow> c' = c"
| "bound_for (ConnChannel c) (Bind_TcpConnection_handleClose c') \<longleftrightarrow> c' = c"
| "bound_for (ConnChannel c) (Bind_TcpConnection_handleError c') \<longleftrightarrow> c' = c"
| "bound_for _ _ \<longleftrightarrow> False"

definition channel_typed :: "chan_ptr \<Rightarrow> channel \<Rightarrow> bool" where
  "channel_typed p ch \<longleftrightarrow>
     (\<forall>cb. Some cb \<in> {ch_readCallback ch, ch_writeCallback ch, ch_closeCallback ch, ch_errorCallback ch} \<longrightarrow> bound_for p cb) \<and>
     (ch_index ch \<noteq> kNew \<longrightarrow> (case p of ConnChannel c \<Rightarrow> ch_tied ch \<and> ch_tie ch = Some c | _ \<Rightarrow> \<not> ch_tied ch))"

definition connection_typed :: "conn_ptr \<Rightarrow> ('k, 'z) server_scheme \<Rightarrow> bool" where
  "connection_typed c s \<longleftrightarrow> (let tc = conns s c in tc_loop tc \<in> loops_of s \<and> ch_loop (chan s (ConnChannel c)) = tc_loop tc \<and>
     tc_connectionCallback tc \<noteq> None \<and> tc_messageCallback tc \<noteq> None \<and> tc_closeCallback tc = Some Bind_TcpServer_removeConnection)"

text \<open>A pointer to a connection, and a queued functor: none is bound to a raw \<^verbatim>\<open>this\<close>.\<close>

definition points_to_connection :: "conn_ptr \<Rightarrow> ('k, 'z) server_scheme \<Rightarrow> bool" where
  "points_to_connection c s \<longleftrightarrow> c < next_conn s \<and> refs s c \<noteq> 0"

definition task_typed :: "task \<Rightarrow> ('k, 'z) server_scheme \<Rightarrow> bool" where
  "task_typed t s \<longleftrightarrow> \<not> raw_task t \<and> (\<forall>c. task_owns t = Some c \<longrightarrow> points_to_connection c s)"

definition store_typed :: "('k, 'z) server_scheme \<Rightarrow> bool" where
  "store_typed s \<longleftrightarrow>
     (\<forall>p. known (loops_of s) (next_conn s) p \<longrightarrow> channel_typed p (chan s p)) \<and>
     (\<forall>c < next_conn s. connection_typed c s) \<and>
     (\<forall>nm c. sv_connections s nm = Some c \<longrightarrow> points_to_connection c s \<and> tc_name (conns s c) = nm) \<and>
     (\<forall>l \<in> loops_of s. \<forall>t \<in> set (el_pendingFunctors (loops s l)). task_typed t s) \<and>
     (\<forall>l \<in> loops_of s. \<forall>f p. pl_channels (el_poller (loops s l)) f = Some p \<longrightarrow> known (loops_of s) (next_conn s) p)"

lemma wired_channel_typed:
  assumes w: "wired v s" and p: "known (v_loops v) (next_conn s) p"
  shows "channel_typed p (chan s p)"
proof (cases p)
  case (WakeupChannel l)
  then have "reader_only (Bind_EventLoop_handleRead l) (chan s p)" using w p by (simp add: wired_def)
  then show ?thesis unfolding WakeupChannel by (auto simp: reader_only_def channel_typed_def)
next
  case AcceptChannel
  then have "reader_only Bind_Acceptor_handleRead (chan s p)" using w by (simp add: wired_def)
  then show ?thesis unfolding AcceptChannel by (auto simp: reader_only_def channel_typed_def)
next
  case (ConnChannel c)
  then have "conn_wired (v_loops v) c s" using w p by (simp add: wired_def)
  then show ?thesis unfolding ConnChannel by (auto simp: conn_wired_def Let_def channel_typed_def)
qed

lemma safe_store_typed:
  assumes ok: "safe v {#} {#} s"
  shows "store_typed s"
proof -
  have w: "wired v s" and own: "own_ok {#} {#} (ownership_of s)" and L: "v_loops v = loops_of s"
    using ok by (auto simp: safe_def wired_def)
  have "connection_typed c s" if "c < next_conn s" for c
    using safe_conn [OF ok that] by (simp add: conn_wired_def Let_def connection_typed_def L)
  moreover have "points_to_connection c s \<and> tc_name (conns s c) = nm" if "sv_connections s nm = Some c" for nm c
    using that own own_alive(2) [OF own, of c] by (auto simp: own_ok_def entries_ok_def points_to_connection_def ran_def)
  moreover have "task_typed t s" if "l \<in> loops_of s" "t \<in> set (el_pendingFunctors (loops s l))" for l t
  proof -
    have "t \<in># o_tasks (ownership_of s) + {#}" using that by (auto simp: all_pending_def set_mset_sum)
    with own own_alive(3) [OF own this] show ?thesis
      by (auto simp: task_typed_def points_to_connection_def own_ok_def tasks_ok_def)
  qed
  moreover have "known (loops_of s) (next_conn s) p" if "l \<in> loops_of s" "pl_channels (el_poller (loops s l)) f = Some p" for l f p
    using w that by (auto simp: wired_def)
  ultimately show ?thesis using wired_channel_typed [OF w] unfolding store_typed_def L by blast
qed

section \<open>Properties\<close>

text \<open>
  C2: The echo server is memory safe. Whatever a kernel answers that keeps the contracts of \<open>Posix\<close>, and
  however the iterations of the main loop and the I/O loops interleave after \<^verbatim>\<open>main\<close> has set the server up:
  a connection whose channel is in a poller, or still in a loop's list of active channels, is alive, and
  its buffers are well-formed; and a poll, serving an active channel, or serving a batch of queued functors
  never calls through a dangling pointer, an expired \<^verbatim>\<open>shared_from_this\<close> or an empty function, and never reads
  or writes outside a buffer or the event array.
\<close>

theorem echo_server_memory_safe:
  fixes s0 s1 s :: "('k, 'z) server_scheme"
  assumes "environment_ok os interest opened newDefaultPoller fresh s0"
    and "echo_setup os inet newDefaultPoller fresh s0 = Inr s1"
    and "(server_step os inet (echo_app os))\<^sup>*\<^sup>* (s1, Map.empty) (s, w)"
  shows "(\<forall>c < next_conn s. ch_index (chan s (ConnChannel c)) \<noteq> kNew \<longrightarrow> refs s c \<noteq> 0 \<and>
      buffer_ok (tc_inputBuffer (conns s c)) \<and> buffer_ok (tc_outputBuffer (conns s c))) \<and>
    (\<forall>l now ps c. w l = Some (now, ps) \<and> ConnChannel c \<in> set ps \<longrightarrow> refs s c \<noteq> 0) \<and>
    (\<forall>l \<in> loops_of s. \<not> faulty (EpollPoller_poll os l kPollTimeMs [] (as_thread l s))) \<and>
    (\<forall>l now p ps. w l = Some (now, p # ps) \<longrightarrow>
      \<not> faulty (Channel_handleEvent os (run_callback os inet (server_app os (echo_app os))) now p (as_thread l s))) \<and>
    (\<forall>l now. w l = Some (now, []) \<longrightarrow>
      \<not> faulty (EventLoop_doPendingFunctors os (exec_task os (server_app os (echo_app os))) l (as_thread l s)))"
proof -
  have ok: "sched_ok os interest opened None None (s, w)"
    by (rule echo_reachable [OF assms(1-3)])
  then obtain v where busy: "v_busy v = dom w" and v: "kernel_ok os v" "v_focus v = None" "rested v s" "work_ok v w" by (rule sched_stepE)
  have b: "safe (blind v) {#} {#} s" "v_focus (blind v) = None" "v_wake (blind v) = None" "v_start (blind v) = None" "kernel_ok os (blind v)"
    using v kernel_blind [of os v] by (simp_all add: rested_def)
  have p: "\<not> faulty (EpollPoller_poll os l kPollTimeMs [] (as_thread l s))" if "l \<in> loops_of s" for l
  proof -
    have "l \<in> v_loops ((blind v)\<lparr>v_me := v_tid (blind v) l\<rparr>)" using b(1) that unfolding safe_def wired_def by simp
    from poll_succeeds [OF _ safe_as_thread [OF b(1-4)] this, of os kPollTimeMs] b(5) show ?thesis by (auto simp: faulty_def)
  qed
  have h: "\<not> faulty (Channel_handleEvent os (run_callback os inet (server_app os (echo_app os))) now p (as_thread l s))"
    if "w l = Some (now, p # ps)" for l now p ps
    by (rule runs_not_faulty [OF echo.runs_handle [OF v that]]) (use busy that in auto)
  have d: "\<not> faulty (EventLoop_doPendingFunctors os (exec_task os (server_app os (echo_app os))) l (as_thread l s))"
    if "w l = Some (now, [])" for l now
    by (rule runs_not_faulty [OF echo.runs_drain [OF v(1-3) work_loop [OF v(4) that]]]) (use busy that in auto)
  have b: "buffer_ok (tc_inputBuffer (conns s c)) \<and> buffer_ok (tc_outputBuffer (conns s c))" if "c < next_conn s" for c
    using safe_conn [OF b(1) that] by (simp add: conn_wired_def Let_def)
  show ?thesis using sched_facts(2,3) [OF ok] p h d b by blast
qed

theorem echo_server_memory_safe_witness:
  "\<exists>s1 s. hello_setup_ok s1 \<and> hello_step\<^sup>*\<^sup>* (s1, Map.empty) (s, [0 \<mapsto> (0, []), 20 \<mapsto> (0, [])]) \<and>
     buffer_ok (tc_inputBuffer (conns s 0)) \<and>
     \<not> faulty (EventLoop_doPendingFunctors eager_os (exec_task eager_os hello_app) 20 (as_thread 20 s))"
proof -
  obtain s1 s where r: "hello_setup_ok s1" "hello_step\<^sup>*\<^sup>* (s1, Map.empty) (s, [0 \<mapsto> (0, []), 20 \<mapsto> (0, [])])" "hello_done s"
    by (rule hello_run)
  moreover have "0 < next_conn s \<and> ch_index (chan s (ConnChannel 0)) \<noteq> kNew" using r(3) by (simp add: hello_done_def kNew_def kAdded_def)
  ultimately show ?thesis using echo_server_memory_safe [OF hello_environment r(1,2)] by (intro exI [of _ s1] exI [of _ s]) auto
qed

text \<open>
  C9: Connections are counted exactly and are not leaked. With a kernel as in the property on memory
  safety, in every state the loops of the echo server can reach, the number of owners of a connection is one for its entry in the server's map and one for
  each queued functor that holds it, so a connection that has neither has been destroyed. A connection
  whose channel is still in a poller is in the map or its removal is queued, and \<^verbatim>\<open>connectDestroyed\<close>,
  which takes the channel out, is only ever queued in the connection's own loop.
\<close>

theorem echo_connections_owned_exactly:
  fixes s0 s1 s :: "('k, 'z) server_scheme"
  assumes "environment_ok os interest opened newDefaultPoller fresh s0"
    and "echo_setup os inet newDefaultPoller fresh s0 = Inr s1"
    and "(server_step os inet (echo_app os))\<^sup>*\<^sup>* (s1, Map.empty) (s, w)"
  shows "(\<forall>c. refs s c = (if c \<in> ran (sv_connections s) then 1 else 0) +
      (\<Sum>l \<in> loops_of s. length (filter (\<lambda>t. task_owns t = Some c) (el_pendingFunctors (loops s l))))) \<and>
    (\<forall>c < next_conn s. ch_index (chan s (ConnChannel c)) \<noteq> kNew \<longrightarrow> c \<in> ran (sv_connections s) \<or>
      (\<exists>l \<in> loops_of s. Bind_removeConnectionInLoop c \<in> set (el_pendingFunctors (loops s l)) \<or>
        Bind_connectDestroyed c \<in> set (el_pendingFunctors (loops s l)))) \<and>
    (\<forall>c. \<forall>l \<in> loops_of s. Bind_connectDestroyed c \<in> set (el_pendingFunctors (loops s l)) \<longrightarrow> tc_loop (conns s c) = l)"
proof -
  note f = sched_facts [OF echo_reachable [OF assms(1-3)]]
  have n: "held_by c (all_pending s) =
      (\<Sum>l \<in> loops_of s. length (filter (\<lambda>t. task_owns t = Some c) (el_pendingFunctors (loops s l))))" for c
    unfolding all_pending_def by (rule held_by_sum) simp
  have leave: "leaving c (all_pending s) \<longleftrightarrow> (\<exists>l \<in> loops_of s. Bind_removeConnectionInLoop c \<in> set (el_pendingFunctors (loops s l)) \<or>
        Bind_connectDestroyed c \<in> set (el_pendingFunctors (loops s l)))" for c
    unfolding leaving_def all_pending_def by (auto simp: set_mset_sum)
  show ?thesis using f(1,4,5) unfolding n leave by auto
qed

theorem echo_connections_owned_exactly_witness:
  "\<exists>s1 s. hello_setup_ok s1 \<and> hello_step\<^sup>*\<^sup>* (s1, Map.empty) (s, [0 \<mapsto> (0, []), 20 \<mapsto> (0, [])]) \<and>
     1 = (if 0 \<in> ran (sv_connections s) then 1 else 0) +
       (\<Sum>l \<in> loops_of s. length (filter (\<lambda>t. task_owns t = Some 0) (el_pendingFunctors (loops s l))))"
proof -
  obtain s1 s where r: "hello_setup_ok s1" "hello_step\<^sup>*\<^sup>* (s1, Map.empty) (s, [0 \<mapsto> (0, []), 20 \<mapsto> (0, [])])" "hello_done s"
    by (rule hello_run)
  have one: "refs s 0 = 1" using r(3) by (simp add: hello_done_def)
  note conjunct1 [OF echo_connections_owned_exactly [OF hello_environment r(1,2)], THEN spec, of 0, unfolded one]
  with r(1,2) show ?thesis by blast
qed

text \<open>
  C16: Descriptors are neither shared nor closed early, and the pollers agree with the kernel. In every state the loops of the echo
  server can reach, every live connection has an open descriptor that no other live connection, no loop's
  \<^verbatim>\<open>eventfd\<close> or epoll instance and not the listening socket has; and in every loop the kernel watches exactly
  the descriptors that the poller's map has in state \<^verbatim>\<open>kAdded\<close>, each with the mask and the pointer of its channel.
\<close>

theorem echo_descriptors_owned:
  fixes s0 s1 s :: "('k, 'z) server_scheme"
  assumes "environment_ok os interest opened newDefaultPoller fresh s0"
    and "echo_setup os inet newDefaultPoller fresh s0 = Inr s1"
    and "(server_step os inet (echo_app os))\<^sup>*\<^sup>* (s1, Map.empty) (s, w)"
  shows "(\<forall>c < next_conn s. refs s c \<noteq> 0 \<longrightarrow> (let f = ch_fd (chan s (ConnChannel c)) in f \<in> opened (kern s) \<and>
      (\<forall>d < next_conn s. refs s d \<noteq> 0 \<and> ch_fd (chan s (ConnChannel d)) = f \<longrightarrow> d = c) \<and>
      f \<noteq> ch_fd (chan s AcceptChannel) \<and>
      (\<forall>l \<in> loops_of s. f \<noteq> ch_fd (chan s (WakeupChannel l)) \<and> f \<noteq> pl_epollfd (el_poller (loops s l))))) \<and>
    (\<forall>l \<in> loops_of s. registry_ok interest l s)"
proof -
  let ?P = "live (loops_of s) s"
  have d: "descriptors_ok interest opened (loops_of s) ?P s"
    by (rule sched_descriptors [OF echo_reachable [OF assms(1-3)]])
  then have inj: "p = q" if "p \<in> ?P" "q \<in> ?P" "ch_fd (chan s p) = ch_fd (chan s q)" for p q
    using that by (auto simp: descriptors_ok_def dest: inj_onD)
  have w: "l \<in> loops_of s \<Longrightarrow> WakeupChannel l \<in> ?P" for l by (simp add: live_def)
  have acc: "AcceptChannel \<in> ?P" by simp
  have "f \<in> opened (kern s) \<and> (\<forall>d < next_conn s. refs s d \<noteq> 0 \<and> ch_fd (chan s (ConnChannel d)) = f \<longrightarrow> d = c) \<and>
      f \<noteq> ch_fd (chan s AcceptChannel) \<and> (\<forall>l \<in> loops_of s. f \<noteq> ch_fd (chan s (WakeupChannel l)) \<and> f \<noteq> pl_epollfd (el_poller (loops s l)))"
    if c: "ConnChannel c \<in> ?P" and f: "f = ch_fd (chan s (ConnChannel c))" for c f
  proof (intro conjI allI ballI impI)
    show "f \<in> opened (kern s)" using d c f by (simp add: descriptors_ok_def)
    show "x = c" if "x < next_conn s" "refs s x \<noteq> 0 \<and> ch_fd (chan s (ConnChannel x)) = f" for x
      using inj [OF c, of "ConnChannel x"] that f by simp
    show "f \<noteq> ch_fd (chan s AcceptChannel)" using inj [OF c acc] f by auto
    show "f \<noteq> ch_fd (chan s (WakeupChannel l))" "f \<noteq> pl_epollfd (el_poller (loops s l))" if "l \<in> loops_of s" for l
      using inj [OF c w [OF that]] d c f that unfolding descriptors_ok_def epfd_def by auto
  qed
  with d show ?thesis by (simp add: Let_def descriptors_ok_def)
qed

theorem echo_descriptors_owned_witness:
  "\<exists>s1 s. hello_setup_ok s1 \<and> hello_step\<^sup>*\<^sup>* (s1, Map.empty) (s, [0 \<mapsto> (0, []), 20 \<mapsto> (0, [])]) \<and>
     12 \<in> sim_opened (kern s) \<and> 12 \<noteq> ch_fd (chan s AcceptChannel) \<and> (\<forall>l \<in> loops_of s. registry_ok sim_interest l s)"
proof -
  obtain s1 s where r: "hello_setup_ok s1" "hello_step\<^sup>*\<^sup>* (s1, Map.empty) (s, [0 \<mapsto> (0, []), 20 \<mapsto> (0, [])])" "hello_done s"
    by (rule hello_run)
  from r(3) have "0 < next_conn s" "refs s 0 \<noteq> 0" "ch_fd (chan s (ConnChannel 0)) = 12" by (simp_all add: hello_done_def)
  with echo_descriptors_owned [OF hello_environment r(1,2)] r(1,2) show ?thesis by (intro exI [of _ s1] exI [of _ s]) (auto simp: Let_def)
qed



text \<open>
  C3: The echo server returns what it receives. Whatever a kernel answers that keeps the contracts of \<open>Posix\<close>, and however the
  loops interleave after \<^verbatim>\<open>main\<close> has set the server up: of every living connection the input buffer is empty between two
  events, and the bytes already written to its descriptor followed by those waiting in its output buffer are a
  subsequence of the bytes read from it, so nothing is reordered, duplicated, invented or sent to another
  connection. If the kernel's writes take all they are given, nothing waits, no channel asks for writability, and what was
  written is exactly what was read.
\<close>

theorem echo_streams:
  fixes s0 s1 s :: "('k, 'z) server_scheme"
  assumes "environment_ok os interest opened newDefaultPoller fresh s0" and "stream_contract os wire recv"
    and "echo_setup os inet newDefaultPoller fresh s0 = Inr s1"
    and "(server_step os inet (echo_app os))\<^sup>*\<^sup>* (s1, Map.empty) (s, w)"
  shows "\<forall>c < next_conn s. refs s c \<noteq> 0 \<longrightarrow>
    (let tc = conns s c; ch = chan s (ConnChannel c); sent = wire (kern s) (ch_fd ch); received = recv (kern s) (ch_fd ch) in
      contents (tc_inputBuffer tc) = [] \<and> subseq (sent @ contents (tc_outputBuffer tc)) received \<and>
      (full_writes os \<longrightarrow> contents (tc_outputBuffer tc) = [] \<and> \<not> Channel_isWriting ch \<and> sent = received))"
proof (intro allI impI)
  fix c assume c: "c < next_conn s" "refs s c \<noteq> 0"
  let ?st = "\<lparr>st_wire = wire, st_recv = recv, st_short = \<not> full_writes os\<rparr>"
  have "streams_ok os ?st" using assms(2) by (simp add: streams_ok_def)
  from sched_flows [OF echo_reachable_streams [OF assms(1) this assms(3,4)] c]
  show "let tc = conns s c; ch = chan s (ConnChannel c); sent = wire (kern s) (ch_fd ch); received = recv (kern s) (ch_fd ch) in
      contents (tc_inputBuffer tc) = [] \<and> subseq (sent @ contents (tc_outputBuffer tc)) received \<and>
      (full_writes os \<longrightarrow> contents (tc_outputBuffer tc) = [] \<and> \<not> Channel_isWriting ch \<and> sent = received)"
    by (simp add: in_order_def Let_def)
qed

theorem echo_streams_witness:
  "\<exists>s1 s. hello_setup_ok s1 \<and> hello_step\<^sup>*\<^sup>* (s1, Map.empty) (s, [0 \<mapsto> (0, []), 20 \<mapsto> (0, [])]) \<and>
     sim_recv (kern s) (ch_fd (chan s (ConnChannel 0))) = [104, 105] \<and> sim_wire (kern s) (ch_fd (chan s (ConnChannel 0))) = [104, 105]"
proof -
  obtain s1 s where r: "hello_setup_ok s1" "hello_step\<^sup>*\<^sup>* (s1, Map.empty) (s, [0 \<mapsto> (0, []), 20 \<mapsto> (0, [])])" "hello_done s"
    by (rule hello_run)
  from r(3) have "0 < next_conn s" "refs s 0 \<noteq> 0" "sim_recv (kern s) (ch_fd (chan s (ConnChannel 0))) = [104, 105]"
    by (simp_all add: hello_done_def)
  with echo_streams [OF hello_environment eager_streams(1) r(1,2)] eager_streams(2) r(1,2) show ?thesis
    by (intro exI [of _ s1] exI [of _ s]) (auto simp: Let_def)
qed

text \<open>
  C15: The store of the echo server is well-typed. In every state the loops can reach, every callback in a channel is bound to the object
  that owns the channel, so an event is never handled by another connection, loop or acceptor; a connection's channel in a poller is tied to it;
  every connection runs in a loop of the server and has its callbacks set; every entry of the map is a live connection of that name; every queued
  functor owns the live connection it is bound to; and the pollers' maps hold only channels of existing objects.
\<close>

theorem echo_store_typed:
  fixes s0 s1 s :: "('k, 'z) server_scheme"
  assumes "environment_ok os interest opened newDefaultPoller fresh s0"
    and "echo_setup os inet newDefaultPoller fresh s0 = Inr s1"
    and "(server_step os inet (echo_app os))\<^sup>*\<^sup>* (s1, Map.empty) (s, w)"
  shows "store_typed s"
  using echo_reachable [OF assms(1-3)] safe_store_typed by (blast elim: sched_okE)

theorem echo_store_typed_witness:
  "\<exists>s1 s. hello_setup_ok s1 \<and> hello_step\<^sup>*\<^sup>* (s1, Map.empty) (s, [0 \<mapsto> (0, []), 20 \<mapsto> (0, [])]) \<and>
     connection_typed 0 s \<and> channel_typed (ConnChannel 0) (chan s (ConnChannel 0))"
proof -
  obtain s1 s where r: "hello_setup_ok s1" "hello_step\<^sup>*\<^sup>* (s1, Map.empty) (s, [0 \<mapsto> (0, []), 20 \<mapsto> (0, [])])" "hello_done s"
    by (rule hello_run)
  from r(3) have "known (loops_of s) (next_conn s) (ConnChannel 0)" "0 < next_conn s" by (simp_all add: hello_done_def)
  with echo_store_typed [OF hello_environment r(1,2)] r(1,2) show ?thesis unfolding store_typed_def by blast
qed

text \<open>
  C4: No wakeup of the echo server is lost. In every state the loops can reach, the poller of every loop watches the loop's \<^verbatim>\<open>eventfd\<close> for
  reading, and a loop that is between two iterations while functors wait in its queue, whichever threads queued them and
  whenever, has an \<^verbatim>\<open>eventfd\<close> with a positive counter: its next \<^verbatim>\<open>epoll_wait\<close> finds the descriptor readable, and the functors
  do not wait for an event of a socket.
\<close>

theorem echo_no_lost_wakeup:
  fixes s0 s1 s :: "('k, 'z) server_scheme"
  assumes "environment_ok os interest opened newDefaultPoller fresh s0" and "eventfd_contract os counter"
    and "echo_setup os inet newDefaultPoller fresh s0 = Inr s1"
    and "(server_step os inet (echo_app os))\<^sup>*\<^sup>* (s1, Map.empty) (s, w)"
  shows "\<forall>l \<in> loops_of s.
    interest (kern s) (pl_epollfd (el_poller (loops s l))) (el_wakeupFd (loops s l)) =
      Some \<lparr>ev_events = kReadEvent, ev_ptr = Some (WakeupChannel l)\<rparr> \<and>
    (w l = None \<longrightarrow> el_pendingFunctors (loops s l) \<noteq> [] \<longrightarrow> 0 < counter (kern s) (el_wakeupFd (loops s l)))"
proof (intro ballI conjI impI)
  have ok: "sched_ok os interest opened None (Some counter) (s, w)"
    by (rule echo.reachable_sched [OF assms(4) echo_setup_sched(1) [OF assms(3,1)]]) (use assms(2) in simp_all)
  fix l assume l: "l \<in> loops_of s"
  show "0 < counter (kern s) (el_wakeupFd (loops s l))" if "w l = None" "el_pendingFunctors (loops s l) \<noteq> []"
    using sched_alerted [OF ok] l that by blast
  show "interest (kern s) (pl_epollfd (el_poller (loops s l))) (el_wakeupFd (loops s l)) =
      Some \<lparr>ev_events = kReadEvent, ev_ptr = Some (WakeupChannel l)\<rparr>"
    by (rule sched_watched [OF ok l])
qed

theorem echo_no_lost_wakeup_witness:
  "\<exists>s1 s. hello_setup_ok s1 \<and> hello_step\<^sup>*\<^sup>* (s1, Map.empty) (s, [0 \<mapsto> (0, [])]) \<and>
     el_pendingFunctors (loops s 20) = [Bind_connectEstablished 0] \<and> 0 < sim_eventfd (kern s) 7 \<and>
     sim_interest (kern s) 6 7 = Some \<lparr>ev_events = kReadEvent, ev_ptr = Some (WakeupChannel 20)\<rparr>"
proof -
  obtain s1 s where r: "hello_setup_ok s1" "hello_step\<^sup>*\<^sup>* (s1, Map.empty) (s, [0 \<mapsto> (0, [])])" "hello_accepted s" by (rule hello_handed)
  from r(3) have "20 \<in> loops_of s" "el_pendingFunctors (loops s 20) = [Bind_connectEstablished 0]" "el_wakeupFd (loops s 20) = 7"
    "pl_epollfd (el_poller (loops s 20)) = 6" by (simp_all add: hello_accepted_def fresh_loop_def)
  with echo_no_lost_wakeup [OF hello_environment eager_eventfd r(1,2)] r(1,2) show ?thesis
    by (intro exI [of _ s1] exI [of _ s]) auto
qed

text \<open>
  C5: One loop per thread. Every step of the echo server is taken by one loop \<^term>\<open>l\<close>, and what it writes belongs to that loop: no
  connection ever moves to another loop; the connections of other loops, their buffers, states and channels, and the wakeup channels of
  other loops are as before; of another loop's members, its poller included, only the queue of functors changes, at its end;
  and the acceptor, the map of connections, the connection counter and the choice of the next loop change only in steps of
  the server's own loop. Of all these members the code locks the queue only.
\<close>

theorem echo_loops_confined:
  fixes s0 s1 s s' :: "('k, 'z) server_scheme"
  assumes "environment_ok os interest opened newDefaultPoller fresh s0"
    and "echo_setup os inet newDefaultPoller fresh s0 = Inr s1"
    and "(server_step os inet (echo_app os))\<^sup>*\<^sup>* (s1, Map.empty) (s, w)"
    and "server_step os inet (echo_app os) (s, w) (s', w')"
  shows "\<exists>l \<in> loops_of s. (\<forall>x. x \<noteq> l \<longrightarrow> w' x = w x) \<and>
    (\<forall>c < next_conn s. tc_loop (conns s' c) = tc_loop (conns s c) \<and>
      (tc_loop (conns s c) \<noteq> l \<longrightarrow> conns s' c = conns s c \<and> chan s' (ConnChannel c) = chan s (ConnChannel c))) \<and>
    (\<forall>x \<in> loops_of s. x \<noteq> l \<longrightarrow> chan s' (WakeupChannel x) = chan s (WakeupChannel x) \<and>
      (\<exists>ts. loops s' x = (loops s x)\<lparr>el_pendingFunctors := el_pendingFunctors (loops s x) @ ts\<rparr>)) \<and>
    (sv_loop s \<noteq> l \<longrightarrow> chan s' AcceptChannel = chan s AcceptChannel \<and> the_acceptor s' = the_acceptor s \<and>
      sv_connections s' = sv_connections s \<and> sv_nextConnId s' = sv_nextConnId s \<and> sv_threadPool s' = sv_threadPool s \<and>
      next_conn s' = next_conn s)"
  using echo.step_confined [OF assms(4) echo_reachable [OF assms(1-3)]]
  by (simp add: stays_def conns_stay_def loop_stays_def server_stays_def conj_ac)

theorem echo_loops_confined_witness:
  "\<exists>s1 s s'. hello_setup_ok s1 \<and> hello_step\<^sup>*\<^sup>* (s1, Map.empty) (s, [0 \<mapsto> (0, [AcceptChannel])]) \<and>
     hello_step (s, [0 \<mapsto> (0, [AcceptChannel])]) (s', [0 \<mapsto> (0, [])]) \<and>
     el_pendingFunctors (loops s' 20) = [Bind_connectEstablished 0] \<and> el_poller (loops s' 20) = el_poller (loops s 20) \<and>
     chan s' (WakeupChannel 20) = chan s (WakeupChannel 20)"
proof -
  obtain s1 s s' where r: "hello_setup_ok s1" "hello_step\<^sup>*\<^sup>* (s1, Map.empty) (s, [0 \<mapsto> (0, [AcceptChannel])])"
    "hello_step (s, [0 \<mapsto> (0, [AcceptChannel])]) (s', [0 \<mapsto> (0, [])])" "20 \<in> loops_of s" "hello_accepted s'" by (rule hello_handing)
  obtain l where l: "\<forall>x. x \<noteq> l \<longrightarrow> ([0 \<mapsto> (0, [])] :: work) x = [0 \<mapsto> (0, [AcceptChannel])] x"
    "\<forall>x \<in> loops_of s. x \<noteq> l \<longrightarrow> chan s' (WakeupChannel x) = chan s (WakeupChannel x) \<and>
      (\<exists>ts. loops s' x = (loops s x)\<lparr>el_pendingFunctors := el_pendingFunctors (loops s x) @ ts\<rparr>)"
    by (rule bexE [OF echo_loops_confined [OF hello_environment r(1-3)]], elim conjE) (rule that)
  from l(1) have "l = 0" by (auto dest: spec [of _ 0])
  with l(2) r(4) have "chan s' (WakeupChannel 20) = chan s (WakeupChannel 20)" "el_poller (loops s' 20) = el_poller (loops s 20)" by force+
  with r show ?thesis by (intro exI [of _ s1] exI [of _ s] exI [of _ s']) (simp add: hello_accepted_def)
qed

end
