(* ===== verification/Logging.thy ===== *)
theory Logging
  imports Prelude
begin

text \<open>
  \<^verbatim>\<open>Timestamp\<close>, \<^verbatim>\<open>Logger\<close> and \<^verbatim>\<open>CheckError\<close>. Log lines are values here: a line is the text that
  \<^verbatim>\<open>Logger::log\<close> writes to standard output. \<^verbatim>\<open>localtime\<close>, which depends on the time zone of the
  host, is a parameter.
\<close>

section \<open>Timestamp\<close>

record tm =
  tm_year :: int
  tm_mon :: int
  tm_mday :: int
  tm_hour :: int
  tm_min :: int
  tm_sec :: int

type_synonym timestamp = int

definition Timestamp_ctor :: "int \<Rightarrow> timestamp" where
  "Timestamp_ctor microSecondsSinceEpoch = microSecondsSinceEpoch"

text \<open>\<^verbatim>\<open>Timestamp(time(NULL))\<close>: seconds, although the member is named for microseconds.\<close>

definition Timestamp_now :: "int \<Rightarrow> timestamp" where
  "Timestamp_now time_result = Timestamp_ctor time_result"

definition pad_left :: "nat \<Rightarrow> char \<Rightarrow> string \<Rightarrow> string" where
  "pad_left w c s = replicate (w - length s) c @ s"

text \<open>\<^verbatim>\<open>%4d\<close> pads with blanks, \<^verbatim>\<open>%02d\<close> with zeros.\<close>

definition Timestamp_toString :: "(int \<Rightarrow> tm) \<Rightarrow> timestamp \<Rightarrow> string" where
  "Timestamp_toString localtime t =
     (let tm_time = localtime t in
      snprintf_buf 128
        (pad_left 4 (CHR '' '') (show_int (tm_year tm_time + 1900)) @ ''/'' @
         pad_left 2 (CHR ''0'') (show_int (tm_mon tm_time + 1)) @ ''/'' @
         pad_left 2 (CHR ''0'') (show_int (tm_mday tm_time)) @ '' '' @
         pad_left 2 (CHR ''0'') (show_int (tm_hour tm_time)) @ '':'' @
         pad_left 2 (CHR ''0'') (show_int (tm_min tm_time)) @ '':'' @
         pad_left 2 (CHR ''0'') (show_int (tm_sec tm_time))))"

section \<open>Logger\<close>

datatype log_level = INFO | ERROR | FATAL | DEBUG

fun level_code :: "log_level \<Rightarrow> int" where
  "level_code INFO = 0"
| "level_code ERROR = 1"
| "level_code FATAL = 2"
| "level_code DEBUG = 3"

text \<open>The singleton. \<^verbatim>\<open>instance\<close> returns a static object without initialiser, so its level starts as 0.\<close>

record logger =
  lg_logLevel :: int

definition Logger_instance :: logger where
  "Logger_instance = \<lparr>lg_logLevel = 0\<rparr>"

definition Logger_setLogLevel :: "int \<Rightarrow> logger \<Rightarrow> logger" where
  "Logger_setLogLevel level lg = lg\<lparr>lg_logLevel := level\<rparr>"

text \<open>\<^verbatim>\<open>Logger::log\<close>: the \<^verbatim>\<open>switch\<close> as a list of labelled sections; control enters at the section of the
  level and leaves at the first \<^verbatim>\<open>break\<close>; a level without a section has no tag.\<close>

definition log_sections :: "(log_level \<times> string \<times> bool) list" where
  "log_sections = [(INFO, ''[INFO]'', False), (ERROR, ''[ERRIR]'', True), (FATAL, ''[FATAL]'', True),
     (DEBUG, ''[DEBUG]'', True)]"

fun run_sections :: "(log_level \<times> string \<times> bool) list \<Rightarrow> string" where
  "run_sections [] = []"
| "run_sections ((_, text, breaks) # rest) = text @ (if breaks then [] else run_sections rest)"

definition Logger_log :: "(int \<Rightarrow> tm) \<Rightarrow> int \<Rightarrow> string \<Rightarrow> logger \<Rightarrow> string" where
  "Logger_log localtime time_result msg lg =
     run_sections (dropWhile (\<lambda>(l, _). level_code l \<noteq> lg_logLevel lg) log_sections) @
     Timestamp_toString localtime (Timestamp_now time_result) @ '' : '' @ msg @ [CHR 10]"

text \<open>The macros set the level, format into 1024 bytes, and log; \<^verbatim>\<open>LOG_FATAL\<close> then exits. \<^verbatim>\<open>LOG_DEBUG\<close> is
  empty unless \<^verbatim>\<open>MUDEBUG\<close> is defined.\<close>

definition LOG_line :: "(int \<Rightarrow> tm) \<Rightarrow> int \<Rightarrow> log_level \<Rightarrow> string \<Rightarrow> logger \<Rightarrow> string \<times> logger \<times> unit result" where
  "LOG_line localtime time_result level formatted lg =
     (let lg1 = Logger_setLogLevel (level_code level) lg
      in (Logger_log localtime time_result (snprintf_buf 1024 formatted) lg1, lg1,
          if level = FATAL then Inl (FatalExit formatted) else Inr ()))"

definition LOG_DEBUG :: "bool \<Rightarrow> (int \<Rightarrow> tm) \<Rightarrow> int \<Rightarrow> string \<Rightarrow> logger \<Rightarrow> string \<times> logger \<times> unit result" where
  "LOG_DEBUG MUDEBUG localtime time_result formatted lg =
     (if MUDEBUG then LOG_line localtime time_result DEBUG formatted lg else ([], lg, Inr ()))"

section \<open>Several threads\<close>

text \<open>All threads share the singleton, and nothing locks it: another thread may come between the two accesses
  of a macro.\<close>

datatype log_action = SetLevel log_level | Write string

definition LOG_actions :: "log_level \<Rightarrow> string \<Rightarrow> log_action list" where
  "LOG_actions level formatted = [SetLevel level, Write (snprintf_buf 1024 formatted)]"

fun log_output :: "(int \<Rightarrow> tm) \<Rightarrow> int \<Rightarrow> log_action list \<Rightarrow> logger \<Rightarrow> string" where
  "log_output localtime now [] lg = []"
| "log_output localtime now (SetLevel level # as) lg = log_output localtime now as (Logger_setLogLevel (level_code level) lg)"
| "log_output localtime now (Write msg # as) lg = Logger_log localtime now msg lg @ log_output localtime now as lg"

text \<open>Undisturbed, a macro writes its own line. Two macros at once can both write lines of the second's level.\<close>

lemma LOG_actions_line: "log_output localtime now (LOG_actions level m) lg = fst (LOG_line localtime now level m lg)"
  by (simp add: LOG_actions_def LOG_line_def Let_def)

lemma concurrent_lines_share_level:
  "\<exists>as \<in> shuffles (LOG_actions a m) (LOG_actions b n).
     log_output localtime now as lg = fst (LOG_line localtime now b m lg) @ fst (LOG_line localtime now b n lg)"
proof -
  let ?as = "[SetLevel a, SetLevel b, Write (snprintf_buf 1024 m), Write (snprintf_buf 1024 n)]"
  have "?as \<in> shuffles (LOG_actions a m) (LOG_actions b n)" by (simp add: LOG_actions_def)
  moreover have "log_output localtime now ?as lg = fst (LOG_line localtime now b m lg) @ fst (LOG_line localtime now b n lg)"
    by (simp add: LOG_line_def Let_def Logger_log_def Logger_setLogLevel_def)
  ultimately show ?thesis by blast
qed

section \<open>CheckError\<close>

definition ErrorIf :: "bool \<Rightarrow> string \<Rightarrow> unit result" where
  "ErrorIf condition msg = (if condition then Inl (FatalExit msg) else Inr ())"

section \<open>Properties\<close>


lemma length_pad2:
  assumes "0 \<le> n" and "n < 100"
  shows "length (pad_left 2 c (show_int n)) = 2"
proof -
  have "nat n < 10 ^ Suc 1" using assms by simp
  from length_show_nat [OF this] have "length (show_nat (nat n)) \<le> 2" by simp
  with assms show ?thesis by (simp add: pad_left_def show_int_def)
qed

lemma length_pad4:
  assumes "0 \<le> n" and "n < 10000"
  shows "length (pad_left 4 c (show_int n)) = 4"
proof -
  have "nat n < 10 ^ Suc 3" using assms by simp
  from length_show_nat [OF this] have "length (show_nat (nat n)) \<le> 4" by simp
  with assms show ?thesis by (simp add: pad_left_def show_int_def)
qed

text \<open>A time stamp of a year up to 9999 is printed in exactly 19 characters, whatever broken-down time
  \<^verbatim>\<open>localtime\<close> returns for it, so it never reaches the end of the 128-byte buffer.\<close>

lemma toString_fixed_width:
  assumes "0 \<le> tm_year (localtime t) + 1900" and "tm_year (localtime t) + 1900 < 10000"
    and "0 \<le> tm_mon (localtime t)" and "tm_mon (localtime t) < 12"
    and "1 \<le> tm_mday (localtime t)" and "tm_mday (localtime t) \<le> 31"
    and "0 \<le> tm_hour (localtime t)" and "tm_hour (localtime t) < 24"
    and "0 \<le> tm_min (localtime t)" and "tm_min (localtime t) < 60"
    and "0 \<le> tm_sec (localtime t)" and "tm_sec (localtime t) \<le> 60"
  shows "length (Timestamp_toString localtime t) = 19"
  using assms by (simp add: Timestamp_toString_def snprintf_buf_def Let_def length_pad2 length_pad4)

end
