(* ===== verification/Spec2Isabelle.thy ===== *)
theory Spec2Isabelle
  imports LoopRefines LoopThread EchoSystem Logging
begin

text \<open>
  \<^bold>\<open>A verification of TCP_MUDUO.\<close>

  The repository is a C++ network library after the design of muduo: a reactor (\<^verbatim>\<open>EventLoop\<close>,
  \<^verbatim>\<open>Channel\<close>, \<^verbatim>\<open>EpollPoller\<close>), one reactor per thread (\<^verbatim>\<open>EventLoopThread\<close>, \<^verbatim>\<open>EventLoopThreadPool\<close>), and
  TCP on top of it (\<^verbatim>\<open>Acceptor\<close>, \<^verbatim>\<open>TcpConnection\<close>, \<^verbatim>\<open>TcpServer\<close>), with an echo server as application.
  All sources named below are under \<^verbatim>\<open>src/mylib/mylib\<close>, the echo server is \<^verbatim>\<open>src/src/server_00.cpp\<close>.

  \<^bold>\<open>How the program works.\<close> The main loop watches the listening socket. A connection it accepts is given to
  the next loop of the pool, whose thread puts its channel into its own poller, reads into the
  connection's input buffer, calls the message callback, and writes from the output buffer. Threads
  talk to a loop by queueing a functor and writing to its eventfd. A connection that ends is taken
  out of the server's map by the main loop and destroyed by its own loop; who still needs it holds a
  \<^verbatim>\<open>shared_ptr\<close>.

  \<^bold>\<open>How it is modelled.\<close> An object is a record with the members of its class, pointers are addresses in
  a store, and every method is a function from the store to a result: \<^verbatim>\<open>Inr\<close> the new store, or \<^verbatim>\<open>Inl\<close>
  what ended the call (an exception, \<^verbatim>\<open>LOG_FATAL\<close>, an access outside an array, a null or dead object, signed
  overflow). \<^verbatim>\<open>size_t\<close> is \<^verbatim>\<open>64 word\<close> and event masks are \<^verbatim>\<open>32 word\<close>. The operating system is a record of
  functions on a kernel state of any type, with contracts as named predicates; so are the functions of the
  application. What several threads do at once is a step relation.

  \<^item> \<open>Prelude\<close>: results, sequencing, array copies, decimal text. \<open>Callbacks\<close>: pointers, the \<^verbatim>\<open>std::bind\<close>
    expressions as data (\<^verbatim>\<open>Callbacks.h\<close>). \<open>Posix\<close>: the system calls and their contracts; \<open>Sim_Kernel\<close>: a small
    kernel that keeps them, on which the properties are instantiated.
  \<^item> \<open>Buffer\<close>: \<^verbatim>\<open>Buffer.h\<close>, \<^verbatim>\<open>Buffer.cpp\<close>. The locale \<open>byte_queue\<close> is what a client sees; the buffer is an
    interpretation of it. Refinement of a byte queue, the branches and bounds of growing, exactness of the
    scatter read, and no access outside the vector even where it cannot grow.
  \<^item> \<open>Reactor\<close>, \<open>EpollPoller\<close>, \<open>Channel\<close>, \<open>EventLoop\<close>: the store, \<^verbatim>\<open>EpollPoller.cpp\<close> and \<^verbatim>\<open>Poller.cpp\<close>,
    \<^verbatim>\<open>Channel.h\<close> and \<^verbatim>\<open>Channel.cpp\<close>, \<^verbatim>\<open>EventLoop.cpp\<close>. The registry invariant ties the map of the poller, the
    index of each channel and the interest list of the kernel together; dispatch of events; the
    queue of functors; when \<^verbatim>\<open>loop()\<close> returns. \<^verbatim>\<open>while (!quit_)\<close> is a partial function into an option,
    \<^const>\<open>None\<close> for a loop that does not end; the termination properties prove \<^const>\<open>Some\<close>.
  \<^item> \<open>Wakeup\<close>: the queue, the flags and the eventfd of one loop under any interleaving of its thread with
    callers of \<^verbatim>\<open>queueInLoop\<close> and \<^verbatim>\<open>quit\<close>: no wakeup is lost, functors run in order, a sleeping loop wakes.
    \<open>LoopRefines\<close>: the methods of \<open>EventLoop\<close> are runs of this protocol.
  \<^item> \<open>InetAddress\<close>, \<open>Socket\<close>: \<^verbatim>\<open>InetAddress.cpp\<close>, \<^verbatim>\<open>Socket.cpp\<close>.
  \<^item> \<open>TcpConnection\<close>: \<^verbatim>\<open>TcpConnetion.cpp\<close>. What was written and what waits is one stream, which send extends and
    writability drains.
  \<^item> \<open>Acceptor\<close>, \<open>ThreadPool\<close>, \<open>LoopThread\<close>, \<open>TcpServer\<close>: \<^verbatim>\<open>Acceptor.cpp\<close>; \<^verbatim>\<open>Thread.cpp\<close>,
    \<^verbatim>\<open>EventLoopThread.cpp\<close> and \<^verbatim>\<open>EventLoopThreadPool.cpp\<close> as their caller sees them; the hand-over of a new loop
    between two threads; \<^verbatim>\<open>TcpServer.cpp\<close>, with the functions that run every callback and functor.
  \<^item> \<open>EchoServer\<close>: \<^verbatim>\<open>server_00.cpp\<close>. The locale \<open>message_handler\<close> is what a connection needs of a callback; the
    echo callback is an interpretation.
  \<^item> \<open>Descriptors\<close>: the live channels, their descriptors and the registries of all loops. Opening, closing,
    registering and removing keep every descriptor with one owner and every poller in line with the kernel.
  \<^item> \<open>Streams\<close>: what was read from a descriptor, what was written to it, and what waits between the two in the
    buffers of its connection or in the hands of a callback, and the steps that move bytes along.
  \<^item> \<open>Waking\<close>: the queues and \<^verbatim>\<open>eventfd\<close> counters of all loops. Whoever queues a functor wakes its loop, unless that loop
    has its queue yet to take in the iteration it is in.
  \<^item> \<open>Confinement\<close>: what the thread of one loop may write: the connections and channels of its own loop, and the end of
    another loop's queue; the server's members only from the server's own loop.
  \<^item> \<open>Ownership\<close>, \<open>Lifetime\<close>, \<open>SafeHandlers\<close>, \<open>Interleaving\<close>, \<open>Startup\<close>: the invariant of the whole server.
    An abstract machine of owners; the abstraction of the store to it, and the invariant \<open>safe\<close>, which joins owners,
    wiring, descriptors, streams, wakeups and confinement; every handler keeps the invariant, for applications in the locale \<open>safe_app\<close>; the
    loops as interleaved threads; \<^verbatim>\<open>main\<close> establishes the invariant. The echo application is an interpretation of the locale.
  \<^item> \<open>EchoRun\<close>: a run of the echo server computed from the definitions, from \<^verbatim>\<open>main\<close> to the answer to a client.
    \<open>EchoSystem\<close>: the properties of the whole server in every reachable state (memory safety, counts of owners,
    types of the store, descriptors, streams, wakeups, confinement of each step to its loop), each applied to that run.
  \<^item> \<open>Logging\<close>: \<^verbatim>\<open>Logger.cpp\<close>, \<^verbatim>\<open>Timestamp.cpp\<close>, \<^verbatim>\<open>CheckError.cpp\<close>.

  \<^bold>\<open>Where the code is wrong\<close> the model follows the code, and a property states what happens: \<^verbatim>\<open>disbaleAll\<close>
  disables nothing, a closed connection on another loop stays watched, \<^verbatim>\<open>sendInLoop\<close> drops data it cannot
  write at once, a \<^verbatim>\<open>quit()\<close> before \<^verbatim>\<open>loop()\<close> is lost, \<^verbatim>\<open>startLoop\<close> can hang, the space check of the buffer
  wraps, information lines carry two tags, and threads that log at once share one level.

  \<^bold>\<open>Assumptions.\<close> \<^verbatim>\<open>LOG_INFO\<close> and \<^verbatim>\<open>LOG_DEBUG\<close> have no effect, and logging leaves \<^verbatim>\<open>errno\<close> alone. The kernel keeps the contracts of
  \<open>Posix\<close>: counts within what was asked for, interest lists and open descriptors as the calls leave them, and, for the properties on
  streams, per-descriptor streams that only a read or a write on the descriptor extends and that start empty when \<^verbatim>\<open>accept4\<close> opens it; and, for wakeups, \<^verbatim>\<open>eventfd\<close> counters that a write makes positive. The address of a
  connection is not reused. A caller of \<^verbatim>\<open>send\<close> from another thread keeps its string alive. In
  \<open>Interleaving\<close> a handler, or the batch of queued functors, is one step: threads interleave between
  handlers, not inside one; inside \<^verbatim>\<open>queueInLoop\<close>, \<^verbatim>\<open>doPendingFunctors\<close> and \<^verbatim>\<open>startLoop\<close> they interleave in \<open>Wakeup\<close> and
  \<open>LoopThread\<close>. Loops that exist at the same time have different addresses. A thread waits in \<^verbatim>\<open>epoll_wait\<close> when its
  \<^verbatim>\<open>EventLoopThread\<close> is destroyed. \<^verbatim>\<open>Poller::newDefaultPoller\<close> is declared but defined nowhere in the
  repository, so it is a parameter, as are \<^verbatim>\<open>inet_addr\<close>, the clock and \<^verbatim>\<open>localtime\<close>.

  \<^bold>\<open>Not modelled.\<close> \<^verbatim>\<open>noncopyable.h\<close> has no behaviour at run time; build files and documentation.

  \<^bold>\<open>Plan.\<close> The destructors in the interleaving; handlers that interleave inside.
\<close>

end
